(* ===== verification/Prelude.thy ===== *)
theory Prelude
  imports Main "HOL-Library.Word"
begin

text \<open>
  What every component of the development shares.

  \<^item> \<open>error\<close> and \<open>res\<close>: the ways an operation of the library can end other than by
    returning. \<open>AssertFail\<close> is a failed \<^verbatim>\<open>assert\<close>, \<open>Fatal\<close> the \<^verbatim>\<open>abort()\<close> at the end of a
    \<^verbatim>\<open>LOG_FATAL\<close> statement, \<open>LengthError\<close> the exception of an oversized \<^verbatim>\<open>std::vector\<close>,
    \<open>BadFunctionCall\<close> the exception of calling an empty \<^verbatim>\<open>std::function\<close>, and \<open>Undefined\<close> an
    access the C++ standard leaves undefined (out of range, after \<^verbatim>\<open>delete\<close>, through a null
    pointer). \<open>Kernel\<close> marks a system call result outside its documented contract, and
    \<open>Blocked\<close> a call the kernel has not answered yet: neither is an outcome of the program.
  \<^item> \<open>sys_ret\<close>: the answers of the kernel, which are inputs of the model.
  \<^item> \<open>size_plus\<close>, \<open>size_minus\<close>: arithmetic of \<^verbatim>\<open>size_t\<close>, wrapping at 64 bits.
  \<^item> generic lemmas on results, segments and overwritten ranges of lists.
\<close>

named_theorems res_simps \<open>rewriting of sequenced results\<close>

datatype error =
    AssertFail string
  | Fatal string
  | LengthError
  | BadFunctionCall
  | Undefined string
  | Kernel
  | Blocked

type_synonym 'a res = "error + 'a"

fun res_bind :: "'a res \<Rightarrow> ('a \<Rightarrow> 'b res) \<Rightarrow> 'b res" where
  "res_bind (Inl e) f = Inl e"
| "res_bind (Inr x) f = f x"

definition cassert :: "bool \<Rightarrow> string \<Rightarrow> unit res" where
  "cassert b what = (if b then Inr () else Inl (AssertFail what))"

text \<open>
  Answers of the kernel: a failed call with its \<^verbatim>\<open>errno\<close>, a number, the bytes read, the ready
  pairs of \<^verbatim>\<open>epoll_wait\<close> (the pointer registered and its events) or the count and the \<^verbatim>\<open>revents\<close> of
  \<^verbatim>\<open>poll\<close>.
\<close>

datatype sys_ret =
    SysErr int
  | SysNum int
  | SysData "char list"
  | SysReady "(nat \<times> 32 word) list"
  | SysRevents int "16 word list"

text \<open>Linux \<^verbatim>\<open>errno\<close> values the sources compare with.\<close>

definition EPERM :: int where "EPERM = 1"
definition EINTR :: int where "EINTR = 4"
definition EBADF :: int where "EBADF = 9"
definition EAGAIN :: int where "EAGAIN = 11"
definition EACCES :: int where "EACCES = 13"
definition EFAULT :: int where "EFAULT = 14"
definition EMFILE :: int where "EMFILE = 24"
definition EPIPE :: int where "EPIPE = 32"
definition ECONNRESET :: int where "ECONNRESET = 104"

abbreviation EWOULDBLOCK :: int where "EWOULDBLOCK \<equiv> EAGAIN"

lemmas errno_defs =
  EPERM_def EINTR_def EBADF_def EAGAIN_def EACCES_def EFAULT_def EMFILE_def EPIPE_def
  ECONNRESET_def

definition size_plus :: "nat \<Rightarrow> nat \<Rightarrow> nat" where
  "size_plus a b = (a + b) mod 2 ^ 64"

definition size_minus :: "nat \<Rightarrow> nat \<Rightarrow> nat" where
  "size_minus a b = (if b \<le> a then a - b else 2 ^ 64 - (b - a))"

text \<open>The largest object: \<^verbatim>\<open>PTRDIFF_MAX\<close>, which is \<^verbatim>\<open>max_size()\<close> of a vector of bytes.\<close>

definition max_size :: nat where
  "max_size = 2 ^ 63 - 1"

definition segment :: "nat \<Rightarrow> nat \<Rightarrow> 'a list \<Rightarrow> 'a list" where
  "segment i j xs = take (j - i) (drop i xs)"

definition overwrite :: "nat \<Rightarrow> 'a list \<Rightarrow> 'a list \<Rightarrow> 'a list" where
  "overwrite i d xs = take i xs @ d @ drop (i + length d) xs"


section \<open>Results\<close>

lemma res_bind_eq_Inr [res_simps]:
  "res_bind m f = Inr y \<longleftrightarrow> (\<exists>x. m = Inr x \<and> f x = Inr y)"
  by (cases m) auto

lemma res_bind_eq_Inl [res_simps]:
  "res_bind m f = Inl e \<longleftrightarrow> m = Inl e \<or> (\<exists>x. m = Inr x \<and> f x = Inl e)"
  by (cases m) auto

lemma res_bind_assoc: "res_bind (res_bind m f) g = res_bind m (\<lambda>x. res_bind (f x) g)"
  by (cases m) auto

lemma res_bind_Inr_right [simp]: "res_bind m Inr = m"
  by (cases m) simp_all

lemma cassert_True [simp]: "cassert True w = Inr ()"
  by (simp add: cassert_def)

lemma cassert_False [simp]: "cassert False w = Inl (AssertFail w)"
  by (simp add: cassert_def)

lemma cassert_eq_Inr [simp]: "cassert b w = Inr u \<longleftrightarrow> b"
  by (simp add: cassert_def)

lemma cassert_eq_Inl [simp]: "cassert b w = Inl e \<longleftrightarrow> \<not> b \<and> e = AssertFail w"
  by (auto simp: cassert_def)

lemma res_bind_cassert:
  "res_bind (cassert b w) f = (if b then f () else Inl (AssertFail w))"
  by (simp add: cassert_def)


section \<open>Sizes\<close>

lemma size_minus_le [simp]: "b \<le> a \<Longrightarrow> size_minus a b = a - b"
  by (simp add: size_minus_def)

lemma size_plus_small [simp]: "a + b < 2 ^ 64 \<Longrightarrow> size_plus a b = a + b"
  by (simp add: size_plus_def)

lemma max_size_bounds: "a \<le> max_size \<Longrightarrow> b \<le> max_size \<Longrightarrow> a + b < 2 ^ 64"
  by (simp add: max_size_def)


section \<open>Slices and overwritten ranges\<close>

lemma length_segment [simp]: "j \<le> length xs \<Longrightarrow> length (segment i j xs) = j - i"
  by (auto simp: segment_def)

lemma segment_empty [simp]: "segment i i xs = []"
  by (simp add: segment_def)

lemma segment_split:
  assumes "i \<le> k" and "k \<le> j"
  shows "segment i j xs = segment i k xs @ segment k j xs"
proof -
  have "j - i = (k - i) + (j - k)" and "i + (k - i) = k"
    using assms by auto
  then show ?thesis
    by (metis add.commute drop_drop segment_def take_add)
qed

lemma take_segment: "i + n \<le> j \<Longrightarrow> take n (segment i j xs) = segment i (i + n) xs"
  by (simp add: segment_def min_def)

lemma drop_segment: "i + n \<le> j \<Longrightarrow> drop n (segment i j xs) = segment (i + n) j xs"
  by (simp add: segment_def drop_take add.commute)

lemma segment_append_left: "j \<le> length xs \<Longrightarrow> segment i j (xs @ ys) = segment i j xs"
  by (cases "i \<le> length xs") (auto simp: segment_def)

lemma length_overwrite [simp]:
  "i + length d \<le> length xs \<Longrightarrow> length (overwrite i d xs) = length xs"
  by (auto simp: overwrite_def)

lemma segment_overwrite:
  assumes "i \<le> k" and "k + length d \<le> length xs"
  shows "segment i (k + length d) (overwrite k d xs) = segment i k xs @ d"
  using assms by (auto simp: segment_def overwrite_def drop_take)

lemma overwrite_Nil [simp]: "overwrite i [] xs = xs"
  by (simp add: overwrite_def)

lemma nth_segment: "i + n < j \<Longrightarrow> j \<le> length xs \<Longrightarrow> segment i j xs ! n = xs ! (i + n)"
  by (simp add: segment_def)

end
