(* ===== verification/Byte_Buffer.thy ===== *)
theory Byte_Buffer
  imports Prelude
begin

text \<open>
  \<^verbatim>\<open>Buffer\<close> (\<^verbatim>\<open>twnl/Buffer.h\<close>, \<^verbatim>\<open>twnl/Buffer.cc\<close>): a vector of bytes with a reader and a writer
  index. The record has the three data members; a pointer into the vector is its offset from
  \<^verbatim>\<open>begin()\<close>. Every \<^verbatim>\<open>assert\<close> is a branch, so an operation returns a \<open>res\<close>. The answers of
  \<^verbatim>\<open>readv\<close> and \<^verbatim>\<open>write\<close> are arguments; the edge-triggered loops consume a list of answers.

  The abstract value of a buffer is the byte sequence \<open>Buffer_contents\<close>, between the two
  indices. The locale \<open>byte_queue\<close> is the contract a stream of bytes needs (what is pushed
  comes out once, in order); it is interpreted on three pairs of operations: the application
  side, the receive side and the send side of a connection.
\<close>

record buffer =
  buffer_bytes :: "char list"
  readerIndex :: nat
  writerIndex :: nat

definition kInitialSize :: nat where
  "kInitialSize = 1024"

text \<open>\<^verbatim>\<open>std::vector<char>\<close>: construction and \<^verbatim>\<open>resize\<close>, which value-initialise new bytes.\<close>

definition vector_new :: "nat \<Rightarrow> char list res" where
  "vector_new n = (if n \<le> max_size then Inr (replicate n (CHR 0x00)) else Inl LengthError)"

definition vector_resize :: "nat \<Rightarrow> char list \<Rightarrow> char list res" where
  "vector_resize n xs =
     (if n \<le> max_size then Inr (take n xs @ replicate (n - length xs) (CHR 0x00))
      else Inl LengthError)"


section \<open>Operations\<close>

definition Buffer_readableBytes :: "buffer \<Rightarrow> nat" where
  "Buffer_readableBytes b = size_minus (writerIndex b) (readerIndex b)"

definition Buffer_writableBytes :: "buffer \<Rightarrow> nat" where
  "Buffer_writableBytes b = size_minus (length (buffer_bytes b)) (writerIndex b)"

definition Buffer_new :: "nat \<Rightarrow> buffer res" where
  "Buffer_new initialSize =
     res_bind (vector_new initialSize) (\<lambda>v.
       let b = \<lparr>buffer_bytes = v, readerIndex = 0, writerIndex = 0\<rparr> in
       res_bind (cassert (Buffer_readableBytes b = 0) ''readableBytes() == 0'') (\<lambda>_.
       res_bind (cassert (Buffer_writableBytes b = initialSize)
                  ''writableBytes() == initialSize'') (\<lambda>_. Inr b)))"

text \<open>
  \<^verbatim>\<open>swap\<close> exchanges the vectors and then the reader indices twice; the writer indices stay.
\<close>

definition Buffer_swap :: "buffer \<Rightarrow> buffer \<Rightarrow> buffer \<times> buffer" where
  "Buffer_swap self rhs =
     (let self1 = self\<lparr>buffer_bytes := buffer_bytes rhs\<rparr>;
          rhs1 = rhs\<lparr>buffer_bytes := buffer_bytes self\<rparr>;
          self2 = self1\<lparr>readerIndex := readerIndex rhs1\<rparr>;
          rhs2 = rhs1\<lparr>readerIndex := readerIndex self1\<rparr>;
          self3 = self2\<lparr>readerIndex := readerIndex rhs2\<rparr>;
          rhs3 = rhs2\<lparr>readerIndex := readerIndex self2\<rparr>
      in (self3, rhs3))"

definition Buffer_peek :: "buffer \<Rightarrow> nat" where
  "Buffer_peek b = readerIndex b"

definition Buffer_beginWrite :: "buffer \<Rightarrow> nat" where
  "Buffer_beginWrite b = writerIndex b"

definition Buffer_retrieveAll :: "buffer \<Rightarrow> buffer" where
  "Buffer_retrieveAll b = b\<lparr>readerIndex := 0, writerIndex := 0\<rparr>"

definition Buffer_retrieve :: "nat \<Rightarrow> buffer \<Rightarrow> buffer res" where
  "Buffer_retrieve len b =
     res_bind (cassert (len \<le> Buffer_readableBytes b) ''len <= readableBytes()'') (\<lambda>_.
       if len < Buffer_readableBytes b
       then Inr (b\<lparr>readerIndex := size_plus (readerIndex b) len\<rparr>)
       else Inr (Buffer_retrieveAll b))"

definition Buffer_retrieveUntil :: "nat \<Rightarrow> buffer \<Rightarrow> buffer res" where
  "Buffer_retrieveUntil end_ptr b =
     res_bind (cassert (Buffer_peek b \<le> end_ptr) ''peek() <= end'') (\<lambda>_.
     res_bind (cassert (end_ptr \<le> Buffer_beginWrite b) ''end <= beginWrite()'') (\<lambda>_.
       Buffer_retrieve (size_minus end_ptr (Buffer_peek b)) b))"

definition Buffer_retrieveAsString :: "nat \<Rightarrow> buffer \<Rightarrow> (char list \<times> buffer) res" where
  "Buffer_retrieveAsString len b =
     (if Buffer_peek b + len \<le> length (buffer_bytes b)
      then let str = segment (Buffer_peek b) (Buffer_peek b + len) (buffer_bytes b) in
           res_bind (Buffer_retrieve len b) (\<lambda>b'. Inr (str, b'))
      else Inl (Undefined ''string(peek(), len) out of range''))"

definition Buffer_retrieveAllAsString :: "buffer \<Rightarrow> (char list \<times> buffer) res" where
  "Buffer_retrieveAllAsString b = Buffer_retrieveAsString (Buffer_readableBytes b) b"

definition Buffer_makeSpace :: "nat \<Rightarrow> buffer \<Rightarrow> buffer res" where
  "Buffer_makeSpace len b =
     (if size_plus (Buffer_writableBytes b) (Buffer_readableBytes b) < len
      then res_bind (vector_resize (size_plus (writerIndex b) len) (buffer_bytes b))
             (\<lambda>v. Inr (b\<lparr>buffer_bytes := v\<rparr>))
      else if readerIndex b \<le> writerIndex b \<and> writerIndex b \<le> length (buffer_bytes b)
      then let readable = Buffer_readableBytes b;
               moved = overwrite 0 (segment (readerIndex b) (writerIndex b) (buffer_bytes b))
                         (buffer_bytes b);
               b' = b\<lparr>buffer_bytes := moved, readerIndex := 0, writerIndex := 0 + readable\<rparr>
           in res_bind (cassert (readable = Buffer_readableBytes b')
                         ''readable == readableBytes()'') (\<lambda>_. Inr b')
      else Inl (Undefined ''copy out of range''))"

definition Buffer_ensureWriteBytes :: "nat \<Rightarrow> buffer \<Rightarrow> buffer res" where
  "Buffer_ensureWriteBytes len b =
     res_bind (if Buffer_writableBytes b < len then Buffer_makeSpace len b else Inr b) (\<lambda>b'.
     res_bind (cassert (len \<le> Buffer_writableBytes b') ''writableBytes() >= len'') (\<lambda>_.
       Inr b'))"

definition Buffer_hasWritten :: "nat \<Rightarrow> buffer \<Rightarrow> buffer res" where
  "Buffer_hasWritten len b =
     res_bind (cassert (len \<le> Buffer_writableBytes b) ''len <= writableBytes()'') (\<lambda>_.
       Inr (b\<lparr>writerIndex := size_plus (writerIndex b) len\<rparr>))"

definition Buffer_append :: "char list \<Rightarrow> buffer \<Rightarrow> buffer res" where
  "Buffer_append data b =
     res_bind (Buffer_ensureWriteBytes (length data) b) (\<lambda>b1.
       if Buffer_beginWrite b1 + length data \<le> length (buffer_bytes b1)
       then Buffer_hasWritten (length data)
              (b1\<lparr>buffer_bytes := overwrite (Buffer_beginWrite b1) data (buffer_bytes b1)\<rparr>)
       else Inl (Undefined ''copy past the end of the vector''))"

text \<open>
  \<^verbatim>\<open>std::search\<close> and \<^verbatim>\<open>memchr\<close> on a range: the offset of the first match, or the length of the
  range when there is none. The callers turn the end of the range into \<^verbatim>\<open>NULL\<close>.
\<close>

fun is_prefix_of :: "char list \<Rightarrow> char list \<Rightarrow> bool" where
  "is_prefix_of [] xs = True"
| "is_prefix_of (p # ps) [] = False"
| "is_prefix_of (p # ps) (x # xs) = (p = x \<and> is_prefix_of ps xs)"

fun std_search :: "char list \<Rightarrow> char list \<Rightarrow> nat" where
  "std_search pat [] = 0"
| "std_search pat (x # xs) = (if is_prefix_of pat (x # xs) then 0 else Suc (std_search pat xs))"

definition kCRLF :: "char list" where
  "kCRLF = [CHR 0x0D, CHR 0x0A]"

definition Buffer_findCRLF_from :: "nat \<Rightarrow> buffer \<Rightarrow> nat option res" where
  "Buffer_findCRLF_from start b =
     (if start \<le> Buffer_beginWrite b \<and> Buffer_beginWrite b \<le> length (buffer_bytes b)
      then let crlf = start
                 + std_search kCRLF (segment start (Buffer_beginWrite b) (buffer_bytes b))
           in Inr (if crlf = Buffer_beginWrite b then None else Some crlf)
      else Inl (Undefined ''search out of range''))"

definition Buffer_findCRLF :: "buffer \<Rightarrow> nat option res" where
  "Buffer_findCRLF b = Buffer_findCRLF_from (Buffer_peek b) b"

definition memchr :: "nat \<Rightarrow> char \<Rightarrow> nat \<Rightarrow> char list \<Rightarrow> nat option res" where
  "memchr start c n xs =
     (if start + n \<le> length xs
      then let i = std_search [c] (segment start (start + n) xs)
           in Inr (if i = n then None else Some (start + i))
      else Inl (Undefined ''memchr out of range''))"

definition Buffer_findEOL :: "buffer \<Rightarrow> nat option res" where
  "Buffer_findEOL b =
     memchr (Buffer_peek b) (CHR 0x0A) (Buffer_readableBytes b) (buffer_bytes b)"

definition Buffer_findEOL_from :: "nat \<Rightarrow> buffer \<Rightarrow> nat option res" where
  "Buffer_findEOL_from start b =
     res_bind (cassert (Buffer_peek b \<le> start) ''peek() <= start'') (\<lambda>_.
     res_bind (cassert (start \<le> Buffer_beginWrite b) ''start <= beginWrite()'') (\<lambda>_.
       memchr start (CHR 0x0A) (size_minus (Buffer_beginWrite b) start) (buffer_bytes b)))"


section \<open>Input and output\<close>

text \<open>
  \<^verbatim>\<open>readv\<close> fills the writable part of the vector first and \<^verbatim>\<open>extrabuf\<close> with the rest; it reads at
  most as many bytes as both hold. \<^verbatim>\<open>write\<close> takes at most as many bytes as it is given. An
  operation returns its result, the new value of \<^verbatim>\<open>*savedErrno\<close> and the buffer.
\<close>

definition extrabuf_size :: nat where
  "extrabuf_size = 65536"

definition Buffer_readFd :: "sys_ret \<Rightarrow> buffer \<Rightarrow> int \<Rightarrow> (int \<times> int \<times> buffer) res" where
  "Buffer_readFd ret b savedErrno =
     (let writable = Buffer_writableBytes b in
      case ret of
        SysErr e \<Rightarrow> Inr (-1, e, b)
      | SysData d \<Rightarrow>
          if writable + extrabuf_size < length d then Inl Kernel
          else if length (buffer_bytes b) < writerIndex b
          then Inl (Undefined ''iovec past the end of the vector'')
          else if length d \<le> writable
          then Inr (int (length d), savedErrno,
                 b\<lparr>buffer_bytes := overwrite (writerIndex b) d (buffer_bytes b),
                   writerIndex := size_plus (writerIndex b) (length d)\<rparr>)
          else res_bind
                 (Buffer_append (drop writable d)
                   (b\<lparr>buffer_bytes := overwrite (writerIndex b) (take writable d) (buffer_bytes b),
                      writerIndex := length (buffer_bytes b)\<rparr>))
                 (\<lambda>b'. Inr (int (length d), savedErrno, b'))
      | _ \<Rightarrow> Inl Kernel)"

definition Buffer_writeFd :: "sys_ret \<Rightarrow> buffer \<Rightarrow> int \<Rightarrow> (int \<times> int \<times> buffer) res" where
  "Buffer_writeFd ret b savedErrno =
     (let readable = Buffer_readableBytes b in
      case ret of
        SysErr e \<Rightarrow> Inr (-1, e, b)
      | SysNum n \<Rightarrow>
          if n < 0 \<or> int readable < n then Inl Kernel
          else Inr (n, savedErrno, b\<lparr>readerIndex := size_plus (readerIndex b) (nat n)\<rparr>)
      | _ \<Rightarrow> Inl Kernel)"

text \<open>
  The edge-triggered loops: one kernel answer per iteration. They return what they return,
  \<^verbatim>\<open>*savedErrno\<close>, the buffer and the answers not consumed.
\<close>

fun Buffer_readFdET ::
    "int \<Rightarrow> buffer \<Rightarrow> int \<Rightarrow> sys_ret list \<Rightarrow> (int \<times> int \<times> buffer \<times> sys_ret list) res" where
  "Buffer_readFdET n b savedErrno [] = Inl Blocked"
| "Buffer_readFdET n b savedErrno (r # rs) =
     res_bind (Buffer_readFd r b savedErrno) (\<lambda>(len, savedErrno', b').
       if len \<le> 0
       then if savedErrno' = EAGAIN then Inr (n, savedErrno', b', rs)
            else Inr (len, savedErrno', b', rs)
       else Buffer_readFdET (n + len) b' savedErrno' rs)"

fun Buffer_writeFdET ::
    "int \<Rightarrow> buffer \<Rightarrow> int \<Rightarrow> sys_ret list \<Rightarrow> (int \<times> int \<times> buffer \<times> sys_ret list) res" where
  "Buffer_writeFdET n b savedErrno [] = Inl Blocked"
| "Buffer_writeFdET n b savedErrno (r # rs) =
     res_bind (Buffer_writeFd r b savedErrno) (\<lambda>(len, savedErrno', b').
       if len \<le> 0
       then if savedErrno' = EAGAIN then Inr (n, savedErrno', b', rs)
            else Inr (len, savedErrno', b', rs)
       else Buffer_writeFdET (n + len) b' savedErrno' rs)"


section \<open>Specification\<close>

definition Buffer_contents :: "buffer \<Rightarrow> char list" where
  "Buffer_contents b = segment (readerIndex b) (writerIndex b) (buffer_bytes b)"

definition Buffer_inv :: "buffer \<Rightarrow> bool" where
  "Buffer_inv b \<longleftrightarrow>
     readerIndex b \<le> writerIndex b \<and> writerIndex b \<le> length (buffer_bytes b) \<and>
     length (buffer_bytes b) \<le> max_size"

text \<open>The buffers a program can make with the interface (all of it but \<^verbatim>\<open>swap\<close>).\<close>

inductive buffer_reach :: "buffer \<Rightarrow> bool" where
  new: "Buffer_new n = Inr b \<Longrightarrow> buffer_reach b"
| append: "buffer_reach b \<Longrightarrow> length d \<le> max_size \<Longrightarrow> Buffer_append d b = Inr b' \<Longrightarrow>
    buffer_reach b'"
| retrieve: "buffer_reach b \<Longrightarrow> Buffer_retrieve n b = Inr b' \<Longrightarrow> buffer_reach b'"
| retrieveUntil: "buffer_reach b \<Longrightarrow> Buffer_retrieveUntil p b = Inr b' \<Longrightarrow> buffer_reach b'"
| retrieveAll: "buffer_reach b \<Longrightarrow> buffer_reach (Buffer_retrieveAll b)"
| retrieveAsString: "buffer_reach b \<Longrightarrow> Buffer_retrieveAsString n b = Inr (d, b') \<Longrightarrow>
    buffer_reach b'"
| ensureWriteBytes: "buffer_reach b \<Longrightarrow> n \<le> max_size \<Longrightarrow> Buffer_ensureWriteBytes n b = Inr b' \<Longrightarrow>
    buffer_reach b'"
| hasWritten: "buffer_reach b \<Longrightarrow> Buffer_hasWritten n b = Inr b' \<Longrightarrow> buffer_reach b'"
| readFd: "buffer_reach b \<Longrightarrow> Buffer_readFd r b se = Inr (n, se', b') \<Longrightarrow> buffer_reach b'"
| writeFd: "buffer_reach b \<Longrightarrow> Buffer_writeFd r b se = Inr (n, se', b') \<Longrightarrow> buffer_reach b'"

text \<open>
  The inputs on which \<^verbatim>\<open>append\<close> fails: the data does not fit behind the writer index, it is not
  longer than the readable and the writable bytes together (so the vector is not resized), and
  moving the readable bytes to the front does not free enough room.
\<close>

definition Buffer_append_stuck :: "nat \<Rightarrow> buffer \<Rightarrow> bool" where
  "Buffer_append_stuck len b \<longleftrightarrow>
     Buffer_writableBytes b < len \<and>
     len \<le> Buffer_writableBytes b + Buffer_readableBytes b \<and>
     readerIndex b + Buffer_writableBytes b < len"

definition Buffer_append_too_long :: "nat \<Rightarrow> buffer \<Rightarrow> bool" where
  "Buffer_append_too_long len b \<longleftrightarrow>
     Buffer_writableBytes b + Buffer_readableBytes b < len \<and> max_size < writerIndex b + len"

text \<open>
  The same for \<^verbatim>\<open>readFd\<close>, which fills the vector and appends what is left in \<^verbatim>\<open>extrabuf\<close>.
\<close>

definition Buffer_readFd_stuck :: "nat \<Rightarrow> buffer \<Rightarrow> bool" where
  "Buffer_readFd_stuck n b \<longleftrightarrow>
     Buffer_writableBytes b < n \<and>
     n - Buffer_writableBytes b \<le> length (buffer_bytes b) - readerIndex b \<and>
     readerIndex b < n - Buffer_writableBytes b"

definition Buffer_readFd_too_long :: "nat \<Rightarrow> buffer \<Rightarrow> bool" where
  "Buffer_readFd_too_long n b \<longleftrightarrow>
     length (buffer_bytes b) - readerIndex b < n - Buffer_writableBytes b \<and>
     max_size < length (buffer_bytes b) + (n - Buffer_writableBytes b)"

datatype queue_op = Push "char list" | Pop nat

fun queue_run ::
    "(char list \<Rightarrow> 'b \<Rightarrow> 'b res) \<Rightarrow> (nat \<Rightarrow> 'b \<Rightarrow> (char list \<times> 'b) res) \<Rightarrow>
     queue_op list \<Rightarrow> 'b \<Rightarrow> (char list \<times> 'b) res" where
  "queue_run push pop [] b = Inr ([], b)"
| "queue_run push pop (Push d # ops) b =
     res_bind (push d b) (\<lambda>b'. queue_run push pop ops b')"
| "queue_run push pop (Pop n # ops) b =
     res_bind (pop n b) (\<lambda>(d, b').
     res_bind (queue_run push pop ops b') (\<lambda>(ds, b''). Inr (d @ ds, b'')))"

fun queue_pushed :: "queue_op list \<Rightarrow> char list" where
  "queue_pushed [] = []"
| "queue_pushed (Push d # ops) = d @ queue_pushed ops"
| "queue_pushed (Pop n # ops) = queue_pushed ops"

text \<open>
  The receive side pushes with \<^verbatim>\<open>readFd\<close>, the send side pops with \<^verbatim>\<open>writeFd\<close>: what the kernel takes
  are the first bytes of the contents.
\<close>

definition Buffer_receive :: "char list \<Rightarrow> buffer \<Rightarrow> buffer res" where
  "Buffer_receive d b = res_bind (Buffer_readFd (SysData d) b 0) (\<lambda>(n, e, b'). Inr b')"

definition Buffer_transmit :: "nat \<Rightarrow> buffer \<Rightarrow> (char list \<times> buffer) res" where
  "Buffer_transmit n b =
     res_bind (Buffer_writeFd (SysNum (int n)) b 0) (\<lambda>(len, e, b').
       Inr (take (nat len) (Buffer_contents b), b'))"


section \<open>Basic facts under the invariant\<close>

named_theorems buffer_simps \<open>the accessors under the invariant\<close>

lemma Buffer_readable [buffer_simps]:
  "Buffer_inv b \<Longrightarrow> Buffer_readableBytes b = writerIndex b - readerIndex b"
  by (simp add: Buffer_readableBytes_def Buffer_inv_def)

lemma Buffer_writable [buffer_simps]:
  "Buffer_inv b \<Longrightarrow> Buffer_writableBytes b = length (buffer_bytes b) - writerIndex b"
  by (simp add: Buffer_writableBytes_def Buffer_inv_def)

lemma length_Buffer_contents [buffer_simps]:
  "Buffer_inv b \<Longrightarrow> length (Buffer_contents b) = writerIndex b - readerIndex b"
  by (simp add: Buffer_contents_def Buffer_inv_def)

lemma Buffer_index_sum: "Buffer_inv b \<Longrightarrow> writerIndex b + n \<le> max_size \<Longrightarrow>
    size_plus (writerIndex b) n = writerIndex b + n"
  by (rule size_plus_small) (simp add: max_size_def)

lemma Buffer_invD:
  assumes "Buffer_inv b"
  shows "readerIndex b \<le> writerIndex b" and "writerIndex b \<le> length (buffer_bytes b)"
    and "length (buffer_bytes b) \<le> max_size"
  using assms by (simp_all add: Buffer_inv_def)

lemma Buffer_new_ok:
  "n \<le> max_size \<Longrightarrow> \<exists>b. Buffer_new n = Inr b \<and> Buffer_inv b \<and> Buffer_contents b = []"
  by (simp add: Buffer_new_def vector_new_def Buffer_readableBytes_def
      Buffer_writableBytes_def Buffer_inv_def Buffer_contents_def)

lemma Buffer_retrieveAll_ok [simp]:
  "Buffer_inv b \<Longrightarrow> Buffer_inv (Buffer_retrieveAll b)"
  "Buffer_contents (Buffer_retrieveAll b) = []"
  by (simp_all add: Buffer_retrieveAll_def Buffer_inv_def Buffer_contents_def)

lemma Buffer_advance:
  assumes "Buffer_inv b" and "n \<le> length (Buffer_contents b)"
  shows "Buffer_inv (b\<lparr>readerIndex := size_plus (readerIndex b) n\<rparr>)"
    and "Buffer_contents (b\<lparr>readerIndex := size_plus (readerIndex b) n\<rparr>)
         = drop n (Buffer_contents b)"
proof -
  have le: "readerIndex b + n \<le> writerIndex b"
    using assms Buffer_invD [OF assms(1)] by (simp add: buffer_simps)
  then have "size_plus (readerIndex b) n = readerIndex b + n"
    using assms(1) by (intro size_plus_small) (simp add: Buffer_inv_def max_size_def)
  with le assms(1) show "Buffer_inv (b\<lparr>readerIndex := size_plus (readerIndex b) n\<rparr>)"
    and "Buffer_contents (b\<lparr>readerIndex := size_plus (readerIndex b) n\<rparr>)
         = drop n (Buffer_contents b)"
    by (simp_all add: Buffer_inv_def Buffer_contents_def drop_segment)
qed

lemma Buffer_retrieve_ok:
  assumes "Buffer_inv b" and "n \<le> length (Buffer_contents b)"
  shows "\<exists>b'. Buffer_retrieve n b = Inr b' \<and> Buffer_inv b' \<and>
              Buffer_contents b' = drop n (Buffer_contents b)"
proof (cases "n < length (Buffer_contents b)")
  case True
  then show ?thesis
    using assms Buffer_advance [OF assms] by (simp add: Buffer_retrieve_def buffer_simps)
next
  case False
  then show ?thesis
    using assms by (simp add: Buffer_retrieve_def buffer_simps)
qed

lemma Buffer_retrieve_too_long:
  "Buffer_inv b \<Longrightarrow> length (Buffer_contents b) < n \<Longrightarrow>
   Buffer_retrieve n b = Inl (AssertFail ''len <= readableBytes()'')"
  by (simp add: Buffer_retrieve_def buffer_simps)

lemma Buffer_retrieveAsString_ok:
  assumes inv: "Buffer_inv b" and n: "n \<le> length (Buffer_contents b)"
  shows "\<exists>b'. Buffer_retrieveAsString n b = Inr (take n (Buffer_contents b), b') \<and>
              Buffer_inv b' \<and> Buffer_contents b' = drop n (Buffer_contents b)"
proof -
  from Buffer_retrieve_ok [OF assms] obtain b' where
    "Buffer_retrieve n b = Inr b'" "Buffer_inv b'"
    "Buffer_contents b' = drop n (Buffer_contents b)"
    by blast
  moreover have "readerIndex b + n \<le> writerIndex b" "writerIndex b \<le> length (buffer_bytes b)"
    using assms by (auto simp: buffer_simps Buffer_inv_def)
  ultimately show ?thesis
    by (simp add: Buffer_retrieveAsString_def Buffer_peek_def Buffer_contents_def take_segment)
qed

lemma Buffer_retrieveAsString_Inr:
  assumes inv: "Buffer_inv b" and r: "Buffer_retrieveAsString n b = Inr (d, b')"
  shows "n \<le> length (Buffer_contents b)"
proof (rule ccontr)
  assume "\<not> ?thesis"
  with inv have "Buffer_retrieve n b = Inl (AssertFail ''len <= readableBytes()'')"
    by (simp add: Buffer_retrieve_too_long)
  with r show False
    by (simp add: Buffer_retrieveAsString_def Let_def split: if_splits)
qed


section \<open>Appending\<close>

lemma Buffer_store:
  assumes "Buffer_inv b" and "length d \<le> Buffer_writableBytes b"
  defines "b' \<equiv> b\<lparr>buffer_bytes := overwrite (writerIndex b) d (buffer_bytes b),
                  writerIndex := size_plus (writerIndex b) (length d)\<rparr>"
  shows "Buffer_inv b'" and "Buffer_contents b' = Buffer_contents b @ d"
proof -
  have fits: "writerIndex b + length d \<le> length (buffer_bytes b)"
    using assms(1,2) Buffer_invD [OF assms(1)] by (simp add: buffer_simps)
  then have "size_plus (writerIndex b) (length d) = writerIndex b + length d"
    using assms(1) by (intro size_plus_small) (simp add: Buffer_inv_def max_size_def)
  with fits assms(1) show "Buffer_inv b'" and "Buffer_contents b' = Buffer_contents b @ d"
    by (simp_all add: b'_def Buffer_inv_def Buffer_contents_def segment_overwrite)
qed

lemma Buffer_append_fits:
  assumes "Buffer_inv b" and "length d \<le> Buffer_writableBytes b"
  shows "\<exists>b'. Buffer_append d b = Inr b' \<and> Buffer_inv b' \<and>
              Buffer_contents b' = Buffer_contents b @ d"
proof -
  have "Buffer_ensureWriteBytes (length d) b = Inr b"
    using assms(2) by (simp add: Buffer_ensureWriteBytes_def)
  moreover have "writerIndex b + length d \<le> length (buffer_bytes b)"
    using assms Buffer_invD [OF assms(1)] by (simp add: buffer_simps)
  ultimately show ?thesis
    using Buffer_store [OF assms] assms
    by (simp add: Buffer_append_def Buffer_hasWritten_def Buffer_beginWrite_def
        Buffer_writableBytes_def)
qed

lemma Buffer_makeSpace_grow:
  assumes inv: "Buffer_inv b" and len: "writerIndex b + len \<le> max_size"
    and grow: "Buffer_writableBytes b + Buffer_readableBytes b < len"
  shows "\<exists>b'. Buffer_makeSpace len b = Inr b' \<and> Buffer_inv b' \<and>
              Buffer_contents b' = Buffer_contents b \<and> Buffer_writableBytes b' = len"
proof -
  let ?v = "take (writerIndex b + len) (buffer_bytes b)
            @ replicate (writerIndex b + len - length (buffer_bytes b)) (CHR 0x00)"
  have ord: "length (buffer_bytes b) < writerIndex b + len" "readerIndex b \<le> writerIndex b"
    "writerIndex b \<le> length (buffer_bytes b)" "length (buffer_bytes b) \<le> max_size"
    using inv grow by (auto simp: buffer_simps Buffer_inv_def)
  have "size_plus (Buffer_writableBytes b) (Buffer_readableBytes b) < len"
    using grow le_less_trans by (fastforce simp: size_plus_def)
  then have "Buffer_makeSpace len b = Inr (b\<lparr>buffer_bytes := ?v\<rparr>)"
    using len by (simp add: Buffer_makeSpace_def vector_resize_def Buffer_index_sum [OF inv])
  then show ?thesis
    using ord len
    by (simp add: Buffer_inv_def Buffer_contents_def segment_append_left
        Buffer_writableBytes_def)
qed

lemma Buffer_makeSpace_move:
  assumes inv: "Buffer_inv b"
    and stay: "len \<le> Buffer_writableBytes b + Buffer_readableBytes b"
  shows "\<exists>b'. Buffer_makeSpace len b = Inr b' \<and> Buffer_inv b' \<and>
              Buffer_contents b' = Buffer_contents b \<and> readerIndex b' = 0 \<and>
              Buffer_writableBytes b' = readerIndex b + Buffer_writableBytes b"
proof -
  let ?c = "Buffer_contents b"
  have ord: "readerIndex b \<le> writerIndex b" "writerIndex b \<le> length (buffer_bytes b)"
    "length (buffer_bytes b) \<le> max_size"
    using inv by (auto simp: Buffer_inv_def)
  have lc: "length ?c = writerIndex b - readerIndex b" and fit: "0 + length ?c \<le> length (buffer_bytes b)"
    using ord inv by (auto simp: buffer_simps)
  have "\<not> size_plus (Buffer_writableBytes b) (Buffer_readableBytes b) < len"
    using stay ord inv by (simp add: buffer_simps max_size_def)
  moreover have "segment 0 (0 + length ?c) (overwrite 0 ?c (buffer_bytes b)) = ?c"
    using segment_overwrite [of 0 0 ?c "buffer_bytes b"] fit by simp
  ultimately show ?thesis
    using ord lc fit inv
    by (simp add: Buffer_makeSpace_def Let_def buffer_simps Buffer_inv_def Buffer_contents_def
        Buffer_readableBytes_def Buffer_writableBytes_def)
qed

lemma Buffer_append_after_space:
  assumes "Buffer_writableBytes b < length d"
    and "Buffer_makeSpace (length d) b = Inr b1" and "length d \<le> Buffer_writableBytes b1"
  shows "Buffer_append d b = Buffer_append d b1"
  using assms by (simp add: Buffer_append_def Buffer_ensureWriteBytes_def)

lemma Buffer_append_grow:
  assumes inv: "Buffer_inv b" and len: "length d \<le> max_size"
    and grow: "Buffer_writableBytes b + Buffer_readableBytes b < length d"
  shows "if writerIndex b + length d \<le> max_size
         then \<exists>b'. Buffer_append d b = Inr b' \<and> Buffer_inv b' \<and>
                   Buffer_contents b' = Buffer_contents b @ d
         else Buffer_append d b = Inl LengthError"
proof (cases "writerIndex b + length d \<le> max_size")
  case True
  then obtain b1 where "Buffer_makeSpace (length d) b = Inr b1" "Buffer_inv b1"
    "Buffer_contents b1 = Buffer_contents b" "Buffer_writableBytes b1 = length d"
    using Buffer_makeSpace_grow [OF inv _ grow] by blast
  then show ?thesis
    using True grow Buffer_append_after_space [of b d b1] Buffer_append_fits [of b1 d] by simp
next
  case False
  have "size_plus (writerIndex b) (length d) = writerIndex b + length d"
    using Buffer_invD [OF inv] len max_size_bounds le_trans by (meson size_plus_small)
  moreover have "size_plus (Buffer_writableBytes b) (Buffer_readableBytes b) < length d"
    using grow le_less_trans by (fastforce simp: size_plus_def)
  ultimately show ?thesis
    using False grow
    by (simp add: Buffer_append_def Buffer_ensureWriteBytes_def Buffer_makeSpace_def
        vector_resize_def)
qed

lemma Buffer_append_move:
  assumes inv: "Buffer_inv b" and no_room: "Buffer_writableBytes b < length d"
    and stay: "length d \<le> Buffer_writableBytes b + Buffer_readableBytes b"
  shows "if readerIndex b + Buffer_writableBytes b < length d
         then Buffer_append d b = Inl (AssertFail ''writableBytes() >= len'')
         else \<exists>b'. Buffer_append d b = Inr b' \<and> Buffer_inv b' \<and>
                   Buffer_contents b' = Buffer_contents b @ d"
proof -
  obtain b1 where b1: "Buffer_makeSpace (length d) b = Inr b1" "Buffer_inv b1"
    "Buffer_contents b1 = Buffer_contents b"
    "Buffer_writableBytes b1 = readerIndex b + Buffer_writableBytes b"
    using Buffer_makeSpace_move [OF inv stay] by blast
  show ?thesis
  proof (cases "length d \<le> Buffer_writableBytes b1")
    case True
    then show ?thesis
      using b1 no_room Buffer_append_after_space [of b d b1] Buffer_append_fits [of b1 d] by simp
  next
    case False
    then show ?thesis
      using b1 no_room by (simp add: Buffer_append_def Buffer_ensureWriteBytes_def)
  qed
qed

lemma Buffer_append_cases:
  assumes inv: "Buffer_inv b" and len: "length d \<le> max_size"
  shows "if Buffer_append_stuck (length d) b
         then Buffer_append d b = Inl (AssertFail ''writableBytes() >= len'')
         else if Buffer_append_too_long (length d) b
         then Buffer_append d b = Inl LengthError
         else \<exists>b'. Buffer_append d b = Inr b' \<and> Buffer_inv b' \<and>
                   Buffer_contents b' = Buffer_contents b @ d"
proof (cases "length d \<le> Buffer_writableBytes b")
  case True
  then show ?thesis
    using Buffer_append_fits [OF inv True]
    by (simp add: Buffer_append_stuck_def Buffer_append_too_long_def)
next
  case no_room: False
  show ?thesis
  proof (cases "Buffer_writableBytes b + Buffer_readableBytes b < length d")
    case True
    then show ?thesis
      using Buffer_append_grow [OF inv len True]
      by (simp add: Buffer_append_stuck_def Buffer_append_too_long_def not_less split: if_splits)
  next
    case False
    then show ?thesis
      using no_room Buffer_append_move [OF inv, of d]
      by (simp add: Buffer_append_stuck_def Buffer_append_too_long_def split: if_splits)
  qed
qed

lemma Buffer_append_Inr:
  assumes "Buffer_inv b" and "length d \<le> max_size" and "Buffer_append d b = Inr b'"
  shows "Buffer_inv b' \<and> Buffer_contents b' = Buffer_contents b @ d"
  using Buffer_append_cases [OF assms(1,2)] assms(3) by (auto split: if_splits)



section \<open>Input and output\<close>

lemma Buffer_readFd_spill:
  assumes inv: "Buffer_inv b" and more: "Buffer_writableBytes b < length d"
  defines "full \<equiv> b\<lparr>buffer_bytes := overwrite (writerIndex b) (take (Buffer_writableBytes b) d)
                                    (buffer_bytes b),
                    writerIndex := length (buffer_bytes b)\<rparr>"
  shows "Buffer_inv full"
    and "Buffer_contents full = Buffer_contents b @ take (Buffer_writableBytes b) d"
    and "Buffer_writableBytes full = 0"
    and "Buffer_readableBytes full = length (buffer_bytes b) - readerIndex b"
    and "readerIndex full = readerIndex b"
proof -
  let ?d = "take (Buffer_writableBytes b) d"
  note ord = Buffer_invD [OF inv]
  have len: "writerIndex b + length ?d = length (buffer_bytes b)"
    using more ord inv by (simp add: buffer_simps)
  then have sum: "size_plus (writerIndex b) (length ?d) = length (buffer_bytes b)"
    using ord by (metis add_leD1 le_add_same_cancel1 max_size_bounds order_trans size_plus_small
        nle_le add_leD2)
  have "length ?d \<le> Buffer_writableBytes b" by simp
  from Buffer_store [OF inv this] sum
  show inv': "Buffer_inv full"
    and "Buffer_contents full = Buffer_contents b @ ?d"
    by (simp_all add: full_def)
  show "Buffer_writableBytes full = 0"
    and "Buffer_readableBytes full = length (buffer_bytes b) - readerIndex b"
    using inv' len by (simp_all add: buffer_simps full_def)
  show "readerIndex full = readerIndex b"
    by (simp add: full_def)
qed

lemma Buffer_readFd_SysErr:
  "Buffer_readFd (SysErr e) b se = Inr (-1, e, b)"
  by (simp add: Buffer_readFd_def Let_def)

lemma Buffer_readFd_fits:
  assumes inv: "Buffer_inv b" and fits: "length d \<le> Buffer_writableBytes b"
  shows "\<exists>b'. Buffer_readFd (SysData d) b se = Inr (int (length d), se, b') \<and> Buffer_inv b' \<and>
              Buffer_contents b' = Buffer_contents b @ d"
  using Buffer_store [OF inv fits] fits Buffer_invD [OF inv]
  by (simp add: Buffer_readFd_def Let_def)

lemma Buffer_readFd_cases:
  assumes inv: "Buffer_inv b" and cap: "length d \<le> Buffer_writableBytes b + extrabuf_size"
  shows "if Buffer_readFd_stuck (length d) b
         then Buffer_readFd (SysData d) b se = Inl (AssertFail ''writableBytes() >= len'')
         else if Buffer_readFd_too_long (length d) b
         then Buffer_readFd (SysData d) b se = Inl LengthError
         else \<exists>b'. Buffer_readFd (SysData d) b se = Inr (int (length d), se, b') \<and>
                   Buffer_inv b' \<and> Buffer_contents b' = Buffer_contents b @ d"
proof (cases "length d \<le> Buffer_writableBytes b")
  case True
  then show ?thesis
    using Buffer_readFd_fits [OF inv True]
    by (simp add: Buffer_readFd_stuck_def Buffer_readFd_too_long_def)
next
  case False
  let ?w = "Buffer_writableBytes b"
  let ?full = "b\<lparr>buffer_bytes := overwrite (writerIndex b) (take ?w d) (buffer_bytes b),
                 writerIndex := length (buffer_bytes b)\<rparr>"
  have more: "?w < length d" using False by simp
  note full = Buffer_readFd_spill [OF inv more]
  have len: "length (drop ?w d) \<le> max_size"
    using cap by (simp add: extrabuf_size_def max_size_def)
  have eq: "Buffer_readFd (SysData d) b se =
      res_bind (Buffer_append (drop ?w d) ?full) (\<lambda>b'. Inr (int (length d), se, b'))"
    using more cap Buffer_invD(2) [OF inv] by (simp add: Buffer_readFd_def Let_def)
  have "Buffer_append_stuck (length (drop ?w d)) ?full = Buffer_readFd_stuck (length d) b"
    and "Buffer_append_too_long (length (drop ?w d)) ?full = Buffer_readFd_too_long (length d) b"
    using more full
    by (simp_all add: Buffer_append_stuck_def Buffer_readFd_stuck_def Buffer_append_too_long_def
        Buffer_readFd_too_long_def)
  with Buffer_append_cases [OF full(1) len] full(2) show ?thesis
    by (auto simp: eq split: if_splits)
qed

lemma Buffer_readFd_Inr:
  assumes inv: "Buffer_inv b" and r: "Buffer_readFd (SysData d) b se = Inr (n, se', b')"
  shows "n = int (length d) \<and> se' = se \<and> Buffer_inv b' \<and>
         Buffer_contents b' = Buffer_contents b @ d"
proof -
  have "length d \<le> Buffer_writableBytes b + extrabuf_size"
    using r by (auto simp: Buffer_readFd_def Let_def split: if_splits)
  from Buffer_readFd_cases [OF inv this, of se] r show ?thesis
    by (auto split: if_splits)
qed

lemma Buffer_writeFd_ok:
  assumes inv: "Buffer_inv b" and n: "n \<le> length (Buffer_contents b)"
  shows "\<exists>b'. Buffer_writeFd (SysNum (int n)) b se = Inr (int n, se, b') \<and> Buffer_inv b' \<and>
              Buffer_contents b' = drop n (Buffer_contents b)"
  using Buffer_advance [OF assms] n inv by (simp add: Buffer_writeFd_def Let_def buffer_simps)

lemma Buffer_writeFd_Kernel:
  "Buffer_inv b \<Longrightarrow> n < 0 \<or> int (length (Buffer_contents b)) < n \<Longrightarrow>
   Buffer_writeFd (SysNum n) b se = Inl Kernel"
  by (auto simp: Buffer_writeFd_def Let_def buffer_simps)

lemma Buffer_writeFd_SysErr:
  "Buffer_writeFd (SysErr e) b se = Inr (-1, e, b)"
  by (simp add: Buffer_writeFd_def Let_def)


section \<open>Streams of bytes\<close>

locale byte_queue =
  fixes inv :: "'b \<Rightarrow> bool"
    and contents :: "'b \<Rightarrow> char list"
    and push :: "char list \<Rightarrow> 'b \<Rightarrow> 'b res"
    and pop :: "nat \<Rightarrow> 'b \<Rightarrow> (char list \<times> 'b) res"
    and max_push :: nat
  assumes push_ok: "inv b \<Longrightarrow> length d \<le> max_push \<Longrightarrow> push d b = Inr b' \<Longrightarrow>
      inv b' \<and> contents b' = contents b @ d"
    and pop_ok: "inv b \<Longrightarrow> pop n b = Inr (d, b') \<Longrightarrow> inv b' \<and> d @ contents b' = contents b"
    and pop_total: "inv b \<Longrightarrow> n \<le> length (contents b) \<Longrightarrow> \<exists>d b'. pop n b = Inr (d, b')"
    and pop_length: "inv b \<Longrightarrow> pop n b = Inr (d, b') \<Longrightarrow> length d = n"
begin

lemma run_fifo:
  assumes "inv b" and "\<forall>op \<in> set ops. case op of Push d \<Rightarrow> length d \<le> max_push | Pop n \<Rightarrow> True"
    and "queue_run push pop ops b = Inr (out, b')"
  shows "inv b' \<and> out @ contents b' = contents b @ queue_pushed ops"
  using assms
proof (induction ops arbitrary: b out rule: queue_pushed.induct)
  case 1
  then show ?case by simp
next
  case (2 d ops)
  then obtain b1 where b1: "push d b = Inr b1" "queue_run push pop ops b1 = Inr (out, b')"
    by (auto simp: res_simps)
  moreover have "inv b1" "contents b1 = contents b @ d"
    using push_ok [OF _ _ b1(1)] "2.prems" by auto
  ultimately show ?case
    using "2.IH" [of b1 out] "2.prems" by simp
next
  case (3 n ops)
  then obtain d b1 ds where b1: "pop n b = Inr (d, b1)"
    "queue_run push pop ops b1 = Inr (ds, b')" "out = d @ ds"
    by (auto simp: res_simps)
  moreover have "inv b1" "d @ contents b1 = contents b"
    using pop_ok [OF _ b1(1)] "3.prems" by auto
  ultimately show ?case
    using "3.IH" [of b1 ds] "3.prems" by simp
qed

lemma pop_prefix:
  assumes "inv b" and "pop n b = Inr (d, b')"
  shows "d = take n (contents b)" and "contents b' = drop n (contents b)"
proof -
  have "d @ contents b' = contents b" "length d = n"
    using pop_ok [OF assms] pop_length [OF assms] by auto
  then show "d = take n (contents b)" and "contents b' = drop n (contents b)"
    by (metis append_eq_conv_conj, metis append_eq_conv_conj)
qed

end

lemma Buffer_transmit_ok:
  assumes "Buffer_inv b" and "n \<le> length (Buffer_contents b)"
  shows "\<exists>b'. Buffer_transmit n b = Inr (take n (Buffer_contents b), b') \<and> Buffer_inv b' \<and>
              Buffer_contents b' = drop n (Buffer_contents b)"
  using Buffer_writeFd_ok [OF assms, of 0] by (auto simp: Buffer_transmit_def)

lemma Buffer_transmit_Inr:
  "Buffer_inv b \<Longrightarrow> Buffer_transmit n b = Inr (d, b') \<Longrightarrow> n \<le> length (Buffer_contents b)"
  by (rule ccontr) (simp add: Buffer_transmit_def Buffer_writeFd_Kernel)

interpretation app_side: byte_queue Buffer_inv Buffer_contents Buffer_append
  Buffer_retrieveAsString max_size
proof unfold_locales
  fix b n d b'
  assume b: "Buffer_inv b" "Buffer_retrieveAsString n b = Inr (d, b')"
  from Buffer_retrieveAsString_ok [OF b(1) Buffer_retrieveAsString_Inr [OF b]] b(2)
    Buffer_retrieveAsString_Inr [OF b]
  show "Buffer_inv b' \<and> d @ Buffer_contents b' = Buffer_contents b" and "length d = n"
    by auto
qed (use Buffer_append_Inr Buffer_retrieveAsString_ok in \<open>blast+\<close>)

interpretation receive_side: byte_queue Buffer_inv Buffer_contents Buffer_receive
  Buffer_retrieveAsString max_size
proof unfold_locales
  fix b d b'
  assume "Buffer_inv b" "Buffer_receive d b = Inr b'"
  then show "Buffer_inv b' \<and> Buffer_contents b' = Buffer_contents b @ d"
    by (auto simp: Buffer_receive_def res_simps dest: Buffer_readFd_Inr)
qed (use app_side.pop_ok app_side.pop_total app_side.pop_length in \<open>blast+\<close>)

interpretation send_side: byte_queue Buffer_inv Buffer_contents Buffer_append
  Buffer_transmit max_size
proof unfold_locales
  fix b n d b'
  assume b: "Buffer_inv b" "Buffer_transmit n b = Inr (d, b')"
  from Buffer_transmit_ok [OF b(1) Buffer_transmit_Inr [OF b]] b(2) Buffer_transmit_Inr [OF b]
  show "Buffer_inv b' \<and> d @ Buffer_contents b' = Buffer_contents b" and "length d = n"
    by auto
qed (use app_side.push_ok Buffer_transmit_ok in \<open>blast+\<close>)



section \<open>Edge-triggered loops\<close>

lemma Buffer_readFdET_data:
  assumes "Buffer_inv b" and "\<forall>d \<in> set ds. d \<noteq> []"
    and "length (concat ds) \<le> Buffer_writableBytes b"
  shows "\<exists>b'. Buffer_inv b' \<and> Buffer_contents b' = Buffer_contents b @ concat ds \<and>
    (\<forall>n rs. Buffer_readFdET n b se (map SysData ds @ rs) =
            Buffer_readFdET (n + int (length (concat ds))) b' se rs)"
  using assms
proof (induction ds arbitrary: b)
  case Nil
  then show ?case by auto
next
  case (Cons d ds)
  have fits: "length d \<le> Buffer_writableBytes b" using Cons.prems by simp
  obtain b1 where b1: "Buffer_readFd (SysData d) b se = Inr (int (length d), se, b1)"
    "Buffer_inv b1" "Buffer_contents b1 = Buffer_contents b @ d"
    "buffer_bytes b1 = overwrite (writerIndex b) d (buffer_bytes b)"
    "writerIndex b1 = writerIndex b + length d"
  proof -
    have "size_plus (writerIndex b) (length d) = writerIndex b + length d"
      using fits Buffer_invD [OF Cons.prems(1)] Cons.prems(1)
      by (intro size_plus_small) (simp add: buffer_simps max_size_def)
    with fits Buffer_invD [OF Cons.prems(1)] Buffer_store [OF Cons.prems(1) fits] that
    show thesis by (simp add: Buffer_readFd_def Let_def)
  qed
  have "Buffer_writableBytes b1 = Buffer_writableBytes b - length d"
    using b1 fits Cons.prems(1) Buffer_invD [OF Cons.prems(1)] by (simp add: buffer_simps)
  then have "length (concat ds) \<le> Buffer_writableBytes b1"
    using Cons.prems(3) by simp
  with Cons.IH [of b1] b1 Cons.prems(2) show ?case
    by (auto simp: ac_simps)
qed

lemma Buffer_writeFdET_sent:
  assumes "Buffer_inv b" and "\<forall>k \<in> set ks. 0 < k" and "sum_list ks \<le> length (Buffer_contents b)"
  shows "\<exists>b'. Buffer_inv b' \<and> Buffer_contents b' = drop (sum_list ks) (Buffer_contents b) \<and>
    (\<forall>n rs. Buffer_writeFdET n b se (map (\<lambda>k. SysNum (int k)) ks @ rs) =
            Buffer_writeFdET (n + int (sum_list ks)) b' se rs)"
  using assms
proof (induction ks arbitrary: b)
  case Nil
  then show ?case by auto
next
  case (Cons k ks)
  obtain b1 where b1: "Buffer_writeFd (SysNum (int k)) b se = Inr (int k, se, b1)"
    "Buffer_inv b1" "Buffer_contents b1 = drop k (Buffer_contents b)"
    using Buffer_writeFd_ok [OF Cons.prems(1), of k se] Cons.prems(3) by auto
  have "sum_list ks \<le> length (Buffer_contents b1)"
    using Cons.prems(3) b1(3) by simp
  with Cons.IH [of b1] b1 Cons.prems(2) show ?case
    by (auto simp: ac_simps)
qed


section \<open>Searching\<close>

lemma is_prefix_of_iff: "is_prefix_of ps xs \<longleftrightarrow> (\<exists>ys. xs = ps @ ys)"
  by (induction ps xs rule: is_prefix_of.induct) auto

lemma std_search_le: "std_search pat xs \<le> length xs"
  by (induction xs) auto

lemma std_search_match:
  "std_search pat xs < length xs \<Longrightarrow> is_prefix_of pat (drop (std_search pat xs) xs)"
  by (induction xs) auto

lemma std_search_least: "i < std_search pat xs \<Longrightarrow> \<not> is_prefix_of pat (drop i xs)"
proof (induction xs arbitrary: i)
  case (Cons x xs)
  then show ?case by (cases i) (auto split: if_splits)
qed simp

lemma search_CRLF_None:
  assumes "std_search kCRLF c = length c"
  shows "\<not> (\<exists>pre post. c = pre @ kCRLF @ post)"
proof
  assume "\<exists>pre post. c = pre @ kCRLF @ post"
  then obtain pre post where c: "c = pre @ kCRLF @ post" by blast
  then have "length pre < std_search kCRLF c" using assms by (simp add: kCRLF_def)
  from std_search_least [OF this] c show False by (simp add: is_prefix_of_iff)
qed

lemma search_CRLF_Some:
  assumes "std_search kCRLF c \<noteq> length c"
  shows "\<exists>line rest. c = line @ kCRLF @ rest \<and> length line = std_search kCRLF c \<and>
    \<not> (\<exists>pre post. line @ butlast kCRLF = pre @ kCRLF @ post)"
proof -
  let ?i = "std_search kCRLF c"
  have lt: "?i < length c" using assms std_search_le [of kCRLF c] by simp
  then obtain rest where rest: "drop ?i c = kCRLF @ rest"
    using std_search_match is_prefix_of_iff by blast
  define line where "line = take ?i c"
  have c: "c = line @ kCRLF @ rest" and ll: "length line = ?i"
    using rest lt by (simp_all add: line_def flip: rest)
  have False if p: "line @ butlast kCRLF = pre @ kCRLF @ post" for pre post
  proof -
    have "length (line @ butlast kCRLF) = length (pre @ kCRLF @ post)"
      using p by (rule arg_cong)
    then have "length pre < ?i" using ll by (simp add: kCRLF_def)
    moreover have "c = pre @ kCRLF @ post @ [last kCRLF] @ rest"
      using p c by (metis append.assoc append_butlast_last_id kCRLF_def list.distinct(1))
    ultimately show False
      using std_search_least [of "length pre" kCRLF c] by (simp add: is_prefix_of_iff)
  qed
  with c ll show ?thesis by blast
qed

lemma Buffer_findCRLF_eq:
  assumes inv: "Buffer_inv b"
  defines "i \<equiv> std_search kCRLF (Buffer_contents b)"
  shows "Buffer_findCRLF b =
    Inr (if i = length (Buffer_contents b) then None else Some (readerIndex b + i))"
  using Buffer_invD [OF inv] length_Buffer_contents [OF inv]
  by (auto simp: i_def Buffer_findCRLF_def Buffer_findCRLF_from_def Buffer_peek_def
      Buffer_beginWrite_def Buffer_contents_def Let_def)

lemma Buffer_retrieveUntil_ok:
  assumes inv: "Buffer_inv b" and n: "n \<le> length (Buffer_contents b)"
  shows "\<exists>b'. Buffer_retrieveUntil (readerIndex b + n) b = Inr b' \<and> Buffer_inv b' \<and>
              Buffer_contents b' = drop n (Buffer_contents b)"
proof -
  have "readerIndex b + n \<le> writerIndex b"
    using n Buffer_invD [OF inv] inv by (simp add: buffer_simps)
  then show ?thesis
    using Buffer_retrieve_ok [OF assms]
    by (simp add: Buffer_retrieveUntil_def Buffer_peek_def Buffer_beginWrite_def)
qed



section \<open>Reachable buffers\<close>

lemma Buffer_ensureWriteBytes_Inr:
  assumes inv: "Buffer_inv b" and n: "n \<le> max_size"
    and r: "Buffer_ensureWriteBytes n b = Inr b'"
  shows "Buffer_inv b' \<and> Buffer_contents b' = Buffer_contents b \<and> n \<le> Buffer_writableBytes b'"
proof (cases "Buffer_writableBytes b < n")
  case False
  with r inv show ?thesis by (simp add: Buffer_ensureWriteBytes_def res_simps)
next
  case True
  with r have ms: "Buffer_makeSpace n b = Inr b'" "n \<le> Buffer_writableBytes b'"
    by (auto simp: Buffer_ensureWriteBytes_def res_simps)
  show ?thesis
  proof (cases "Buffer_writableBytes b + Buffer_readableBytes b < n")
    case grow: True
    have "size_plus (writerIndex b) n = writerIndex b + n"
      using Buffer_invD [OF inv] n max_size_bounds le_trans by (meson size_plus_small)
    moreover have "size_plus (Buffer_writableBytes b) (Buffer_readableBytes b) < n"
      using grow le_less_trans by (fastforce simp: size_plus_def)
    ultimately have "writerIndex b + n \<le> max_size"
      using ms by (auto simp: Buffer_makeSpace_def vector_resize_def split: if_splits)
    from Buffer_makeSpace_grow [OF inv this grow] ms show ?thesis by auto
  next
    case False
    with Buffer_makeSpace_move [OF inv, of n] ms show ?thesis by auto
  qed
qed

lemma Buffer_hasWritten_Inr:
  assumes inv: "Buffer_inv b" and "Buffer_hasWritten n b = Inr b'"
  shows "Buffer_inv b'"
proof -
  have "n \<le> Buffer_writableBytes b" and b': "b' = b\<lparr>writerIndex := size_plus (writerIndex b) n\<rparr>"
    using assms by (auto simp: Buffer_hasWritten_def res_simps)
  then have le: "writerIndex b + n \<le> length (buffer_bytes b)"
    using inv Buffer_invD [OF inv] by (simp add: buffer_simps)
  then have "size_plus (writerIndex b) n = writerIndex b + n"
    using Buffer_invD [OF inv] by (intro size_plus_small) (simp add: max_size_def)
  with le b' inv show ?thesis by (simp add: Buffer_inv_def)
qed

lemma Buffer_retrieve_Inr:
  "Buffer_inv b \<Longrightarrow> Buffer_retrieve n b = Inr b' \<Longrightarrow> Buffer_inv b'"
  by (metis Buffer_retrieve_ok Buffer_retrieve_too_long Inl_Inr_False linorder_not_less sum.inject(2))

lemma Buffer_writeFd_Inr:
  assumes inv: "Buffer_inv b" and r: "Buffer_writeFd r b se = Inr (n, se', b')"
  shows "Buffer_inv b'"
proof (cases r)
  case (SysNum k)
  with r have "0 \<le> k" "nat k \<le> length (Buffer_contents b)"
    using Buffer_writeFd_Kernel [OF inv, of k se] by fastforce+
  with Buffer_writeFd_ok [OF inv, of "nat k" se] r SysNum show ?thesis by auto
qed (use r inv in \<open>auto simp: Buffer_writeFd_def Let_def\<close>)

lemma Buffer_readFd_inv:
  "Buffer_inv b \<Longrightarrow> Buffer_readFd r b se = Inr (n, se', b') \<Longrightarrow> Buffer_inv b'"
  by (cases r) (auto simp: Buffer_readFd_SysErr dest: Buffer_readFd_Inr, simp_all add: Buffer_readFd_def)

lemma buffer_reach_inv: "buffer_reach b \<Longrightarrow> Buffer_inv b"
proof (induction rule: buffer_reach.induct)
  case (new n b)
  then have "n \<le> max_size"
    by (auto simp: Buffer_new_def vector_new_def res_simps split: if_splits)
  with new Buffer_new_ok [of n] show ?case by auto
next
  case (retrieveUntil b p b')
  then show ?case
    by (auto simp: Buffer_retrieveUntil_def res_simps dest: Buffer_retrieve_Inr)
next
  case (retrieveAsString b n d b')
  then show ?case by (auto dest: app_side.pop_ok)
qed (auto dest: Buffer_append_Inr Buffer_retrieve_Inr Buffer_ensureWriteBytes_Inr
    Buffer_hasWritten_Inr Buffer_readFd_inv Buffer_writeFd_Inr)



section \<open>Properties\<close>

text \<open>
  C19. What \<^verbatim>\<open>append\<close> does on every input. The data goes behind the contents, except in two cases:
  the vector would pass its maximal size, or the space test of \<^verbatim>\<open>makeSpace\<close> (which adds the readable
  bytes instead of the consumed ones) keeps the vector although the data does not fit, and the
  assertion of \<^verbatim>\<open>ensureWriteBytes\<close> fails.
\<close>

theorem buffer_append_outcome:
  assumes "Buffer_inv b" and "length d \<le> max_size"
  shows "if Buffer_append_stuck (length d) b
         then Buffer_append d b = Inl (AssertFail ''writableBytes() >= len'')
         else if Buffer_append_too_long (length d) b then Buffer_append d b = Inl LengthError
         else \<exists>b'. Buffer_append d b = Inr b' \<and> Buffer_inv b' \<and>
                   Buffer_contents b' = Buffer_contents b @ d"
  using assms by (rule Buffer_append_cases)

theorem buffer_append_outcome_witness:
  "\<exists>b'. Buffer_append ''wxyz'' \<lparr>buffer_bytes = ''abcd'', readerIndex = 1, writerIndex = 3\<rparr> = Inr b'
     \<and> Buffer_contents b' = ''bcwxyz''"
  using buffer_append_outcome
    [of "\<lparr>buffer_bytes = ''abcd'', readerIndex = 1, writerIndex = 3\<rparr>" "''wxyz''"]
  by (simp add: Buffer_inv_def max_size_def Buffer_contents_def segment_def
      Buffer_append_stuck_def Buffer_append_too_long_def Buffer_writableBytes_def
      Buffer_readableBytes_def) blast

text \<open>
  C20. Streams keep their order. Whatever a program does with one buffer through \<^verbatim>\<open>readFd\<close> and
  \<^verbatim>\<open>retrieveAsString\<close> (the receive side of a connection), the bytes it has taken out followed by
  the bytes still inside are the bytes that were inside followed by the bytes received.
\<close>

theorem buffer_receive_fifo:
  assumes "Buffer_inv b"
    and "\<forall>op \<in> set ops. case op of Push d \<Rightarrow> length d \<le> max_size | Pop n \<Rightarrow> True"
    and "queue_run Buffer_receive Buffer_retrieveAsString ops b = Inr (out, b')"
  shows "Buffer_inv b' \<and> out @ Buffer_contents b' = Buffer_contents b @ queue_pushed ops"
  using assms by (rule receive_side.run_fifo)

theorem buffer_receive_fifo_witness:
  "\<exists>out b'. queue_run Buffer_receive Buffer_retrieveAsString [Push ''abc'', Pop 2, Push ''d'']
       \<lparr>buffer_bytes = ''12345678'', readerIndex = 0, writerIndex = 0\<rparr> = Inr (out, b') \<and>
     out @ Buffer_contents b' = ''abcd''"
proof -
  let ?b = "\<lparr>buffer_bytes = ''12345678'', readerIndex = 0, writerIndex = 0\<rparr>"
  let ?ops = "[Push ''abc'', Pop 2, Push ''d'']"
  obtain out b' where r: "queue_run Buffer_receive Buffer_retrieveAsString ?ops ?b = Inr (out, b')"
    by (simp add: Buffer_receive_def Buffer_readFd_def Buffer_writableBytes_def size_minus_def
        extrabuf_size_def overwrite_def size_plus_def Buffer_retrieveAsString_def Buffer_peek_def
        Buffer_retrieve_def Buffer_readableBytes_def segment_def)
  from buffer_receive_fifo [OF _ _ r] r show ?thesis
    by (simp add: Buffer_inv_def max_size_def Buffer_contents_def)
qed


text \<open>
  C21. The same for the send side: \<^verbatim>\<open>append\<close> by the application, \<^verbatim>\<open>writeFd\<close> with any number of bytes
  taken by the kernel. What the kernel was given is a prefix of what was appended, in order.
\<close>

theorem buffer_send_fifo:
  assumes "Buffer_inv b"
    and "\<forall>op \<in> set ops. case op of Push d \<Rightarrow> length d \<le> max_size | Pop n \<Rightarrow> True"
    and "queue_run Buffer_append Buffer_transmit ops b = Inr (out, b')"
  shows "Buffer_inv b' \<and> out @ Buffer_contents b' = Buffer_contents b @ queue_pushed ops"
  using assms by (rule send_side.run_fifo)

theorem buffer_send_fifo_witness:
  "\<exists>out b'. queue_run Buffer_append Buffer_transmit [Push ''abc'', Pop 2, Push ''d'', Pop 1]
       \<lparr>buffer_bytes = ''12345678'', readerIndex = 0, writerIndex = 0\<rparr> = Inr (out, b') \<and>
     out @ Buffer_contents b' = ''abcd''"
proof -
  let ?b = "\<lparr>buffer_bytes = ''12345678'', readerIndex = 0, writerIndex = 0\<rparr>"
  let ?ops = "[Push ''abc'', Pop 2, Push ''d'', Pop 1]"
  obtain out b' where r: "queue_run Buffer_append Buffer_transmit ?ops ?b = Inr (out, b')"
    by (simp add: Buffer_append_def Buffer_ensureWriteBytes_def Buffer_beginWrite_def
        Buffer_hasWritten_def Buffer_transmit_def Buffer_writeFd_def Buffer_writableBytes_def
        size_minus_def overwrite_def size_plus_def Buffer_readableBytes_def)
  from buffer_send_fifo [OF _ _ r] r show ?thesis
    by (simp add: Buffer_inv_def max_size_def Buffer_contents_def)
qed



text \<open>
  The space test of \<^verbatim>\<open>makeSpace\<close> breaks reading: a connection's fresh input buffer (1024 bytes)
  fails its assertion whenever one \<^verbatim>\<open>readFd\<close> gets between 1025 and 2048 bytes. (With assertions
  compiled out, the copy runs past the end of the vector.)
\<close>

theorem buffer_first_read_overflow:
  assumes "Buffer_new kInitialSize = Inr b" and "1024 < length d" and "length d \<le> 2048"
  shows "Buffer_readFd (SysData d) b se = Inl (AssertFail ''writableBytes() >= len'')"
proof -
  have b: "b = \<lparr>buffer_bytes = replicate 1024 (CHR 0x00), readerIndex = 0, writerIndex = 0\<rparr>"
    using assms(1)
    by (auto simp: Buffer_new_def vector_new_def kInitialSize_def res_simps Let_def
        split: if_splits)
  have inv: "Buffer_inv b"
    by (simp add: b Buffer_inv_def max_size_def)
  have "length d \<le> Buffer_writableBytes b + extrabuf_size"
    and "Buffer_readFd_stuck (length d) b"
    using assms(2,3)
    by (simp_all add: b Buffer_writableBytes_def extrabuf_size_def Buffer_readFd_stuck_def)
  with Buffer_readFd_cases [OF inv, of d se] show ?thesis by simp
qed

theorem buffer_first_read_overflow_witness:
  "\<exists>b. Buffer_new kInitialSize = Inr b \<and>
     Buffer_readFd (SysData (replicate 1500 CHR ''x'')) b 0
       = Inl (AssertFail ''writableBytes() >= len'')"
proof -
  obtain b where b: "Buffer_new kInitialSize = Inr b"
    using Buffer_new_ok [of kInitialSize] by (auto simp: kInitialSize_def max_size_def)
  then show ?thesis
    using buffer_first_read_overflow [OF b, of "replicate 1500 CHR ''x''" 0] by simp
qed



text \<open>
  C35. The edge-triggered write loop: if the socket fills up (\<^verbatim>\<open>EAGAIN\<close>) it returns the number of
  bytes sent. If it sends everything, the next call writes zero bytes, the kernel answers 0,
  and the loop returns 0 although the buffer is drained, so the caller cannot tell that any
  data was sent.
\<close>

theorem buffer_writeFdET_outcome:
  assumes "Buffer_inv b" and "\<forall>k \<in> set ks. 0 < k"
    and "sum_list ks \<le> length (Buffer_contents b)"
  shows "(\<exists>b'. Buffer_contents b' = drop (sum_list ks) (Buffer_contents b) \<and>
      Buffer_writeFdET 0 b 0 (map (\<lambda>k. SysNum (int k)) ks @ SysErr EAGAIN # rs)
        = Inr (int (sum_list ks), EAGAIN, b', rs)) \<and>
    (\<exists>b'. Buffer_contents b' = drop (sum_list ks) (Buffer_contents b) \<and>
      Buffer_writeFdET 0 b 0 (map (\<lambda>k. SysNum (int k)) ks @ SysNum 0 # rs) = Inr (0, 0, b', rs))"
proof -
  obtain b' where b': "Buffer_inv b'"
      "Buffer_contents b' = drop (sum_list ks) (Buffer_contents b)"
    and eq: "\<forall>n rs. Buffer_writeFdET n b 0 (map (\<lambda>k. SysNum (int k)) ks @ rs)
                 = Buffer_writeFdET (n + int (sum_list ks)) b' 0 rs"
    using Buffer_writeFdET_sent [OF assms, of 0] by blast
  obtain b'' where "Buffer_writeFd (SysNum 0) b' 0 = Inr (0, 0, b'')"
    "Buffer_contents b'' = Buffer_contents b'"
    using Buffer_writeFd_ok [OF b'(1), of 0 0] by auto
  with b' show ?thesis
    by (auto simp: eq Buffer_writeFd_SysErr EAGAIN_def)
qed

theorem buffer_writeFdET_outcome_witness:
  "\<exists>b'. Buffer_contents b' = [] \<and>
     Buffer_writeFdET 0 \<lparr>buffer_bytes = ''hello'', readerIndex = 0, writerIndex = 5\<rparr> 0
       [SysNum 2, SysNum 3, SysNum 0] = Inr (0, 0, b', [])"
  using buffer_writeFdET_outcome
    [of "\<lparr>buffer_bytes = ''hello'', readerIndex = 0, writerIndex = 5\<rparr>" "[2, 3]" "[]"]
  by (auto simp: Buffer_inv_def max_size_def Buffer_contents_def segment_def)

text \<open>
  Line-oriented reading. If \<^verbatim>\<open>findCRLF\<close> returns a pointer, the contents split at it into a line
  without a line end before it, CR LF, and the rest, and \<^verbatim>\<open>retrieveUntil\<close> two bytes further on
  leaves exactly the rest; if it returns \<^verbatim>\<open>NULL\<close>, the contents have no CR LF.
\<close>

theorem buffer_crlf_line:
  assumes "Buffer_inv b"
  shows "\<exists>r. Buffer_findCRLF b = Inr r \<and>
    (case r of
       None \<Rightarrow> \<not> (\<exists>pre post. Buffer_contents b = pre @ kCRLF @ post)
     | Some p \<Rightarrow> \<exists>line rest b'. Buffer_contents b = line @ kCRLF @ rest \<and>
         p = readerIndex b + length line \<and>
         \<not> (\<exists>pre post. line @ butlast kCRLF = pre @ kCRLF @ post) \<and>
         Buffer_retrieveUntil (p + 2) b = Inr b' \<and> Buffer_contents b' = rest)"
proof (cases "std_search kCRLF (Buffer_contents b) = length (Buffer_contents b)")
  case True
  then show ?thesis
    using search_CRLF_None [OF True] by (simp add: Buffer_findCRLF_eq [OF assms])
next
  case False
  let ?c = "Buffer_contents b"
  let ?i = "std_search kCRLF ?c"
  obtain line rest where split: "?c = line @ kCRLF @ rest" "length line = ?i"
    "\<not> (\<exists>pre post. line @ butlast kCRLF = pre @ kCRLF @ post)"
    using search_CRLF_Some [OF False] by blast
  then have "?i + 2 \<le> length ?c" and "drop (?i + 2) ?c = rest"
    by (auto simp: kCRLF_def)
  then obtain b' where "Buffer_retrieveUntil (readerIndex b + (?i + 2)) b = Inr b'"
    "Buffer_contents b' = rest"
    using Buffer_retrieveUntil_ok [OF assms, of "?i + 2"] by auto
  then show ?thesis
    using False split by (simp add: Buffer_findCRLF_eq [OF assms] add.assoc) blast
qed

theorem buffer_crlf_line_witness:
  "\<exists>line rest. Buffer_contents \<lparr>buffer_bytes = CHR ''a'' # kCRLF @ ''b'', readerIndex = 0, writerIndex = 4\<rparr>
      = line @ kCRLF @ rest"
  using buffer_crlf_line
    [of "\<lparr>buffer_bytes = CHR ''a'' # kCRLF @ ''b'', readerIndex = 0, writerIndex = 4\<rparr>"]
  by (auto simp: Buffer_inv_def max_size_def Buffer_contents_def segment_def kCRLF_def
      Buffer_findCRLF_def Buffer_findCRLF_from_def Buffer_peek_def Buffer_beginWrite_def)

text \<open>
  \<^verbatim>\<open>swap\<close> exchanges the vectors but leaves both pairs of indices in place (the second
  \<^verbatim>\<open>std::swap\<close> undoes the first, and the writer indices are never exchanged): each buffer then
  shows the other's bytes through its own window, which may lie outside them.
\<close>

theorem buffer_swap_keeps_indices:
  "Buffer_swap a b =
     (a\<lparr>buffer_bytes := buffer_bytes b\<rparr>, b\<lparr>buffer_bytes := buffer_bytes a\<rparr>) \<and>
   (\<exists>a b. Buffer_inv a \<and> Buffer_inv b \<and> \<not> Buffer_inv (fst (Buffer_swap a b)))"
proof
  show "Buffer_swap a b =
     (a\<lparr>buffer_bytes := buffer_bytes b\<rparr>, b\<lparr>buffer_bytes := buffer_bytes a\<rparr>)"
    by (simp add: Buffer_swap_def Let_def)
  show "\<exists>a b. Buffer_inv a \<and> Buffer_inv b \<and> \<not> Buffer_inv (fst (Buffer_swap a b))"
    by (intro exI [of _ "\<lparr>buffer_bytes = ''ab'', readerIndex = 0, writerIndex = 2\<rparr>"]
        exI [of _ "\<lparr>buffer_bytes = [], readerIndex = 0, writerIndex = 0\<rparr>"])
      (simp add: Buffer_inv_def Buffer_swap_def Let_def max_size_def)
qed

end
