(* ===== verification/Log_Stream.thy ===== *)
theory Log_Stream
  imports Prelude "HOL-Library.Signed_Division"
begin

text \<open>
  \<^verbatim>\<open>FixedBuffer\<close> and \<^verbatim>\<open>LogStream\<close> (\<^verbatim>\<open>twnl/Log/LogStream.h\<close>, \<^verbatim>\<open>twnl/Log/LogStream.cc\<close>). A fixed
  buffer is an array with a cursor; every write checks that it stays inside the array, so
  \<open>Undefined\<close> would be a write out of range. The overloads of \<^verbatim>\<open>operator<<\<close> are the constructors of
  \<open>log_arg\<close>, integers at their C++ width. \<open>LogStream_text\<close> is the text logged so far, and the
  specification says which part of a sequence of arguments it holds.
\<close>

datatype cookie = CookieStart | CookieEnd

record fixed_buffer =
  fb_cookie :: cookie
  fb_data :: "char list"
  fb_cur :: nat

definition kSmallBuffer :: nat where
  "kSmallBuffer = 4000"

definition kMaxNumericSize :: int where
  "kMaxNumericSize = 32"


section \<open>FixedBuffer\<close>

text \<open>The array is not initialised by the constructor: its first contents are an argument.\<close>

definition FixedBuffer_new :: "char list \<Rightarrow> fixed_buffer" where
  "FixedBuffer_new raw = \<lparr>fb_cookie = CookieStart, fb_data = raw, fb_cur = 0\<rparr>"

definition FixedBuffer_dtor :: "fixed_buffer \<Rightarrow> fixed_buffer" where
  "FixedBuffer_dtor fb = fb\<lparr>fb_cookie := CookieEnd\<rparr>"

definition FixedBuffer_length :: "fixed_buffer \<Rightarrow> int" where
  "FixedBuffer_length fb = int (fb_cur fb)"

definition FixedBuffer_avail :: "fixed_buffer \<Rightarrow> int" where
  "FixedBuffer_avail fb = int (length (fb_data fb)) - int (fb_cur fb)"

text \<open>A store of bytes at the cursor plus an offset, which has to stay inside the array.\<close>

definition fb_store :: "nat \<Rightarrow> char list \<Rightarrow> fixed_buffer \<Rightarrow> fixed_buffer res" where
  "fb_store off d fb =
     (if fb_cur fb + off + length d \<le> length (fb_data fb)
      then Inr (fb\<lparr>fb_data := overwrite (fb_cur fb + off) d (fb_data fb)\<rparr>)
      else Inl (Undefined ''write past the end of data_''))"

definition FixedBuffer_add :: "nat \<Rightarrow> fixed_buffer \<Rightarrow> fixed_buffer" where
  "FixedBuffer_add len fb = fb\<lparr>fb_cur := fb_cur fb + len\<rparr>"

definition FixedBuffer_append :: "char list \<Rightarrow> fixed_buffer \<Rightarrow> fixed_buffer res" where
  "FixedBuffer_append d fb =
     (if int (length d) < FixedBuffer_avail fb mod 2 ^ 64
      then res_bind (fb_store 0 d fb) (\<lambda>fb'. Inr (FixedBuffer_add (length d) fb'))
      else Inr fb)"

definition FixedBuffer_reset :: "fixed_buffer \<Rightarrow> fixed_buffer" where
  "FixedBuffer_reset fb = fb\<lparr>fb_cur := 0\<rparr>"

definition FixedBuffer_bzero :: "fixed_buffer \<Rightarrow> fixed_buffer" where
  "FixedBuffer_bzero fb = fb\<lparr>fb_data := replicate (length (fb_data fb)) (CHR 0x00)\<rparr>"

definition FixedBuffer_debugString :: "fixed_buffer \<Rightarrow> fixed_buffer res" where
  "FixedBuffer_debugString fb = fb_store 0 [CHR 0x00] fb"

definition FixedBuffer_toString :: "fixed_buffer \<Rightarrow> char list" where
  "FixedBuffer_toString fb = take (nat (FixedBuffer_length fb)) (fb_data fb)"


section \<open>Conversion of integers\<close>

text \<open>
  \<^verbatim>\<open>convert\<close> divides with C++'s truncating operators (\<open>sdiv\<close>, \<open>smod\<close>), so for a negative
  value the last digit is between -9 and 0; the table \<^verbatim>\<open>digits\<close> is symmetric around \<^verbatim>\<open>zero\<close>.
\<close>

definition digits :: "char list" where
  "digits = ''9876543210123456789''"

definition zero_at :: "int \<Rightarrow> char" where
  "zero_at lsd = digits ! nat (9 + lsd)"

definition digitsHex :: "char list" where
  "digitsHex = ''0123456789ABCDEF''"

function convert_loop :: "int \<Rightarrow> char list" where
  "convert_loop i =
     (let lsd = i smod 10; i' = i sdiv 10
      in zero_at lsd # (if i' \<noteq> 0 then convert_loop i' else []))"
  by pat_completeness auto
termination
proof (relation "measure (\<lambda>i. nat \<bar>i\<bar>)", goal_cases)
  case (2 i lsd i')
  then have "\<bar>i'\<bar> = \<bar>i\<bar> div 10" and "i \<noteq> 0"
    by (auto simp: signed_divide_int_def abs_mult sgn_if split: if_splits)
  then show ?case by simp
qed simp

declare convert_loop.simps [simp del]

definition convert :: "int \<Rightarrow> char list" where
  "convert v = rev (convert_loop v @ (if v < 0 then [CHR ''-''] else []))"

fun convertHex_loop :: "nat \<Rightarrow> char list" where
  "convertHex_loop i =
     digitsHex ! (i mod 16) # (if i div 16 \<noteq> 0 then convertHex_loop (i div 16) else [])"

declare convertHex_loop.simps [simp del]

definition convertHex :: "nat \<Rightarrow> char list" where
  "convertHex v = rev (convertHex_loop v)"


section \<open>LogStream\<close>

type_synonym logstream = fixed_buffer

text \<open>
  What \<^verbatim>\<open>operator<<\<close> takes. \<open>LDouble t\<close> carries the text \<^verbatim>\<open>snprintf("%.12g")\<close> makes of the number,
  \<open>LThreadId t\<close> the text the standard library prints for the running thread.
\<close>

datatype log_arg =
    LBool bool
  | LShort "16 word"
  | LUShort "16 word"
  | LInt "32 word"
  | LUInt "32 word"
  | LLong "64 word"
  | LULong "64 word"
  | LLongLong "64 word"
  | LULongLong "64 word"
  | LPointer "64 word"
  | LDouble "char list"
  | LChar char
  | LCStr "char list option"
  | LString "char list"
  | LBuffer fixed_buffer
  | LThreadId "char list"

definition LogStream_formatInteger :: "int \<Rightarrow> logstream \<Rightarrow> logstream res" where
  "LogStream_formatInteger v s =
     (if kMaxNumericSize \<le> FixedBuffer_avail s
      then res_bind (fb_store 0 (convert v @ [CHR 0x00]) s)
             (\<lambda>s'. Inr (FixedBuffer_add (length (convert v)) s'))
      else Inr s)"

definition LogStream_formatPointer :: "64 word \<Rightarrow> logstream \<Rightarrow> logstream res" where
  "LogStream_formatPointer p s =
     (if kMaxNumericSize \<le> FixedBuffer_avail s
      then res_bind (fb_store 0 ''0x'' s) (\<lambda>s1.
           res_bind (fb_store 2 (convertHex (unat p) @ [CHR 0x00]) s1) (\<lambda>s2.
             Inr (FixedBuffer_add (length (convertHex (unat p)) + 2) s2)))
      else Inr s)"

definition LogStream_formatDouble :: "char list \<Rightarrow> logstream \<Rightarrow> logstream res" where
  "LogStream_formatDouble t s =
     (if kMaxNumericSize \<le> FixedBuffer_avail s
      then res_bind (fb_store 0 (take (nat kMaxNumericSize - 1) t @ [CHR 0x00]) s)
             (\<lambda>s'. Inr (FixedBuffer_add (length t) s'))
      else Inr s)"

fun LogStream_put :: "log_arg \<Rightarrow> logstream \<Rightarrow> logstream res" where
  "LogStream_put (LBool v) s = FixedBuffer_append (if v then ''1'' else ''0'') s"
| "LogStream_put (LShort v) s = LogStream_formatInteger (sint v) s"
| "LogStream_put (LUShort v) s = LogStream_formatInteger (uint v) s"
| "LogStream_put (LInt v) s = LogStream_formatInteger (sint v) s"
| "LogStream_put (LUInt v) s = LogStream_formatInteger (uint v) s"
| "LogStream_put (LLong v) s = LogStream_formatInteger (sint v) s"
| "LogStream_put (LULong v) s = LogStream_formatInteger (uint v) s"
| "LogStream_put (LLongLong v) s = LogStream_formatInteger (sint v) s"
| "LogStream_put (LULongLong v) s = LogStream_formatInteger (uint v) s"
| "LogStream_put (LPointer p) s = LogStream_formatPointer p s"
| "LogStream_put (LDouble t) s = LogStream_formatDouble t s"
| "LogStream_put (LChar c) s = FixedBuffer_append [c] s"
| "LogStream_put (LCStr None) s = FixedBuffer_append ''(null)'' s"
| "LogStream_put (LCStr (Some t)) s = FixedBuffer_append t s"
| "LogStream_put (LString t) s = FixedBuffer_append t s"
| "LogStream_put (LBuffer fb) s = FixedBuffer_append (FixedBuffer_toString fb) s"
| "LogStream_put (LThreadId t) s = FixedBuffer_append (CHR '' '' # t @ '' '') s"

fun LogStream_puts :: "log_arg list \<Rightarrow> logstream \<Rightarrow> logstream res" where
  "LogStream_puts [] s = Inr s"
| "LogStream_puts (a # as) s = res_bind (LogStream_put a s) (LogStream_puts as)"

definition LogStream_resetBuffer :: "logstream \<Rightarrow> logstream" where
  "LogStream_resetBuffer s = FixedBuffer_reset s"


section \<open>Specification\<close>

definition LogStream_text :: "logstream \<Rightarrow> char list" where
  "LogStream_text s = FixedBuffer_toString s"

text \<open>The cursor stays strictly inside the array, whose size fits an \<^verbatim>\<open>int\<close>.\<close>

definition FixedBuffer_inv :: "fixed_buffer \<Rightarrow> bool" where
  "FixedBuffer_inv fb \<longleftrightarrow> fb_cur fb < length (fb_data fb) \<and> length (fb_data fb) < 2 ^ 31"

text \<open>Decimal and hexadecimal numerals, most significant digit first.\<close>

fun numeral_of :: "nat \<Rightarrow> char list \<Rightarrow> nat \<Rightarrow> char list" where
  "numeral_of base table n =
     (if n < base \<or> base < 2 then [table ! n]
      else numeral_of base table (n div base) @ [table ! (n mod base)])"

declare numeral_of.simps [simp del]

definition decimal :: "int \<Rightarrow> char list" where
  "decimal v = (if v < 0 then ''-'' else []) @ numeral_of 10 ''0123456789'' (nat \<bar>v\<bar>)"

definition digit_value :: "char \<Rightarrow> nat" where
  "digit_value c = of_char c - 48"

definition parse_decimal :: "char list \<Rightarrow> int" where
  "parse_decimal s =
     (let val = \<lambda>ds. foldl (\<lambda>n c. 10 * n + int (digit_value c)) 0 ds
      in case s of CHR ''-'' # ds \<Rightarrow> - val ds | ds \<Rightarrow> val ds)"

text \<open>The text of an argument, and the room the stream asks for before it writes any of it.\<close>

fun log_render :: "log_arg \<Rightarrow> char list" where
  "log_render (LBool v) = (if v then ''1'' else ''0'')"
| "log_render (LShort v) = decimal (sint v)"
| "log_render (LUShort v) = decimal (uint v)"
| "log_render (LInt v) = decimal (sint v)"
| "log_render (LUInt v) = decimal (uint v)"
| "log_render (LLong v) = decimal (sint v)"
| "log_render (LULong v) = decimal (uint v)"
| "log_render (LLongLong v) = decimal (sint v)"
| "log_render (LULongLong v) = decimal (uint v)"
| "log_render (LPointer p) = ''0x'' @ numeral_of 16 digitsHex (unat p)"
| "log_render (LDouble t) = t"
| "log_render (LChar c) = [c]"
| "log_render (LCStr t) = (case t of None \<Rightarrow> ''(null)'' | Some t \<Rightarrow> t)"
| "log_render (LString t) = t"
| "log_render (LBuffer fb) = FixedBuffer_toString fb"
| "log_render (LThreadId t) = CHR '' '' # t @ '' ''"

fun log_numeric :: "log_arg \<Rightarrow> bool" where
  "log_numeric (LBool _) = False"
| "log_numeric (LChar _) = False"
| "log_numeric (LCStr _) = False"
| "log_numeric (LString _) = False"
| "log_numeric (LBuffer _) = False"
| "log_numeric (LThreadId _) = False"
| "log_numeric _ = True"

definition log_fits :: "nat \<Rightarrow> log_arg \<Rightarrow> bool" where
  "log_fits room a = (if log_numeric a then 32 \<le> room else length (log_render a) < room)"

text \<open>The room \<^verbatim>\<open>"%.12g"\<close> can take: a sign, 13 characters of digits and point, an exponent.\<close>

fun log_arg_ok :: "log_arg \<Rightarrow> bool" where
  "log_arg_ok (LDouble t) = (length t \<le> 31)"
| "log_arg_ok _ = True"

fun log_texts :: "nat \<Rightarrow> log_arg list \<Rightarrow> char list" where
  "log_texts room [] = []"
| "log_texts room (a # as) =
     (if log_fits room a then log_render a @ log_texts (room - length (log_render a)) as
      else log_texts room as)"


section \<open>Numerals\<close>

lemma smod_10: "i smod 10 = sgn i * (\<bar>i\<bar> mod 10)" for i :: int
proof (cases "0 \<le> i")
  case True
  then show ?thesis
    by (cases "i = 0")
      (simp_all add: signed_modulo_int_def signed_divide_int_def sgn_if minus_div_mult_eq_mod)
next
  case False
  moreover have "i + 10 * (- i div 10) = - (- i mod 10)"
    using mult_div_mod_eq [of 10 "- i"] by linarith
  ultimately show ?thesis
    by (simp add: signed_modulo_int_def signed_divide_int_def sgn_if)
qed

lemma zero_at_abs:
  assumes "\<bar>k\<bar> \<le> 9"
  shows "zero_at k = ''0123456789'' ! nat \<bar>k\<bar>"
proof -
  have "k = -9 \<or> k = -8 \<or> k = -7 \<or> k = -6 \<or> k = -5 \<or> k = -4 \<or> k = -3 \<or> k = -2 \<or> k = -1 \<or>
        k = 0 \<or> k = 1 \<or> k = 2 \<or> k = 3 \<or> k = 4 \<or> k = 5 \<or> k = 6 \<or> k = 7 \<or> k = 8 \<or> k = 9"
    using assms by presburger
  then show ?thesis
    by (elim disjE) (simp_all add: zero_at_def digits_def numeral_eq_Suc)
qed

lemma convert_loop_numeral: "convert_loop i = rev (numeral_of 10 ''0123456789'' (nat \<bar>i\<bar>))"
proof (induction i rule: convert_loop.induct)
  case (1 i)
  have lsd: "zero_at (i smod 10) = ''0123456789'' ! (nat \<bar>i\<bar> mod 10)"
  proof -
    have "\<bar>i smod 10\<bar> = (if i = 0 then 0 else \<bar>i\<bar> mod 10)"
      by (simp add: smod_10 abs_mult sgn_if)
    then show ?thesis
      by (simp add: zero_at_abs nat_mod_distrib split: if_splits)
  qed
  have quot: "nat \<bar>i sdiv 10\<bar> = nat \<bar>i\<bar> div 10"
    by (simp add: signed_divide_int_def abs_mult sgn_if nat_div_distrib)
  then have zero: "i sdiv 10 = 0 \<longleftrightarrow> nat \<bar>i\<bar> < 10"
    by (metis abs_eq_0 div_eq_0_iff nat_0_iff abs_le_zero_iff zero_neq_numeral)
  show ?case
  proof (cases "i sdiv 10 = 0")
    case True
    with lsd zero show ?thesis
      by (simp add: convert_loop.simps [of i] numeral_of.simps [of 10 _ "nat \<bar>i\<bar>"] Let_def)
  next
    case False
    with lsd zero quot "1.IH" [OF refl refl False] show ?thesis
      by (simp add: convert_loop.simps [of i] numeral_of.simps [of 10 _ "nat \<bar>i\<bar>"] Let_def)
  qed
qed

lemma convert_decimal: "convert v = decimal v"
  by (simp add: convert_def decimal_def convert_loop_numeral)

lemma convertHex_loop_numeral: "convertHex_loop n = rev (numeral_of 16 digitsHex n)"
proof (induction n rule: convertHex_loop.induct)
  case (1 n)
  then show ?case
    by (simp add: convertHex_loop.simps [of n] numeral_of.simps [of 16 _ n] div_eq_0_iff)
qed

lemma convertHex_numeral: "convertHex v = numeral_of 16 digitsHex v"
  by (simp add: convertHex_def convertHex_loop_numeral)

lemma length_numeral_of:
  "n < base ^ k \<Longrightarrow> 0 < k \<Longrightarrow> length (numeral_of base table n) \<le> k"
proof (induction k arbitrary: n)
  case (Suc k)
  show ?case
  proof (cases "n < base \<or> base < 2")
    case True
    then show ?thesis by (simp add: numeral_of.simps [of base table n])
  next
    case False
    then have "n div base < base ^ k" "0 < k"
      using Suc.prems by (auto simp: less_mult_imp_div_less mult.commute intro: Nat.gr0I)
    with Suc.IH False show ?thesis by (simp add: numeral_of.simps [of base table n])
  qed
qed simp

lemma length_decimal:
  assumes "\<bar>v\<bar> < 2 ^ 64"
  shows "length (decimal v) \<le> 21"
proof -
  have "nat \<bar>v\<bar> < 10 ^ 20" using assms by simp
  from length_numeral_of [OF this, of "''0123456789''"] show ?thesis by (auto simp: decimal_def)
qed

lemma digit_value_table: "k < 10 \<Longrightarrow> digit_value (''0123456789'' ! k) = k"
  by (auto simp: digit_value_def less_Suc_eq numeral_eq_Suc)

lemma horner_numeral_of:
  "foldl (\<lambda>n c. 10 * n + int (digit_value c)) 0 (numeral_of 10 ''0123456789'' n) = int n"
proof (induction n rule: less_induct)
  case (less n)
  show ?case
  proof (cases "n < 10")
    case True
    then show ?thesis by (simp add: numeral_of.simps [of 10 _ n] digit_value_table)
  next
    case False
    then show ?thesis
      using less.IH [of "n div 10"]
      by (simp add: numeral_of.simps [of 10 _ n] digit_value_table zdiv_int zmod_int)
  qed
qed

lemma numeral_of_head: "\<exists>d ds. numeral_of 10 ''0123456789'' n = d # ds \<and> d \<noteq> CHR ''-''"
proof (induction n rule: less_induct)
  case (less n)
  have tab: "k < 10 \<Longrightarrow> ''0123456789'' ! k \<noteq> CHR ''-''" for k
    by (auto simp: less_Suc_eq numeral_eq_Suc)
  show ?case
  proof (cases "n < 10")
    case True
    then show ?thesis by (simp add: numeral_of.simps [of 10 _ n] tab)
  next
    case False
    then show ?thesis
      using less.IH [of "n div 10"] by (auto simp: numeral_of.simps [of 10 _ n])
  qed
qed

lemma parse_decimal_decimal: "parse_decimal (decimal v) = v"
  using numeral_of_head [of "nat \<bar>v\<bar>"] horner_numeral_of [of "nat \<bar>v\<bar>"]
  by (auto simp: parse_decimal_def decimal_def Let_def split: char.splits bool.splits)



section \<open>The stream\<close>

abbreviation fb_room :: "fixed_buffer \<Rightarrow> nat" where
  "fb_room fb \<equiv> length (fb_data fb) - fb_cur fb"

text \<open>What a successful write does: the text grows, the array keeps its size.\<close>

definition fb_grows :: "fixed_buffer \<Rightarrow> char list \<Rightarrow> fixed_buffer \<Rightarrow> bool" where
  "fb_grows s d s' \<longleftrightarrow>
     FixedBuffer_inv s' \<and> LogStream_text s' = LogStream_text s @ d \<and>
     length (fb_data s') = length (fb_data s) \<and> fb_cur s' = fb_cur s + length d"

lemma fb_grows_refl: "FixedBuffer_inv s \<Longrightarrow> fb_grows s [] s"
  by (simp add: fb_grows_def)

lemma fb_grows_trans: "fb_grows s d s1 \<Longrightarrow> fb_grows s1 e s2 \<Longrightarrow> fb_grows s (d @ e) s2"
  by (simp add: fb_grows_def)

lemma FixedBuffer_avail_room:
  "FixedBuffer_inv fb \<Longrightarrow> FixedBuffer_avail fb = int (fb_room fb)"
  by (simp add: FixedBuffer_inv_def FixedBuffer_avail_def)

lemma LogStream_text_take: "LogStream_text s = take (fb_cur s) (fb_data s)"
  by (simp add: LogStream_text_def FixedBuffer_toString_def FixedBuffer_length_def)

lemma take_overwrite_prefix:
  "n + length d \<le> length xs \<Longrightarrow> take (n + length d) (overwrite n (d @ e) xs) = take n xs @ d"
  by (simp add: overwrite_def)

lemma fb_store_add:
  assumes inv: "FixedBuffer_inv s" and room: "length d + length e \<le> fb_room s" "length d < fb_room s"
  shows "\<exists>s1. fb_store 0 (d @ e) s = Inr s1 \<and> fb_grows s d (FixedBuffer_add (length d) s1)"
  using assms take_overwrite_prefix [of "fb_cur s" d "fb_data s" e]
  by (auto simp: fb_store_def fb_grows_def FixedBuffer_inv_def FixedBuffer_add_def
      LogStream_text_take)

lemma FixedBuffer_append_spec:
  assumes "FixedBuffer_inv s"
  shows "\<exists>s'. FixedBuffer_append d s = Inr s' \<and>
              fb_grows s (if length d < fb_room s then d else []) s'"
proof -
  have "FixedBuffer_avail s mod 2 ^ 64 = int (fb_room s)"
    using assms by (simp add: FixedBuffer_avail_room) (simp add: FixedBuffer_inv_def)
  then show ?thesis
    using assms fb_store_add [OF assms, of d "[]"] fb_grows_refl [OF assms]
    by (auto simp: FixedBuffer_append_def)
qed

lemma formatInteger_spec:
  assumes inv: "FixedBuffer_inv s" and v: "\<bar>v\<bar> < 2 ^ 64"
  shows "\<exists>s'. LogStream_formatInteger v s = Inr s' \<and>
              fb_grows s (if 32 \<le> fb_room s then decimal v else []) s'"
proof (cases "32 \<le> fb_room s")
  case True
  then show ?thesis
    using length_decimal [OF v] fb_store_add [OF inv, of "decimal v" "[CHR 0x00]"] inv
    by (auto simp: LogStream_formatInteger_def convert_decimal FixedBuffer_avail_room
        kMaxNumericSize_def)
next
  case False
  then show ?thesis
    using inv by (simp add: LogStream_formatInteger_def FixedBuffer_avail_room
        kMaxNumericSize_def fb_grows_refl)
qed

lemma formatDouble_spec:
  assumes inv: "FixedBuffer_inv s" and t: "length t \<le> 31"
  shows "\<exists>s'. LogStream_formatDouble t s = Inr s' \<and>
              fb_grows s (if 32 \<le> fb_room s then t else []) s'"
  using fb_store_add [OF inv, of t "[CHR 0x00]"] inv t fb_grows_refl [OF inv]
  by (auto simp: LogStream_formatDouble_def FixedBuffer_avail_room kMaxNumericSize_def)

lemma formatPointer_spec:
  assumes inv: "FixedBuffer_inv s"
  shows "\<exists>s'. LogStream_formatPointer p s = Inr s' \<and>
              fb_grows s (if 32 \<le> fb_room s then ''0x'' @ numeral_of 16 digitsHex (unat p) else []) s'"
proof (cases "32 \<le> fb_room s")
  case True
  let ?h = "numeral_of 16 digitsHex (unat p)"
  have "unat p < 2 ^ 64" using unsigned_less [of p, where 'a = nat] by simp
  then have h: "length ?h \<le> 16"
    using length_numeral_of [of "unat p" 16 16] by simp
  have two: "fb_store 0 ''0x'' s =
      Inr (s\<lparr>fb_data := overwrite (fb_cur s) ''0x'' (fb_data s)\<rparr>)"
    using True by (simp add: fb_store_def)
  have join: "overwrite (n + 2) e (overwrite n ''0x'' xs) = overwrite n (''0x'' @ e) xs"
    if "n + 2 \<le> length xs" for n e and xs :: "char list"
    using that by (simp add: overwrite_def ac_simps)
  show ?thesis
    using True h fb_store_add [OF inv, of "''0x'' @ ?h" "[CHR 0x00]"] inv join [of "fb_cur s"]
    by (auto simp: LogStream_formatPointer_def FixedBuffer_avail_room kMaxNumericSize_def two
        convertHex_numeral fb_store_def)
next
  case False
  then show ?thesis
    using inv by (simp add: LogStream_formatPointer_def FixedBuffer_avail_room
        kMaxNumericSize_def fb_grows_refl)
qed

lemma word_range:
  "\<bar>sint (a :: 16 word)\<bar> < 2 ^ 64" "\<bar>uint (a :: 16 word)\<bar> < 2 ^ 64"
  "\<bar>sint (b :: 32 word)\<bar> < 2 ^ 64" "\<bar>uint (b :: 32 word)\<bar> < 2 ^ 64"
  "\<bar>sint (c :: 64 word)\<bar> < 2 ^ 64" "\<bar>uint (c :: 64 word)\<bar> < 2 ^ 64"
  using sint_range_size [of a] sint_range_size [of b] sint_range_size [of c]
    uint_bounded [of a] uint_bounded [of b] uint_bounded [of c]
  by (auto simp: word_size)

lemma LogStream_put_text:
  "\<not> log_numeric a \<Longrightarrow> LogStream_put a s = FixedBuffer_append (log_render a) s"
  by (cases a) (auto split: option.splits elim: LogStream_put.elims)

lemma LogStream_put_spec:
  assumes "FixedBuffer_inv s" and "log_arg_ok a"
  shows "\<exists>s'. LogStream_put a s = Inr s' \<and>
              fb_grows s (if log_fits (fb_room s) a then log_render a else []) s'"
proof (cases "log_numeric a")
  case False
  then show ?thesis
    using FixedBuffer_append_spec [OF assms(1), of "log_render a"]
    by (simp only: log_fits_def LogStream_put_text if_False not_False_eq_True)
next
  case True
  then show ?thesis
    using formatInteger_spec [OF assms(1) word_range(1)] formatInteger_spec [OF assms(1) word_range(2)]
      formatInteger_spec [OF assms(1) word_range(3)] formatInteger_spec [OF assms(1) word_range(4)]
      formatInteger_spec [OF assms(1) word_range(5)] formatInteger_spec [OF assms(1) word_range(6)]
      formatPointer_spec [OF assms(1)] formatDouble_spec [OF assms(1)] assms(2)
    by (cases a) (simp_all only: log_fits_def LogStream_put.simps log_render.simps log_numeric.simps
        log_arg_ok.simps if_True if_False)
qed

lemma LogStream_puts_spec:
  assumes "FixedBuffer_inv s" and "\<forall>a \<in> set as. log_arg_ok a"
  shows "\<exists>s'. LogStream_puts as s = Inr s' \<and> fb_grows s (log_texts (fb_room s) as) s'"
  using assms
proof (induction as arbitrary: s)
  case Nil
  then show ?case by (simp add: fb_grows_refl)
next
  case (Cons a as)
  let ?d = "if log_fits (fb_room s) a then log_render a else []"
  obtain s1 where s1: "LogStream_put a s = Inr s1" "fb_grows s ?d s1"
    using LogStream_put_spec [of s a] Cons.prems by auto
  then have room: "fb_room s1 = fb_room s - length ?d" and "FixedBuffer_inv s1"
    by (auto simp: fb_grows_def)
  then obtain s' where "LogStream_puts as s1 = Inr s'" "fb_grows s1 (log_texts (fb_room s1) as) s'"
    using Cons.IH [of s1] Cons.prems by auto
  with s1 room fb_grows_trans show ?case by fastforce
qed

text \<open>Everything fits when the room never falls below the 32 bytes a number asks for.\<close>

lemma log_texts_all:
  "sum_list (map (length \<circ> log_render) as) + 32 \<le> room \<Longrightarrow>
   log_texts room as = concat (map log_render as)"
proof (induction as arbitrary: room)
  case (Cons a as)
  then show ?case by (simp add: log_fits_def)
qed simp


section \<open>Properties\<close>

text \<open>
  C32. \<^verbatim>\<open>convert\<close> writes the decimal numeral of every integer, the most negative one of each width
  included: it agrees with the textbook definition, and reading the numeral back gives the
  number.
\<close>

theorem convert_correct: "convert v = decimal v \<and> parse_decimal (convert v) = v"
  by (simp add: convert_decimal parse_decimal_decimal)

text \<open>
  C31. Logging stays inside its array. Any sequence of insertions into a fresh \<^verbatim>\<open>LogStream\<close>
  succeeds without a write out of range, and the text is exactly the concatenation of the
  arguments that fit when their turn comes: an argument that does not fit is dropped whole.
\<close>

theorem logstream_safe_and_exact:
  assumes "length raw = kSmallBuffer" and "\<forall>a \<in> set as. log_arg_ok a"
  shows "\<exists>s. LogStream_puts as (FixedBuffer_new raw) = Inr s \<and>
             fb_cur s < length (fb_data s) \<and> length (fb_data s) = kSmallBuffer \<and>
             LogStream_text s = log_texts kSmallBuffer as"
proof -
  have "FixedBuffer_inv (FixedBuffer_new raw)"
    using assms(1) by (simp add: FixedBuffer_inv_def FixedBuffer_new_def kSmallBuffer_def)
  from LogStream_puts_spec [OF this assms(2)] assms(1) show ?thesis
    by (auto simp: fb_grows_def FixedBuffer_inv_def FixedBuffer_new_def LogStream_text_take)
qed

theorem logstream_safe_and_exact_witness:
  "\<exists>s. LogStream_puts [LString ''fd = '', LInt (-1)]
         (FixedBuffer_new (replicate 4000 (CHR 0x00))) = Inr s \<and> LogStream_text s = ''fd = -1''"
proof -
  have "log_texts kSmallBuffer [LString ''fd = '', LInt (-1)] = ''fd = -1''"
    by (simp add: log_fits_def kSmallBuffer_def decimal_def numeral_of.simps)
  with logstream_safe_and_exact
    [of "replicate 4000 (CHR 0x00)" "[LString ''fd = '', LInt (-1)]"]
  show ?thesis by (auto simp: kSmallBuffer_def)
qed

end
