(* ===== verification/Timestamp.thy ===== *)
theory Timestamp
  imports Log_Stream
begin

text \<open>
  The text of a time: \<^verbatim>\<open>clock::toString\<close> (\<^verbatim>\<open>twnl/Timestamp.h\<close>). A \<^verbatim>\<open>Timestamp\<close> is the number of nanoseconds since
  the epoch. \<^verbatim>\<open>localtime\<close>, which knows the time zone, is an argument: the broken-down time, or a null
  pointer when the year does not fit. The clock itself is in theory \<open>Os\<close>.
\<close>

record tm =
  tm_year :: int
  tm_mon :: int
  tm_mday :: int
  tm_hour :: int
  tm_min :: int
  tm_sec :: int

text \<open>\<^verbatim>\<open>system_clock::to_time_t\<close>: whole seconds, rounded towards zero.\<close>

definition to_time_t :: "int \<Rightarrow> int" where
  "to_time_t n = n sdiv 1000000000"

text \<open>The conversions of \<^verbatim>\<open>strftime\<close> that the code uses: \<^verbatim>\<open>%Y\<close>, and two digits for the others.\<close>

definition two_digits :: "int \<Rightarrow> char list" where
  "two_digits n = (if 0 \<le> n \<and> n < 10 then ''0'' else []) @ decimal n"

definition strftime_date :: "char list \<Rightarrow> tm \<Rightarrow> char list" where
  "strftime_date sep t =
     decimal (tm_year t + 1900) @ sep @ two_digits (tm_mon t + 1) @ sep @ two_digits (tm_mday t)"

definition strftime_time :: "tm \<Rightarrow> char list" where
  "strftime_time t = two_digits (tm_hour t) @ '':'' @ two_digits (tm_min t) @ '':'' @ two_digits (tm_sec t)"

text \<open>
  \<^verbatim>\<open>strftime\<close> into an array of \<open>maxsize\<close> bytes. A text that does not fit, with its final zero, leaves the
  array indeterminate.
\<close>

definition strftime_into :: "nat \<Rightarrow> char list \<Rightarrow> char list res" where
  "strftime_into maxsize text =
     (if length text < maxsize then Inr text else Inl (Undefined ''indeterminate array after strftime''))"

definition clock_toString :: "(int \<Rightarrow> tm option) \<Rightarrow> int \<Rightarrow> char list res" where
  "clock_toString localtime n =
     (case localtime (to_time_t n) of
        None \<Rightarrow> Inl (Undefined ''strftime of a null pointer'')
      | Some t \<Rightarrow> strftime_into 100 (strftime_date [] t @ '' '' @ strftime_time t))"


section \<open>Lemmas\<close>

text \<open>What \<^verbatim>\<open>localtime\<close> promises of the fields; a leap second is 60.\<close>

definition tm_ok :: "tm \<Rightarrow> bool" where
  "tm_ok t \<longleftrightarrow>
     0 \<le> tm_mon t \<and> tm_mon t \<le> 11 \<and> 1 \<le> tm_mday t \<and> tm_mday t \<le> 31 \<and> 0 \<le> tm_hour t \<and> tm_hour t \<le> 23 \<and>
     0 \<le> tm_min t \<and> tm_min t \<le> 59 \<and> 0 \<le> tm_sec t \<and> tm_sec t \<le> 60"

text \<open>The fields of a text by their positions.\<close>

definition field :: "nat \<Rightarrow> nat \<Rightarrow> char list \<Rightarrow> int" where
  "field from len s = parse_decimal (take len (drop from s))"

definition clock_parse :: "char list \<Rightarrow> tm" where
  "clock_parse s =
     \<lparr>tm_year = field 0 4 s - 1900, tm_mon = field 4 2 s - 1, tm_mday = field 6 2 s,
      tm_hour = field 9 2 s, tm_min = field 12 2 s, tm_sec = field 15 2 s\<rparr>"

lemma length_numeral_exact: "10 ^ k \<le> n \<Longrightarrow> n < 10 ^ Suc k \<Longrightarrow> length (numeral_of 10 tab n) = Suc k"
proof (induction k arbitrary: n)
  case 0
  then show ?case
    by (simp add: numeral_of.simps[of 10 _ n])
next
  case (Suc k)
  have "10 * 1 \<le> (10 :: nat) * 10 ^ k"
    by (rule mult_le_mono2) simp
  then have "\<not> n < 10"
    using Suc.prems(1) unfolding power_Suc by linarith
  moreover have "10 ^ k \<le> n div 10" "n div 10 < 10 ^ Suc k"
    using Suc.prems by (simp_all add: less_eq_div_iff_mult_less_eq less_mult_imp_div_less mult.commute)
  ultimately show ?case
    using Suc.IH by (simp add: numeral_of.simps[of 10 _ n])
qed

lemma length_year: "1000 \<le> y \<Longrightarrow> y \<le> 9999 \<Longrightarrow> length (decimal y) = 4"
  using length_numeral_exact[of 3 "nat y" "''0123456789''"] by (simp add: decimal_def nat_le_iff le_nat_iff)

lemma length_two_digits: "0 \<le> n \<Longrightarrow> n < 100 \<Longrightarrow> length (two_digits n) = 2"
  using length_numeral_exact[of 1 "nat n" "''0123456789''"]
  by (auto simp: two_digits_def decimal_def numeral_of.simps[of 10 _ "nat n"] le_nat_iff nat_less_iff)

lemma parse_two_digits: "0 \<le> n \<Longrightarrow> parse_decimal (two_digits n) = n"
proof -
  assume "0 \<le> n"
  then have "parse_decimal (''0'' @ decimal n) = n"
    using horner_numeral_of[of "nat n"] by (simp add: parse_decimal_def decimal_def digit_value_def)
  then show ?thesis
    by (auto simp: two_digits_def parse_decimal_decimal)
qed

theorem clock_text_roundtrip:
  assumes "localtime (to_time_t n) = Some t" and "tm_ok t" and "1000 \<le> tm_year t + 1900" and "tm_year t + 1900 \<le> 9999"
  shows "\<exists>s. clock_toString localtime n = Inr s \<and> length s = 17 \<and> clock_parse s = t"
proof -
  note [simp] = length_year[OF assms(3,4)] length_two_digits parse_two_digits parse_decimal_decimal
  let ?s = "strftime_date [] t @ '' '' @ strftime_time t"
  have ok: "0 \<le> tm_mon t + 1" "tm_mon t + 1 < 100" "0 \<le> tm_mday t" "tm_mday t < 100" "0 \<le> tm_hour t" "tm_hour t < 100"
      "0 \<le> tm_min t" "tm_min t < 100" "0 \<le> tm_sec t" "tm_sec t < 100"
    using assms(2) by (simp_all add: tm_ok_def)
  have len: "length ?s = 17"
    using ok by (simp add: strftime_date_def strftime_time_def)
  moreover have "clock_parse ?s = t"
    using ok by (simp add: clock_parse_def field_def strftime_date_def strftime_time_def)
  ultimately show ?thesis
    using assms(1) by (simp add: clock_toString_def strftime_into_def)
qed

theorem clock_text_roundtrip_witness:
  "clock_toString (\<lambda>s. Some \<lparr>tm_year = 121, tm_mon = 7, tm_mday = 2, tm_hour = 9, tm_min = 5, tm_sec = 60\<rparr>) (-1)
     = Inr ''20210802 09:05:60'' \<and>
   clock_parse ''20210802 09:05:60'' = \<lparr>tm_year = 121, tm_mon = 7, tm_mday = 2, tm_hour = 9, tm_min = 5, tm_sec = 60\<rparr>"
proof -
  let ?t = "\<lparr>tm_year = 121, tm_mon = 7, tm_mday = 2, tm_hour = 9, tm_min = 5, tm_sec = 60\<rparr>"
  obtain s where "clock_toString (\<lambda>s. Some ?t) (-1) = Inr s" "clock_parse s = ?t"
    using clock_text_roundtrip[of "\<lambda>s. Some ?t" "-1" ?t] by (auto simp: tm_ok_def)
  moreover have "clock_toString (\<lambda>s. Some ?t) (-1) = Inr ''20210802 09:05:60''"
    by (simp add: clock_toString_def strftime_into_def strftime_date_def strftime_time_def two_digits_def
        decimal_def numeral_of.simps)
  ultimately show ?thesis
    by simp
qed

end
