(* ===== verification/Logging.thy ===== *)
theory Logging
  imports Timestamp
begin

text \<open>
  \<^verbatim>\<open>Logger\<close> (\<^verbatim>\<open>twnl/Log/Logging.h\<close>, \<^verbatim>\<open>twnl/Log/Logging.cc\<close>): levels, the threshold tests of the
  \<^verbatim>\<open>LOG_\<close> macros, the text of a log line and the abort at the end of a fatal one. What the
  standard library supplies (the time, the thread's name, \<^verbatim>\<open>strerror_r\<close>, the uninitialised
  array) is the record \<open>log_env\<close>.
\<close>

datatype log_level = TRACE | DEBUG | INFO | WARN | ERROR | FATAL | NONE

fun level_number :: "log_level \<Rightarrow> nat" where
  "level_number TRACE = 0"
| "level_number DEBUG = 1"
| "level_number INFO = 2"
| "level_number WARN = 3"
| "level_number ERROR = 4"
| "level_number FATAL = 5"
| "level_number NONE = 6"

lemma level_number_inject [simp]: "level_number a = level_number b \<longleftrightarrow> a = b"
  by (cases a; cases b) simp_all

instantiation log_level :: linorder
begin

definition less_eq_log_level :: "log_level \<Rightarrow> log_level \<Rightarrow> bool" where
  "less_eq_log_level a b \<longleftrightarrow> level_number a \<le> level_number b"

definition less_log_level :: "log_level \<Rightarrow> log_level \<Rightarrow> bool" where
  "less_log_level a b \<longleftrightarrow> level_number a < level_number b"

instance
  by standard (auto simp: less_eq_log_level_def less_log_level_def)

end

definition initLogLevel :: "bool \<Rightarrow> bool \<Rightarrow> log_level" where
  "initLogLevel env_LOG_TRACE env_LOG_DEBUG =
     (if env_LOG_TRACE then TRACE else if env_LOG_DEBUG then DEBUG else INFO)"

definition Logger_setLogLevel :: "int \<Rightarrow> log_level" where
  "Logger_setLogLevel level =
     (if level = 1 then TRACE else if level = 2 then DEBUG else if level = 3 then INFO
      else if level = 4 then WARN else if level = 5 then NONE else INFO)"

fun LogLevelName :: "log_level \<Rightarrow> char list res" where
  "LogLevelName TRACE = Inr ''TRACE ''"
| "LogLevelName DEBUG = Inr ''DEBUG ''"
| "LogLevelName INFO = Inr ''INFO  ''"
| "LogLevelName WARN = Inr ''WARN  ''"
| "LogLevelName ERROR = Inr ''ERROR ''"
| "LogLevelName FATAL = Inr ''FATAL ''"
| "LogLevelName NONE = Inl (Undefined ''LogLevelName[NONE]'')"


section \<open>SourceFile\<close>

record source_file =
  sf_data :: "char list"
  sf_size :: int

fun strrchr :: "char \<Rightarrow> char list \<Rightarrow> nat option" where
  "strrchr c [] = None"
| "strrchr c (x # xs) =
     (case strrchr c xs of
        Some i \<Rightarrow> Some (Suc i)
      | None \<Rightarrow> if x = c then Some 0 else None)"

text \<open>
  The constructor from a character array of \<open>N\<close> elements, which hold the text and its
  terminator, and the one from a pointer, which measures what is left.
\<close>

definition SourceFile_array :: "char list \<Rightarrow> source_file" where
  "SourceFile_array arr =
     (let N = int (length arr) + 1; size = N - 1 in
      case strrchr (CHR ''/'') arr of
        None \<Rightarrow> \<lparr>sf_data = arr, sf_size = size\<rparr>
      | Some slash \<Rightarrow> \<lparr>sf_data = drop (slash + 1) arr, sf_size = size - int (slash + 1)\<rparr>)"

definition SourceFile_pointer :: "char list \<Rightarrow> source_file" where
  "SourceFile_pointer filename =
     (let data = (case strrchr (CHR ''/'') filename of
                    None \<Rightarrow> filename
                  | Some slash \<Rightarrow> drop (slash + 1) filename)
      in \<lparr>sf_data = data, sf_size = int (length data)\<rparr>)"


section \<open>Logger\<close>

record log_env =
  le_raw :: "char list"
  le_time :: "char list"
  le_thread :: "char list"
  le_strerror :: "int \<Rightarrow> char list"

record logger =
  lg_stream :: logstream
  lg_level :: log_level
  lg_line :: "32 word"
  lg_basename :: source_file

definition Logger_insert :: "log_arg list \<Rightarrow> logger \<Rightarrow> logger res" where
  "Logger_insert as lg =
     res_bind (LogStream_puts as (lg_stream lg)) (\<lambda>s. Inr (lg\<lparr>lg_stream := s\<rparr>))"

text \<open>\<^verbatim>\<open>T(str, len)\<close> asserts the length it is given and is inserted with \<^verbatim>\<open>append\<close>.\<close>

definition Logger_T :: "char list \<Rightarrow> nat \<Rightarrow> log_arg res" where
  "Logger_T str len = res_bind (cassert (length str = len) ''strlen(str) == len_'')
     (\<lambda>_. Inr (LString (take len str)))"

definition Logger_Impl_new ::
    "log_env \<Rightarrow> log_level \<Rightarrow> int \<Rightarrow> source_file \<Rightarrow> 32 word \<Rightarrow> logger res" where
  "Logger_Impl_new env level savedErrno file line =
     res_bind (LogLevelName level) (\<lambda>name.
     res_bind (Logger_T name 6) (\<lambda>t.
     res_bind (Logger_insert [LString (le_time env), LThreadId (le_thread env), t]
        \<lparr>lg_stream = FixedBuffer_new (le_raw env), lg_level = level, lg_line = line,
         lg_basename = file\<rparr>) (\<lambda>lg.
       if savedErrno \<noteq> 0
       then Logger_insert [LCStr (Some (le_strerror env savedErrno)), LCStr (Some '' (errno=''),
              LInt (word_of_int savedErrno), LCStr (Some '') '')] lg
       else Inr lg)))"

text \<open>\<^verbatim>\<open>formatTime\<close>, which nothing calls, at the second \<open>tv_sec\<close> that \<^verbatim>\<open>gettimeofday\<close> gives: into 26 bytes.\<close>

definition Logger_Impl_formatTime :: "(int \<Rightarrow> tm option) \<Rightarrow> int \<Rightarrow> logger \<Rightarrow> logger res" where
  "Logger_Impl_formatTime localtime tv_sec lg =
     (case localtime tv_sec of
        None \<Rightarrow> Inl (Undefined ''strftime of a null pointer'')
      | Some t \<Rightarrow>
          res_bind (strftime_into 26 (strftime_date ''-'' t @ '' '' @ strftime_time t @ '' '')) (\<lambda>str_t.
            Logger_insert [LCStr (Some str_t)] lg))"

definition Logger_Impl_finish :: "logger \<Rightarrow> logger res" where
  "Logger_Impl_finish lg =
     Logger_insert [LCStr (Some '' - ''),
       LString (take (nat (sf_size (lg_basename lg))) (sf_data (lg_basename lg))),
       LChar (CHR '':''), LInt (lg_line lg), LChar (CHR 0x0A)] lg"

text \<open>The three constructors: \<^verbatim>\<open>(file, line)\<close>, \<^verbatim>\<open>(file, line, level, func)\<close>, \<^verbatim>\<open>(file, line, level)\<close>.\<close>

definition Logger_new :: "log_env \<Rightarrow> source_file \<Rightarrow> 32 word \<Rightarrow> logger res" where
  "Logger_new env file line = Logger_Impl_new env INFO 0 file line"

definition Logger_new_func ::
    "log_env \<Rightarrow> source_file \<Rightarrow> 32 word \<Rightarrow> log_level \<Rightarrow> char list \<Rightarrow> logger res" where
  "Logger_new_func env file line level func =
     res_bind (Logger_Impl_new env level 0 file line) (\<lambda>lg.
       Logger_insert [LCStr (Some func), LChar (CHR '' '')] lg)"

definition Logger_new_level ::
    "log_env \<Rightarrow> int \<Rightarrow> source_file \<Rightarrow> 32 word \<Rightarrow> log_level \<Rightarrow> logger res" where
  "Logger_new_level env errno file line level = Logger_Impl_new env level errno file line"

text \<open>
  What a log statement does: nothing, print a line, or print a line and \<^verbatim>\<open>abort()\<close>.
\<close>

datatype log_outcome = Silent | Logged "char list" | LoggedAbort "char list"

definition Logger_dtor :: "logger \<Rightarrow> log_outcome res" where
  "Logger_dtor lg =
     res_bind (Logger_Impl_finish lg) (\<lambda>lg'.
       let text = FixedBuffer_toString (lg_stream lg')
       in Inr (if lg_level lg' = FATAL then LoggedAbort text else Logged text))"

text \<open>
  \<^verbatim>\<open>g_output\<close> and \<^verbatim>\<open>g_flush\<close>, the functions a line is given to, are names; 0 is \<^verbatim>\<open>defaultOutput\<close> and \<^verbatim>\<open>defaultFlush\<close>.
  \<open>Logger_emit\<close> is the calls the destructor makes for an outcome.
\<close>

record log_sinks =
  g_output :: nat
  g_flush :: nat

definition default_sinks :: log_sinks where
  "default_sinks = \<lparr>g_output = 0, g_flush = 0\<rparr>"

definition Logger_setOutput :: "nat \<Rightarrow> log_sinks \<Rightarrow> log_sinks" where
  "Logger_setOutput out gs = gs\<lparr>g_output := out\<rparr>"

definition Logger_setFlush :: "nat \<Rightarrow> log_sinks \<Rightarrow> log_sinks" where
  "Logger_setFlush flush gs = gs\<lparr>g_flush := flush\<rparr>"

datatype log_call = CallOutput nat "char list" | CallFlush nat | CallAbort

fun Logger_emit :: "log_sinks \<Rightarrow> log_outcome \<Rightarrow> log_call list" where
  "Logger_emit gs Silent = []"
| "Logger_emit gs (Logged text) = [CallOutput (g_output gs) text]"
| "Logger_emit gs (LoggedAbort text) = [CallOutput (g_output gs) text, CallFlush (g_flush gs), CallAbort]"

text \<open>
  The macros: \<^verbatim>\<open>LOG_WARN\<close>, \<^verbatim>\<open>LOG_ERROR\<close> and \<^verbatim>\<open>LOG_FATAL\<close> all test the threshold against \<^verbatim>\<open>WARN\<close>.
  A statement is one of the six macros at a place in the sources, with what is inserted.
\<close>

datatype log_macro = LOG_TRACE | LOG_DEBUG | LOG_INFO | LOG_WARN | LOG_ERROR | LOG_FATAL

fun LOG_enabled :: "log_level \<Rightarrow> log_macro \<Rightarrow> bool" where
  "LOG_enabled g LOG_TRACE = (g \<le> TRACE)"
| "LOG_enabled g LOG_DEBUG = (g \<le> DEBUG)"
| "LOG_enabled g LOG_INFO = (g \<le> INFO)"
| "LOG_enabled g LOG_WARN = (g \<le> WARN)"
| "LOG_enabled g LOG_ERROR = (g \<le> WARN)"
| "LOG_enabled g LOG_FATAL = (g \<le> WARN)"

fun LOG_logger ::
    "log_env \<Rightarrow> int \<Rightarrow> char list \<Rightarrow> 32 word \<Rightarrow> char list \<Rightarrow> log_macro \<Rightarrow> logger res" where
  "LOG_logger env errno file line func LOG_TRACE =
     Logger_new_func env (SourceFile_array file) line TRACE func"
| "LOG_logger env errno file line func LOG_DEBUG =
     Logger_new_func env (SourceFile_array file) line DEBUG func"
| "LOG_logger env errno file line func LOG_INFO = Logger_new env (SourceFile_array file) line"
| "LOG_logger env errno file line func LOG_WARN =
     Logger_new_level env errno (SourceFile_array file) line WARN"
| "LOG_logger env errno file line func LOG_ERROR =
     Logger_new_level env errno (SourceFile_array file) line ERROR"
| "LOG_logger env errno file line func LOG_FATAL =
     Logger_new_level env errno (SourceFile_array file) line FATAL"

definition LOG_statement ::
    "log_env \<Rightarrow> log_level \<Rightarrow> int \<Rightarrow> char list \<Rightarrow> 32 word \<Rightarrow> char list \<Rightarrow> log_macro \<Rightarrow>
     log_arg list \<Rightarrow> log_outcome res" where
  "LOG_statement env g errno file line func m as =
     (if LOG_enabled g m
      then res_bind (LOG_logger env errno file line func m) (\<lambda>lg.
           res_bind (Logger_insert as lg) Logger_dtor)
      else Inr Silent)"


section \<open>Specification\<close>

definition env_ok :: "log_env \<Rightarrow> bool" where
  "env_ok env \<longleftrightarrow> length (le_raw env) = kSmallBuffer"

text \<open>The arguments a statement inserts, from the first to the last.\<close>

definition prefix_args :: "log_env \<Rightarrow> char list \<Rightarrow> int \<Rightarrow> log_arg list" where
  "prefix_args env name errno =
     [LString (le_time env), LThreadId (le_thread env), LString name] @
     (if errno \<noteq> 0
      then [LCStr (Some (le_strerror env errno)), LCStr (Some '' (errno=''),
            LInt (word_of_int errno), LCStr (Some '') '')]
      else [])"

definition suffix_args :: "char list \<Rightarrow> 32 word \<Rightarrow> log_arg list" where
  "suffix_args file line =
     [LCStr (Some '' - ''), LString file, LChar (CHR '':''), LInt line, LChar (CHR 0x0A)]"

fun head_args :: "log_env \<Rightarrow> int \<Rightarrow> char list \<Rightarrow> log_macro \<Rightarrow> log_arg list" where
  "head_args env errno func LOG_TRACE =
     prefix_args env ''TRACE '' 0 @ [LCStr (Some func), LChar (CHR '' '')]"
| "head_args env errno func LOG_DEBUG =
     prefix_args env ''DEBUG '' 0 @ [LCStr (Some func), LChar (CHR '' '')]"
| "head_args env errno func LOG_INFO = prefix_args env ''INFO  '' 0"
| "head_args env errno func LOG_WARN = prefix_args env ''WARN  '' errno"
| "head_args env errno func LOG_ERROR = prefix_args env ''ERROR '' errno"
| "head_args env errno func LOG_FATAL = prefix_args env ''FATAL '' errno"

text \<open>The last component of a path: what follows the last slash.\<close>

definition basename :: "char list \<Rightarrow> char list" where
  "basename path = rev (takeWhile (\<lambda>c. c \<noteq> CHR ''/'') (rev path))"


section \<open>Lemmas\<close>

lemma strrchr_None: "strrchr c xs = None \<longleftrightarrow> c \<notin> set xs"
  by (induction xs) (auto split: option.splits)

lemma strrchr_Some: "strrchr c xs = Some i \<Longrightarrow> i < length xs \<and> xs ! i = c \<and> c \<notin> set (drop (Suc i) xs)"
proof (induction xs arbitrary: i)
  case (Cons x xs)
  show ?case
  proof (cases "strrchr c xs")
    case None
    with Cons.prems strrchr_None [of c xs] show ?thesis by (auto split: if_splits)
  next
    case (Some j)
    with Cons.IH [of j] Cons.prems show ?thesis by auto
  qed
qed simp

lemma basename_strrchr:
  "basename path = (case strrchr (CHR ''/'') path of None \<Rightarrow> path | Some i \<Rightarrow> drop (Suc i) path)"
proof (cases "strrchr (CHR ''/'') path")
  case None
  then have tw: "takeWhile (\<lambda>c. c \<noteq> CHR ''/'') (rev path) = rev path"
    by (auto simp: strrchr_None takeWhile_eq_all_conv)
  show ?thesis by (simp only: basename_def tw rev_rev_ident None option.case)
next
  case (Some i)
  note s = strrchr_Some [OF Some]
  then have "rev path = rev (drop (Suc i) path) @ CHR ''/'' # rev (take i path)"
    using id_take_nth_drop [of i path] by (metis append.assoc append_Cons append_Nil rev.simps(2) rev_append)
  then have "takeWhile (\<lambda>c. c \<noteq> CHR ''/'') (rev path) = rev (drop (Suc i) path)"
    using s takeWhile_append2 [of "rev (drop (Suc i) path)" "\<lambda>c. c \<noteq> CHR ''/''" "CHR ''/'' # rev (take i path)"]
    by auto
  with Some show ?thesis by (simp add: basename_def)
qed

lemma SourceFile_basename:
  "SourceFile_array path = \<lparr>sf_data = basename path, sf_size = int (length (basename path))\<rparr>"
  "SourceFile_pointer path = \<lparr>sf_data = basename path, sf_size = int (length (basename path))\<rparr>"
  using strrchr_Some [of "CHR ''/''" path]
  by (auto simp: SourceFile_array_def SourceFile_pointer_def basename_strrchr Let_def
      split: option.splits)

lemma LogStream_puts_append:
  "LogStream_puts (as @ bs) s = res_bind (LogStream_puts as s) (LogStream_puts bs)"
proof (induction as arbitrary: s)
  case (Cons a as)
  then show ?case by (cases "LogStream_put a s") simp_all
qed simp

lemma Logger_insert_append:
  "Logger_insert (as @ bs) lg = res_bind (Logger_insert as lg) (Logger_insert bs)"
  by (cases "LogStream_puts as (lg_stream lg)")
    (simp_all add: Logger_insert_def LogStream_puts_append)

definition macro_level :: "log_macro \<Rightarrow> log_level" where
  "macro_level m = (case m of LOG_TRACE \<Rightarrow> TRACE | LOG_DEBUG \<Rightarrow> DEBUG | LOG_INFO \<Rightarrow> INFO
     | LOG_WARN \<Rightarrow> WARN | LOG_ERROR \<Rightarrow> ERROR | LOG_FATAL \<Rightarrow> FATAL)"

definition blank_logger :: "log_env \<Rightarrow> char list \<Rightarrow> 32 word \<Rightarrow> log_macro \<Rightarrow> logger" where
  "blank_logger env file line m =
     \<lparr>lg_stream = FixedBuffer_new (le_raw env), lg_level = macro_level m, lg_line = line,
      lg_basename = SourceFile_array file\<rparr>"

lemma Logger_Impl_new_args:
  assumes "LogLevelName level = Inr name" and "length name = 6"
  shows "Logger_Impl_new env level errno file line =
    Logger_insert (prefix_args env name errno)
      \<lparr>lg_stream = FixedBuffer_new (le_raw env), lg_level = level, lg_line = line,
       lg_basename = file\<rparr>"
proof (cases "errno = 0")
  case True
  with assms show ?thesis by (simp add: Logger_Impl_new_def Logger_T_def prefix_args_def)
next
  case False
  with assms Logger_insert_append
    [of "[LString (le_time env), LThreadId (le_thread env), LString name]"
        "[LCStr (Some (le_strerror env errno)), LCStr (Some '' (errno=''),
          LInt (word_of_int errno), LCStr (Some '') '')]"
        "\<lparr>lg_stream = FixedBuffer_new (le_raw env), lg_level = level, lg_line = line,
          lg_basename = file\<rparr>"]
  show ?thesis by (simp add: Logger_Impl_new_def Logger_T_def prefix_args_def)
qed

lemma LOG_logger_args:
  "LOG_logger env errno file line func m
   = Logger_insert (head_args env errno func m) (blank_logger env file line m)"
  by (cases m)
    (simp_all add: Logger_new_def Logger_new_func_def Logger_new_level_def blank_logger_def
      macro_level_def Logger_Impl_new_args Logger_insert_append)

lemma Logger_insert_fields:
  "Logger_insert as lg = Inr lg' \<Longrightarrow>
   lg_level lg' = lg_level lg \<and> lg_line lg' = lg_line lg \<and> lg_basename lg' = lg_basename lg"
  by (auto simp: Logger_insert_def res_simps)

text \<open>A statement inserts all its parts into one stream, then ends according to its level.\<close>

lemma LOG_statement_args:
  assumes "LOG_enabled g m"
  shows "LOG_statement env g errno file line func m as =
    res_bind (Logger_insert (head_args env errno func m @ as @ suffix_args (basename file) line)
               (blank_logger env file line m)) (\<lambda>lg.
      let text = LogStream_text (lg_stream lg)
      in Inr (if m = LOG_FATAL then LoggedAbort text else Logged text))"
proof -
  let ?lg0 = "blank_logger env file line m"
  have fatal: "macro_level m = FATAL \<longleftrightarrow> m = LOG_FATAL"
    by (cases m) (simp_all add: macro_level_def)
  have finish: "Logger_Impl_finish lg = Logger_insert (suffix_args (basename file) line) lg"
    if "Logger_insert bs ?lg0 = Inr lg" for bs lg
    using Logger_insert_fields [OF that]
    by (simp add: Logger_Impl_finish_def suffix_args_def blank_logger_def SourceFile_basename)
  have whole: "Logger_insert (head_args env errno func m @ as @ suffix_args (basename file) line) ?lg0
      = res_bind (Logger_insert (head_args env errno func m @ as) ?lg0)
          (Logger_insert (suffix_args (basename file) line))"
    by (metis append.assoc Logger_insert_append)
  have start: "LOG_statement env g errno file line func m as
      = res_bind (Logger_insert (head_args env errno func m @ as) ?lg0) Logger_dtor"
    using assms
    by (simp add: LOG_statement_def LOG_logger_args Logger_insert_append flip: res_bind_assoc)
  show ?thesis
  proof (cases "Logger_insert (head_args env errno func m @ as) ?lg0")
    case (Inl e)
    then show ?thesis by (simp only: whole start res_bind.simps)
  next
    case (Inr lg)
    show ?thesis
    proof (cases "Logger_insert (suffix_args (basename file) line) lg")
      case (Inr lg')
      with Logger_insert_fields [OF \<open>Logger_insert _ ?lg0 = Inr lg\<close>] fatal finish
      have "lg_level lg' = FATAL \<longleftrightarrow> m = LOG_FATAL"
        by (auto dest: Logger_insert_fields simp: blank_logger_def)
      with Inr \<open>Logger_insert _ ?lg0 = Inr lg\<close> finish show ?thesis
        by (simp add: whole start Logger_dtor_def LogStream_text_def)
    qed (use Inr finish in \<open>simp add: whole start Logger_dtor_def\<close>)
  qed
qed



section \<open>Properties\<close>

text \<open>
  C36. A log line. An enabled statement gives its output function, in this order and in one piece, the time, the
  thread, the level, the error text when \<^verbatim>\<open>errno\<close> is set, what the statement inserts, and the
  last component of the file name with the line; it flushes and ends in \<^verbatim>\<open>abort()\<close> exactly when it is
  \<^verbatim>\<open>LOG_FATAL\<close>. Parts that do not fit the 4000 bytes are left out whole.
\<close>

theorem log_line:
  assumes "env_ok env" and "\<forall>a \<in> set as. log_arg_ok a" and "LOG_enabled g m"
  shows "res_bind (LOG_statement env g errno file line func m as) (\<lambda>out. Inr (Logger_emit gs out)) =
    (let text = log_texts kSmallBuffer
                  (head_args env errno func m @ as @ suffix_args (basename file) line)
     in Inr (CallOutput (g_output gs) text # (if m = LOG_FATAL then [CallFlush (g_flush gs), CallAbort] else [])))"
proof -
  let ?all = "head_args env errno func m @ as @ suffix_args (basename file) line"
  have "\<forall>a \<in> set ?all. log_arg_ok a"
    using assms(2) by (cases m) (auto simp: prefix_args_def suffix_args_def)
  moreover have "FixedBuffer_inv (FixedBuffer_new (le_raw env))"
    and room: "fb_room (FixedBuffer_new (le_raw env)) = kSmallBuffer"
    using assms(1)
    by (simp_all add: env_ok_def FixedBuffer_inv_def FixedBuffer_new_def kSmallBuffer_def)
  ultimately obtain s where "LogStream_puts ?all (FixedBuffer_new (le_raw env)) = Inr s"
    "LogStream_text s = log_texts kSmallBuffer ?all"
    using LogStream_puts_spec room
    by (fastforce simp: fb_grows_def LogStream_text_take FixedBuffer_new_def)
  then have "\<exists>lg. Logger_insert ?all (blank_logger env file line m) = Inr lg \<and>
      LogStream_text (lg_stream lg) = log_texts kSmallBuffer ?all"
    by (simp add: Logger_insert_def blank_logger_def)
  then show ?thesis
    by (auto simp: LOG_statement_args [OF assms(3)] Let_def)
qed

theorem log_line_witness:
  "res_bind (LOG_statement \<lparr>le_raw = replicate 4000 (CHR 0x00), le_time = ''20210901 12:00:00'',
      le_thread = ''7'', le_strerror = (\<lambda>_. ''Success'')\<rparr> INFO 0 ''twnl/Poller.cc'' 12 ''f''
      LOG_WARN [LString ''slow'']) (\<lambda>out. Inr (Logger_emit default_sinks out))
   = Inr [CallOutput 0 (''20210901 12:00:00 7 WARN  slow - Poller.cc:12'' @ [CHR 0x0A])]"
  by (subst log_line)
    (simp_all add: env_ok_def kSmallBuffer_def less_eq_log_level_def prefix_args_def
      suffix_args_def basename_def log_fits_def decimal_def numeral_of.simps default_sinks_def)

text \<open>
  The thresholds. After \<^verbatim>\<open>setLogLevel(n)\<close> a \<^verbatim>\<open>LOG_FATAL\<close> statement does nothing (it neither
  prints nor aborts) exactly when \<open>n = 5\<close>; for every other argument it is enabled.
\<close>

theorem log_fatal_threshold:
  "LOG_statement env (Logger_setLogLevel n) errno file line func LOG_FATAL as = Inr Silent
   \<longleftrightarrow> n = 5"
proof (cases "n = 5")
  case True
  then show ?thesis
    by (simp add: LOG_statement_def Logger_setLogLevel_def less_eq_log_level_def)
next
  case False
  then have "LOG_enabled (Logger_setLogLevel n) LOG_FATAL"
    by (simp add: Logger_setLogLevel_def less_eq_log_level_def)
  from LOG_statement_args [OF this] False show ?thesis
    by (auto simp: res_simps Let_def)
qed

text \<open>
  Both constructors of \<^verbatim>\<open>SourceFile\<close> give the same name and size: the part of the path after
  its last slash, which holds no slash.
\<close>

theorem source_file_basename:
  "SourceFile_array path = SourceFile_pointer path \<and>
   (\<exists>dir. path = dir @ sf_data (SourceFile_array path)) \<and>
   CHR ''/'' \<notin> set (sf_data (SourceFile_array path)) \<and>
   sf_size (SourceFile_array path) = int (length (sf_data (SourceFile_array path)))"
proof -
  have "\<exists>dir. path = dir @ basename path"
    unfolding basename_def
    by (metis append.right_neutral rev_append rev_rev_ident takeWhile_dropWhile_id)
  moreover have "CHR ''/'' \<notin> set (basename path)"
    by (auto simp: basename_def dest: set_takeWhileD)
  ultimately show ?thesis by (simp add: SourceFile_basename)
qed

end
