(* ===== verification/Callbacks.thy ===== *)
theory Callbacks
  imports Prelude
begin

text \<open>
  The callables the library stores (\<^verbatim>\<open>twnl/Callbacks.h\<close>, the \<^verbatim>\<open>std::bind\<close> expressions and lambdas of
  the sources), by name. Objects on the heap (loops, channels, timers, connections) are
  numbers; a constructor names the member function bound and the object it is bound to. What a
  callable does when it is run is given where the component that defines it is modelled.
\<close>

type_synonym ptr = nat

text \<open>What a \<^verbatim>\<open>Channel\<close> calls when its descriptor is ready.\<close>

datatype channel_cb =
    CbTimerQueueRead ptr
  | CbWakeupRead ptr
  | CbAcceptorRead ptr
  | CbConnRead ptr
  | CbConnWrite ptr
  | CbConnClose ptr
  | CbConnError ptr
  | CbConnectorWrite ptr
  | CbConnectorError ptr

text \<open>What a \<^verbatim>\<open>Timer\<close> runs: the application's function, or \<^verbatim>\<open>Connector::startInLoop\<close>.\<close>

datatype timer_cb = TmUser nat | TmConnectorStart ptr

text \<open>What \<^verbatim>\<open>runInLoop\<close> and \<^verbatim>\<open>queueInLoop\<close> are given.\<close>

datatype loop_functor =
    FAddTimer ptr int ptr
  | FCancelTimer ptr ptr
  | FConnShutdown ptr
  | FConnForceClose ptr
  | FConnStartRead ptr
  | FConnStopRead ptr
  | FConnSend ptr "char list"
  | FConnWriteComplete nat ptr
  | FConnHighWaterMark nat ptr nat
  | FConnSetClose ptr ptr
  | FConnEstablished ptr
  | FConnDestroyed ptr
  | FConnectorStart ptr
  | FConnectorReset ptr
  | FServerRemove ptr ptr
  | FUser nat

end
