(* ===== verification/Channel.thy ===== *)
theory Channel
  imports Callbacks Log_Stream
begin

unbundle bit_operations_syntax

text \<open>
  \<^verbatim>\<open>Channel\<close> (\<^verbatim>\<open>twnl/Channel.h\<close>, \<^verbatim>\<open>twnl/Channel.cc\<close>): the record of a channel, the static event masks and
  the operations that concern one channel only. The member functions that go on to the event
  loop (\<^verbatim>\<open>update\<close>, \<^verbatim>\<open>remove\<close>, \<^verbatim>\<open>handleEvent\<close>) are in \<^verbatim>\<open>Event_Loop\<close>. Event masks are 32 bit
  words, as \<^verbatim>\<open>int events_\<close> is.

  The masks are static and set by \<^verbatim>\<open>initDefaultEvent\<close>. In level-triggered mode the read and the
  write mask are disjoint and the two interests are independent; in edge-triggered mode both
  carry \<^verbatim>\<open>EPOLLET\<close>, and the tests and updates of one interest disturb the other.
\<close>

definition EPOLLIN :: "32 word" where "EPOLLIN = 0x001"
definition EPOLLPRI :: "32 word" where "EPOLLPRI = 0x002"
definition EPOLLOUT :: "32 word" where "EPOLLOUT = 0x004"
definition EPOLLERR :: "32 word" where "EPOLLERR = 0x008"
definition EPOLLHUP :: "32 word" where "EPOLLHUP = 0x010"
definition EPOLLRDHUP :: "32 word" where "EPOLLRDHUP = 0x2000"
definition EPOLLET :: "32 word" where "EPOLLET = 0x80000000"

lemmas epoll_defs =
  EPOLLIN_def EPOLLPRI_def EPOLLOUT_def EPOLLERR_def EPOLLHUP_def EPOLLRDHUP_def EPOLLET_def

datatype trig_mode = LT | ET

record chan_statics =
  cs_mode :: trig_mode
  kNoneEvent :: "32 word"
  kReadEvent :: "32 word"
  kWriteEvent :: "32 word"

text \<open>Static data is zero before \<^verbatim>\<open>initDefaultEvent\<close> is called.\<close>

definition Channel_statics_zero :: chan_statics where
  "Channel_statics_zero = \<lparr>cs_mode = LT, kNoneEvent = 0, kReadEvent = 0, kWriteEvent = 0\<rparr>"

definition Channel_initDefaultEvent :: "trig_mode \<Rightarrow> chan_statics" where
  "Channel_initDefaultEvent m =
     (if m = LT
      then \<lparr>cs_mode = LT, kNoneEvent = 0, kReadEvent = EPOLLIN OR EPOLLPRI,
            kWriteEvent = EPOLLOUT\<rparr>
      else \<lparr>cs_mode = ET, kNoneEvent = 0, kReadEvent = EPOLLET OR EPOLLIN OR EPOLLPRI,
            kWriteEvent = EPOLLET OR EPOLLOUT\<rparr>)"

definition Channel_isET :: "chan_statics \<Rightarrow> bool" where
  "Channel_isET s \<longleftrightarrow> cs_mode s = ET"

record channel =
  ch_loop :: ptr
  ch_fd :: int
  ch_events :: "32 word"
  ch_revents :: "32 word"
  ch_index :: int
  ch_logHup :: bool
  ch_eventHanding :: bool
  ch_addedToLoop :: bool
  ch_readCallback :: "channel_cb option"
  ch_writeCallback :: "channel_cb option"
  ch_errorCallback :: "channel_cb option"
  ch_closeCallback :: "channel_cb option"

definition Channel_new :: "ptr \<Rightarrow> int \<Rightarrow> channel" where
  "Channel_new loop fdarg =
     \<lparr>ch_loop = loop, ch_fd = fdarg, ch_events = 0, ch_revents = 0, ch_index = -1,
      ch_logHup = True, ch_eventHanding = False, ch_addedToLoop = False,
      ch_readCallback = None, ch_writeCallback = None, ch_errorCallback = None,
      ch_closeCallback = None\<rparr>"

definition Channel_dtor :: "channel \<Rightarrow> unit res" where
  "Channel_dtor c = cassert (\<not> ch_eventHanding c) ''!eventHanding_''"

definition Channel_setReadCallback :: "channel_cb \<Rightarrow> channel \<Rightarrow> channel" where
  "Channel_setReadCallback cb c = c\<lparr>ch_readCallback := Some cb\<rparr>"

definition Channel_setWriteCallback :: "channel_cb \<Rightarrow> channel \<Rightarrow> channel" where
  "Channel_setWriteCallback cb c = c\<lparr>ch_writeCallback := Some cb\<rparr>"

definition Channel_setErrorCallback :: "channel_cb \<Rightarrow> channel \<Rightarrow> channel" where
  "Channel_setErrorCallback cb c = c\<lparr>ch_errorCallback := Some cb\<rparr>"

definition Channel_setCloseCallback :: "channel_cb \<Rightarrow> channel \<Rightarrow> channel" where
  "Channel_setCloseCallback cb c = c\<lparr>ch_closeCallback := Some cb\<rparr>"

definition Channel_set_revents :: "32 word \<Rightarrow> channel \<Rightarrow> channel" where
  "Channel_set_revents revt c = c\<lparr>ch_revents := revt\<rparr>"

definition Channel_set_index :: "int \<Rightarrow> channel \<Rightarrow> channel" where
  "Channel_set_index idx c = c\<lparr>ch_index := idx\<rparr>"

definition Channel_isNoneEvent :: "chan_statics \<Rightarrow> channel \<Rightarrow> bool" where
  "Channel_isNoneEvent s c \<longleftrightarrow> ch_events c = kNoneEvent s"

definition Channel_isReading :: "chan_statics \<Rightarrow> channel \<Rightarrow> bool" where
  "Channel_isReading s c \<longleftrightarrow> ch_events c AND kReadEvent s \<noteq> 0"

definition Channel_isWriting :: "chan_statics \<Rightarrow> channel \<Rightarrow> bool" where
  "Channel_isWriting s c \<longleftrightarrow> ch_events c AND kWriteEvent s \<noteq> 0"

text \<open>The assignments to \<^verbatim>\<open>events_\<close> at the start of the five interest operations.\<close>

datatype interest = EnableReading | DisableReading | EnableWriting | DisableWriting | DisableAll

fun interest_mask :: "chan_statics \<Rightarrow> interest \<Rightarrow> 32 word \<Rightarrow> 32 word" where
  "interest_mask s EnableReading ev = ev OR kReadEvent s"
| "interest_mask s DisableReading ev = ev AND NOT (kReadEvent s)"
| "interest_mask s EnableWriting ev = ev OR kWriteEvent s"
| "interest_mask s DisableWriting ev = ev AND NOT (kWriteEvent s)"
| "interest_mask s DisableAll ev = kNoneEvent s"

definition Channel_eventsToString_mask :: "int \<Rightarrow> 32 word \<Rightarrow> char list" where
  "Channel_eventsToString_mask fd ev =
     decimal fd @ '': '' @
     (if ev AND EPOLLIN \<noteq> 0 then ''IN '' else []) @
     (if ev AND EPOLLPRI \<noteq> 0 then ''PRI '' else []) @
     (if ev AND EPOLLOUT \<noteq> 0 then ''OUT '' else []) @
     (if ev AND EPOLLHUP \<noteq> 0 then ''HUP '' else []) @
     (if ev AND EPOLLRDHUP \<noteq> 0 then ''RDHUP '' else []) @
     (if ev AND EPOLLERR \<noteq> 0 then ''ERR '' else [])"

definition Channel_reventsToString :: "channel \<Rightarrow> char list" where
  "Channel_reventsToString c = Channel_eventsToString_mask (ch_fd c) (ch_revents c)"

definition Channel_eventsToString :: "channel \<Rightarrow> char list" where
  "Channel_eventsToString c = Channel_eventsToString_mask (ch_fd c) (ch_events c)"


section \<open>Specification\<close>

text \<open>What the interest operations mean: two independent switches.\<close>

fun interest_spec :: "interest \<Rightarrow> bool \<times> bool \<Rightarrow> bool \<times> bool" where
  "interest_spec EnableReading (r, w) = (True, w)"
| "interest_spec DisableReading (r, w) = (False, w)"
| "interest_spec EnableWriting (r, w) = (r, True)"
| "interest_spec DisableWriting (r, w) = (r, False)"
| "interest_spec DisableAll (r, w) = (False, False)"

definition interests :: "chan_statics \<Rightarrow> 32 word \<Rightarrow> bool \<times> bool" where
  "interests s ev = (ev AND kReadEvent s \<noteq> 0, ev AND kWriteEvent s \<noteq> 0)"

text \<open>The masks level-triggered mode can produce.\<close>

definition lt_mask :: "bool \<times> bool \<Rightarrow> 32 word" where
  "lt_mask p = (if fst p then 3 else 0) OR (if snd p then 4 else 0)"


section \<open>Lemmas\<close>

abbreviation lt_statics :: chan_statics where
  "lt_statics \<equiv> Channel_initDefaultEvent LT"

abbreviation et_statics :: chan_statics where
  "et_statics \<equiv> Channel_initDefaultEvent ET"

lemma lt_statics_simps [simp]:
  "kNoneEvent lt_statics = 0" "kReadEvent lt_statics = 3" "kWriteEvent lt_statics = 4"
  "cs_mode lt_statics = LT"
  by (simp_all add: Channel_initDefaultEvent_def epoll_defs)

lemma et_statics_simps [simp]:
  "kNoneEvent et_statics = 0" "kReadEvent et_statics = 0x80000003"
  "kWriteEvent et_statics = 0x80000004" "cs_mode et_statics = ET"
  by (simp_all add: Channel_initDefaultEvent_def epoll_defs)

lemma interests_lt_mask: "interests lt_statics (lt_mask p) = p"
  by (cases p) (simp add: interests_def lt_mask_def)

lemma interest_mask_lt:
  "interest_mask lt_statics op (lt_mask p) = lt_mask (interest_spec op p)"
  by (cases op; cases p) (auto simp: lt_mask_def)

lemma fold_interest_mask_lt:
  "fold (interest_mask lt_statics) ops (lt_mask p) = lt_mask (fold interest_spec ops p)"
  by (induction ops arbitrary: p) (simp_all add: interest_mask_lt)

lemma lt_mask_zero: "lt_mask p = 0 \<longleftrightarrow> p = (False, False)"
  by (cases p) (auto simp: lt_mask_def)

lemma et_masks_meet: "(ev OR 0x80000003) AND 0x80000004 \<noteq> (0 :: 32 word)"
proof -
  have "bit ((ev OR 0x80000003) AND 0x80000004 :: 32 word) 31"
    by (simp add: bit_simps)
  then show ?thesis
    by (metis bit_0_eq bot_apply bot_bool_def)
qed


section \<open>Properties\<close>

text \<open>
  In level-triggered mode, whatever sequence of interest operations a channel goes through,
  \<^verbatim>\<open>isReading\<close> and \<^verbatim>\<open>isWriting\<close> report exactly the two switches that were turned on and off, and
  \<^verbatim>\<open>isNoneEvent\<close> holds exactly when both are off.
\<close>

theorem channel_interests_LT:
  "interests lt_statics (fold (interest_mask lt_statics) ops (ch_events (Channel_new l fd)))
     = fold interest_spec ops (False, False) \<and>
   (Channel_isNoneEvent lt_statics
      ((Channel_new l fd)\<lparr>ch_events :=
         fold (interest_mask lt_statics) ops (ch_events (Channel_new l fd))\<rparr>)
     \<longleftrightarrow> fold interest_spec ops (False, False) = (False, False))"
proof -
  have "ch_events (Channel_new l fd) = lt_mask (False, False)"
    by (simp add: Channel_new_def lt_mask_def)
  then show ?thesis
    by (simp add: fold_interest_mask_lt interests_lt_mask Channel_isNoneEvent_def lt_mask_zero)
qed

text \<open>
  In edge-triggered mode the masks share \<^verbatim>\<open>EPOLLET\<close>. A channel that only reads already tests as
  writing, for every mask it may have had before; and \<^verbatim>\<open>disableWriting\<close> takes \<^verbatim>\<open>EPOLLET\<close> away, so a
  channel that reads and writes is left reading in level-triggered mode.
\<close>

theorem channel_interests_ET:
  "Channel_isWriting et_statics (c\<lparr>ch_events := interest_mask et_statics EnableReading ev\<rparr>) \<and>
   interest_mask et_statics DisableWriting
     (interest_mask et_statics EnableWriting (interest_mask et_statics EnableReading 0))
     = EPOLLIN OR EPOLLPRI"
  by (simp add: Channel_isWriting_def epoll_defs et_masks_meet)

end
