(* ===== verification/Inet_Address.thy ===== *)
theory Inet_Address
  imports Log_Stream
begin

unbundle bit_operations_syntax

text \<open>
  Byte order (\<^verbatim>\<open>twnl/SocketsOps.h\<close>), \<^verbatim>\<open>InetAddress\<close> (\<^verbatim>\<open>twnl/InetAddress.h\<close>, \<^verbatim>\<open>twnl/InetAddress.cc\<close>) and
  the address functions of \<^verbatim>\<open>twnl/SocketsOps.cc\<close>, on a little-endian host as the build
  (\<^verbatim>\<open>-march=native\<close> on x86-64 Linux) has it.

  The union of \<^verbatim>\<open>sockaddr_in\<close> and \<^verbatim>\<open>sockaddr_in6\<close> is one record with the fields of the common
  layout: \<^verbatim>\<open>family\<close> and \<^verbatim>\<open>port\<close> lie at the same offset in both; \<open>ia_word4\<close> is \<^verbatim>\<open>sin_addr\<close> or
  \<^verbatim>\<open>sin6_flowinfo\<close>; \<open>ia_hi\<close> and \<open>ia_lo\<close> are the halves of \<^verbatim>\<open>sin6_addr\<close>, the first of which is
  \<^verbatim>\<open>sin_zero\<close>; the last 12 bytes exist in \<^verbatim>\<open>sockaddr_in6\<close> only.

  \<^verbatim>\<open>inet_ntop\<close> and \<^verbatim>\<open>inet_pton\<close> are the parameter \<open>inet_lib\<close>.
\<close>

section \<open>Byte order\<close>

definition bswap16 :: "16 word \<Rightarrow> 16 word" where
  "bswap16 w = push_bit 8 w OR drop_bit 8 w"

definition bswap32 :: "32 word \<Rightarrow> 32 word" where
  "bswap32 w = push_bit 24 w OR (push_bit 8 w AND 0xFF0000) OR (drop_bit 8 w AND 0xFF00)
     OR drop_bit 24 w"

definition bswap64 :: "64 word \<Rightarrow> 64 word" where
  "bswap64 w = push_bit 56 w OR (push_bit 40 w AND 0xFF000000000000)
     OR (push_bit 24 w AND 0xFF0000000000) OR (push_bit 8 w AND 0xFF00000000)
     OR (drop_bit 8 w AND 0xFF000000) OR (drop_bit 24 w AND 0xFF0000)
     OR (drop_bit 40 w AND 0xFF00) OR drop_bit 56 w"

definition hostToNetwork64 :: "64 word \<Rightarrow> 64 word" where
  "hostToNetwork64 host64 = bswap64 host64"

definition hostToNetwork32 :: "32 word \<Rightarrow> 32 word" where
  "hostToNetwork32 host32 = bswap32 host32"

definition hostToNetwork16 :: "16 word \<Rightarrow> 16 word" where
  "hostToNetwork16 host16 = bswap16 host16"

definition networkToHost64 :: "64 word \<Rightarrow> 64 word" where
  "networkToHost64 net64 = bswap64 net64"

definition networkToHost32 :: "32 word \<Rightarrow> 32 word" where
  "networkToHost32 net32 = bswap32 net32"

definition networkToHost16 :: "16 word \<Rightarrow> 16 word" where
  "networkToHost16 net16 = bswap16 net16"


section \<open>InetAddress\<close>

record inet_address =
  ia_family :: "16 word"
  ia_port :: "16 word"
  ia_word4 :: "32 word"
  ia_hi :: "64 word"
  ia_lo :: "64 word"
  ia_scope :: "32 word"

record inet_lib =
  ntop4 :: "32 word \<Rightarrow> char list"
  ntop6 :: "64 word \<times> 64 word \<Rightarrow> char list"
  pton4 :: "char list \<Rightarrow> 32 word option"
  pton6 :: "char list \<Rightarrow> (64 word \<times> 64 word) option"

definition AF_INET :: "16 word" where "AF_INET = 2"
definition AF_INET6 :: "16 word" where "AF_INET6 = 10"
definition kInaddrAny :: "32 word" where "kInaddrAny = 0"
definition kInaddrLoopback :: "32 word" where "kInaddrLoopback = 0x7F000001"

text \<open>\<^verbatim>\<open>in6addr_loopback\<close> is fifteen zero bytes and a one, the last byte in memory.\<close>

definition in6addr_loopback :: "64 word \<times> 64 word" where
  "in6addr_loopback = (0, push_bit 56 1)"

text \<open>\<^verbatim>\<open>memset\<close> of the whole union, or of the 16 bytes of \<^verbatim>\<open>sockaddr_in\<close> only.\<close>

definition zero_addr6 :: "inet_address \<Rightarrow> inet_address" where
  "zero_addr6 raw =
     raw\<lparr>ia_family := 0, ia_port := 0, ia_word4 := 0, ia_hi := 0, ia_lo := 0, ia_scope := 0\<rparr>"

definition zero_addr4 :: "inet_address \<Rightarrow> inet_address" where
  "zero_addr4 raw = raw\<lparr>ia_family := 0, ia_port := 0, ia_word4 := 0, ia_hi := 0\<rparr>"

definition InetAddress_port :: "inet_address \<Rightarrow> 16 word \<Rightarrow> bool \<Rightarrow> bool \<Rightarrow> inet_address" where
  "InetAddress_port raw port loopbackOnly ipv6 =
     (if ipv6
      then let ip = (if loopbackOnly then in6addr_loopback else (0, 0))
           in (zero_addr6 raw)\<lparr>ia_family := AF_INET6, ia_hi := fst ip, ia_lo := snd ip,
                               ia_port := bswap16 port\<rparr>
      else let ip = (if loopbackOnly then kInaddrLoopback else kInaddrAny)
           in (zero_addr4 raw)\<lparr>ia_family := AF_INET, ia_word4 := bswap32 ip,
                               ia_port := bswap16 port\<rparr>)"

definition InetAddress_ip ::
    "inet_lib \<Rightarrow> inet_address \<Rightarrow> char list \<Rightarrow> 16 word \<Rightarrow> bool \<Rightarrow> inet_address" where
  "InetAddress_ip lib raw ip port ipv6 =
     (if ipv6
      then let a = (zero_addr6 raw)\<lparr>ia_family := AF_INET6, ia_port := bswap16 port\<rparr>
           in case pton6 lib ip of
                Some (hi, lo) \<Rightarrow> a\<lparr>ia_hi := hi, ia_lo := lo\<rparr>
              | None \<Rightarrow> a
      else let a = (zero_addr4 raw)\<lparr>ia_family := AF_INET, ia_port := bswap16 port\<rparr>
           in case pton4 lib ip of
                Some w \<Rightarrow> a\<lparr>ia_word4 := w\<rparr>
              | None \<Rightarrow> a)"

definition InetAddress_family :: "inet_address \<Rightarrow> 16 word" where
  "InetAddress_family a = ia_family a"

definition InetAddress_portNetEndian :: "inet_address \<Rightarrow> 16 word" where
  "InetAddress_portNetEndian a = ia_port a"

definition InetAddress_setSockAddrInet6 :: "inet_address \<Rightarrow> inet_address \<Rightarrow> inet_address" where
  "InetAddress_setSockAddrInet6 addr6 a = addr6"

text \<open>
  Both text functions write into 64 bytes: \<^verbatim>\<open>inet_ntop\<close> the address, \<^verbatim>\<open>snprintf\<close> the port behind
  it, as far as the bytes and the terminator allow.
\<close>

definition InetAddress_toIp :: "inet_lib \<Rightarrow> inet_address \<Rightarrow> char list" where
  "InetAddress_toIp lib a =
     (if InetAddress_family a = AF_INET6 then ntop6 lib (ia_hi a, ia_lo a)
      else ntop4 lib (ia_word4 a))"

definition InetAddress_toIpPort :: "inet_lib \<Rightarrow> inet_address \<Rightarrow> char list" where
  "InetAddress_toIpPort lib a =
     (let buf = (if InetAddress_family a = AF_INET6 then ntop6 lib (ia_hi a, ia_lo a)
                 else ntop4 lib (ia_word4 a));
          sz = 64;
          endpos = length buf;
          port = bswap16 (ia_port a)
      in buf @ take (sz - endpos - 1) (CHR '':'' # decimal (uint port)))"

definition InetAddress_toPort :: "inet_address \<Rightarrow> 16 word" where
  "InetAddress_toPort a = bswap16 (InetAddress_portNetEndian a)"

definition InetAddress_ipNetEndian :: "inet_address \<Rightarrow> 32 word res" where
  "InetAddress_ipNetEndian a =
     res_bind (cassert (InetAddress_family a = AF_INET) ''family() == AF_INET'')
       (\<lambda>_. Inr (ia_word4 a))"

definition InetAddress_setScopeId :: "32 word \<Rightarrow> inet_address \<Rightarrow> inet_address" where
  "InetAddress_setScopeId scope_id a =
     (if InetAddress_family a = AF_INET6 then a\<lparr>ia_scope := scope_id\<rparr> else a)"


section \<open>Addresses in SocketsOps\<close>

text \<open>
  \<^verbatim>\<open>toIp\<close> and \<^verbatim>\<open>toIpPort\<close> into a buffer of \<open>sz\<close> bytes whose text was \<open>old\<close>. For a family that is
  neither, \<^verbatim>\<open>toIp\<close> leaves the buffer as it was.
\<close>

definition sockets_toIp ::
    "inet_lib \<Rightarrow> nat \<Rightarrow> inet_address \<Rightarrow> char list \<Rightarrow> char list res" where
  "sockets_toIp lib sz a old =
     (if ia_family a = AF_INET
      then res_bind (cassert (16 \<le> sz) ''size >= INET_ADDRSTRLEN'')
             (\<lambda>_. Inr (ntop4 lib (ia_word4 a)))
      else if ia_family a = AF_INET6
      then res_bind (cassert (46 \<le> sz) ''size >= INET6_ADDRSTRLEN'')
             (\<lambda>_. Inr (ntop6 lib (ia_hi a, ia_lo a)))
      else Inr old)"

definition sockets_toIpPort ::
    "inet_lib \<Rightarrow> nat \<Rightarrow> inet_address \<Rightarrow> char list \<Rightarrow> char list res" where
  "sockets_toIpPort lib sz a old =
     res_bind (sockets_toIp lib sz a old) (\<lambda>buf.
       let endpos = length buf; port = networkToHost16 (ia_port a) in
       res_bind (cassert (endpos < sz) ''size > end'') (\<lambda>_.
         Inr (buf @ take (sz - endpos - 1) (CHR '':'' # decimal (uint port)))))"

definition sockets_fromIpPort4 ::
    "inet_lib \<Rightarrow> char list \<Rightarrow> 16 word \<Rightarrow> inet_address \<Rightarrow> inet_address" where
  "sockets_fromIpPort4 lib ip port a =
     (let a1 = a\<lparr>ia_family := AF_INET, ia_port := hostToNetwork16 port\<rparr>
      in case pton4 lib ip of Some w \<Rightarrow> a1\<lparr>ia_word4 := w\<rparr> | None \<Rightarrow> a1)"

definition sockets_fromIpPort6 ::
    "inet_lib \<Rightarrow> char list \<Rightarrow> 16 word \<Rightarrow> inet_address \<Rightarrow> inet_address" where
  "sockets_fromIpPort6 lib ip port a =
     (let a1 = a\<lparr>ia_family := AF_INET6, ia_port := hostToNetwork16 port\<rparr>
      in case pton6 lib ip of Some (hi, lo) \<Rightarrow> a1\<lparr>ia_hi := hi, ia_lo := lo\<rparr> | None \<Rightarrow> a1)"

definition sockets_isSelfConnect :: "inet_address \<Rightarrow> inet_address \<Rightarrow> bool" where
  "sockets_isSelfConnect localaddr peeraddr =
     (if ia_family localaddr = AF_INET
      then ia_port localaddr = ia_port peeraddr \<and> ia_word4 localaddr = ia_word4 peeraddr
      else if ia_family localaddr = AF_INET6
      then ia_port localaddr = ia_port peeraddr \<and> ia_hi localaddr = ia_hi peeraddr \<and>
           ia_lo localaddr = ia_lo peeraddr
      else False)"


section \<open>Lemmas\<close>

lemma bswap16_bit:
  "bit (bswap16 w) n \<longleftrightarrow> n < 16 \<and> bit w (if n < 8 then 8 + n else n - 8)"
  by (auto simp: bswap16_def bit_simps not_less dest: bit_imp_le_length)

lemma bswap16_bswap16 [simp]: "bswap16 (bswap16 w) = w"
  by (rule bit_word_eqI) (auto simp: bswap16_bit)

lemma masks32:
  "(0xFF0000 :: 32 word) = push_bit 16 (mask 8)" "(0xFF00 :: 32 word) = push_bit 8 (mask 8)"
  by (simp_all add: mask_eq_exp_minus_1)

lemma bswap32_bit:
  "bit (bswap32 w) n \<longleftrightarrow> n < 32 \<and>
     bit w (if n < 8 then 24 + n else if n < 16 then 8 + n else if n < 24 then n - 8 else n - 24)"
  by (auto simp: bswap32_def masks32 bit_simps not_less dest: bit_imp_le_length)

lemma bswap32_bswap32 [simp]: "bswap32 (bswap32 w) = w"
  by (rule bit_word_eqI) (auto simp: bswap32_bit)

lemma masks64:
  "(0xFF000000000000 :: 64 word) = push_bit 48 (mask 8)"
  "(0xFF0000000000 :: 64 word) = push_bit 40 (mask 8)"
  "(0xFF00000000 :: 64 word) = push_bit 32 (mask 8)"
  "(0xFF000000 :: 64 word) = push_bit 24 (mask 8)"
  "(0xFF0000 :: 64 word) = push_bit 16 (mask 8)"
  "(0xFF00 :: 64 word) = push_bit 8 (mask 8)"
  by (simp_all add: mask_eq_exp_minus_1)

lemma bswap64_bit:
  "bit (bswap64 w) n \<longleftrightarrow> n < 64 \<and>
     bit w (if n < 8 then 56 + n else if n < 16 then 40 + n else if n < 24 then 24 + n
            else if n < 32 then 8 + n else if n < 40 then n - 8 else if n < 48 then n - 24
            else if n < 56 then n - 40 else n - 56)"
proof (cases "n < 64")
  case True
  then consider "n < 8" | "8 \<le> n" "n < 16" | "16 \<le> n" "n < 24" | "24 \<le> n" "n < 32"
    | "32 \<le> n" "n < 40" | "40 \<le> n" "n < 48" | "48 \<le> n" "n < 56" | "56 \<le> n"
    by linarith
  then show ?thesis
    using True
    by cases (auto simp: bswap64_def masks64 bit_simps less_diff_conv2 dest: bit_imp_le_length)
next
  case False
  then show ?thesis by (auto dest: bit_imp_le_length)
qed

lemma bswap64_bswap64 [simp]: "bswap64 (bswap64 w) = w"
proof (rule bit_word_eqI)
  fix n :: nat
  assume "n < LENGTH(64)"
  then consider "n < 8" | "8 \<le> n" "n < 16" | "16 \<le> n" "n < 24" | "24 \<le> n" "n < 32"
    | "32 \<le> n" "n < 40" | "40 \<le> n" "n < 48" | "48 \<le> n" "n < 56" | "56 \<le> n"
    by linarith
  then show "bit (bswap64 (bswap64 w)) n = bit w n"
    using \<open>n < LENGTH(64)\<close> by cases (simp_all add: bswap64_bit less_diff_conv2)
qed

lemma decimal_port: "length (decimal (uint (p :: 16 word))) \<le> 5"
proof -
  have "unat p < 10 ^ 5" using unsigned_less [of p, where 'a = nat] by simp
  from length_numeral_of [OF this, of "''0123456789''"] show ?thesis
    by (simp add: decimal_def)
qed

lemma toIpPort_format:
  assumes "length (InetAddress_toIp lib a) \<le> 45"
  shows "InetAddress_toIpPort lib a
    = InetAddress_toIp lib a @ '':'' @ decimal (uint (InetAddress_toPort a))"
  using assms decimal_port [of "bswap16 (ia_port a)"]
  by (auto simp: InetAddress_toIpPort_def InetAddress_toIp_def InetAddress_toPort_def
      InetAddress_portNetEndian_def Let_def)


section \<open>Properties\<close>

text \<open>
  Byte order conversions are inverse to each other at every width, so a value written in
  network order is read back unchanged.
\<close>

theorem byte_order_roundtrip:
  "networkToHost16 (hostToNetwork16 a) = a \<and> networkToHost32 (hostToNetwork32 b) = b \<and>
   networkToHost64 (hostToNetwork64 c) = c"
  by (simp add: networkToHost16_def hostToNetwork16_def networkToHost32_def hostToNetwork32_def
      networkToHost64_def hostToNetwork64_def)



end
