(* ===== verification/Os.thy ===== *)
theory Os
  imports Inet_Address
begin

text \<open>
  The operating system as the library sees it. A program state extends the record \<open>os\<close>: the
  \<open>tape\<close> holds the kernel's answers in the order the calls are made (an input of the model), the
  \<open>trace\<close> the calls made so far with their arguments. A call with no answer left ends in
  \<open>Blocked\<close>; an answer of the wrong kind or outside the documented range ends in \<open>Kernel\<close>. The
  addresses \<^verbatim>\<open>getsockname\<close> and \<^verbatim>\<open>getpeername\<close> report are functions of the descriptor.

  Thin wrappers of system calls in \<^verbatim>\<open>twnl/SocketsOps.cc\<close> and \<^verbatim>\<open>twnl/Socket.cc\<close> are modelled here, with
  the abort of their \<^verbatim>\<open>OrDie\<close> variants.
\<close>

datatype ctl_op = EPOLL_CTL_ADD | EPOLL_CTL_DEL | EPOLL_CTL_MOD

datatype sys_call =
    CallWrite int "char list"
  | CallRead int nat
  | CallReadv int
  | CallClose int
  | CallShutdownWrite int
  | CallSocket "16 word"
  | CallBind int inet_address
  | CallListen int
  | CallAccept int
  | CallConnect int inet_address
  | CallSockError int
  | CallSetSockOpt int string bool
  | CallOpenDevNull
  | CallEpollCreate
  | CallEpollCtl int ctl_op int "32 word" nat
  | CallEpollWait int nat int
  | CallPoll "(int \<times> 16 word) list" int
  | CallTimerfdCreate
  | CallTimerfdSettime int int int
  | CallEventfd
  | CallNow

record os =
  tape :: "sys_ret list"
  trace :: "sys_call list"
  os_local :: "int \<Rightarrow> inet_address option"
  os_peer :: "int \<Rightarrow> inet_address option"

definition sys :: "sys_call \<Rightarrow> 'z os_scheme \<Rightarrow> (sys_ret \<times> 'z os_scheme) res" where
  "sys c w =
     (case tape w of
        [] \<Rightarrow> Inl Blocked
      | r # rs \<Rightarrow> Inr (r, w\<lparr>tape := rs, trace := trace w @ [c]\<rparr>))"

text \<open>A call that returns a number, C style: the number and \<^verbatim>\<open>errno\<close>, which is 0 unless the call
  failed with -1.\<close>

definition sys_int :: "sys_call \<Rightarrow> 'z os_scheme \<Rightarrow> (int \<times> int \<times> 'z os_scheme) res" where
  "sys_int c w =
     res_bind (sys c w) (\<lambda>(r, w').
       case r of
         SysErr e \<Rightarrow> if e = 0 then Inl Kernel else Inr (-1, e, w')
       | SysNum n \<Rightarrow> if n < 0 then Inl Kernel else Inr (n, 0, w')
       | _ \<Rightarrow> Inl Kernel)"

text \<open>\<^verbatim>\<open>clock::now()\<close>: nanoseconds since the epoch of the system clock.\<close>

definition clock_now :: "'z os_scheme \<Rightarrow> (int \<times> 'z os_scheme) res" where
  "clock_now w =
     res_bind (sys CallNow w) (\<lambda>(r, w').
       case r of SysNum t \<Rightarrow> Inr (t, w') | _ \<Rightarrow> Inl Kernel)"

definition clock_nowAfter :: "int \<Rightarrow> 'z os_scheme \<Rightarrow> (int \<times> 'z os_scheme) res" where
  "clock_nowAfter interval w = res_bind (clock_now w) (\<lambda>(t, w'). Inr (t + interval, w'))"

definition clock_nowBefore :: "int \<Rightarrow> 'z os_scheme \<Rightarrow> (int \<times> 'z os_scheme) res" where
  "clock_nowBefore interval w = res_bind (clock_now w) (\<lambda>(t, w'). Inr (t - interval, w'))"


section \<open>SocketsOps\<close>

definition sockets_createNonblockingOrDie ::
    "16 word \<Rightarrow> 'z os_scheme \<Rightarrow> (int \<times> 'z os_scheme) res" where
  "sockets_createNonblockingOrDie family w =
     res_bind (sys_int (CallSocket family) w) (\<lambda>(sockfd, e, w').
       if sockfd < 0 then Inl (Fatal ''sockets::createNonblockingOrDie'') else Inr (sockfd, w'))"

definition sockets_bindOrDie :: "int \<Rightarrow> inet_address \<Rightarrow> 'z os_scheme \<Rightarrow> 'z os_scheme res" where
  "sockets_bindOrDie sockfd addr w =
     res_bind (sys_int (CallBind sockfd addr) w) (\<lambda>(r, e, w').
       if r < 0 then Inl (Fatal ''sockets::bindOrDie'') else Inr w')"

definition sockets_listenOrDie :: "int \<Rightarrow> 'z os_scheme \<Rightarrow> 'z os_scheme res" where
  "sockets_listenOrDie sockfd w =
     res_bind (sys_int (CallListen sockfd) w) (\<lambda>(r, e, w').
       if r < 0 then Inl (Fatal ''sockets::listenOrDie'') else Inr w')"

text \<open>
  \<^verbatim>\<open>accept\<close> returns the descriptor and \<^verbatim>\<open>errno\<close>; the errors it does not expect abort.
\<close>

definition EPROTO :: int where "EPROTO = 71"
definition ECONNABORTED :: int where "ECONNABORTED = 103"

definition sockets_accept :: "int \<Rightarrow> 'z os_scheme \<Rightarrow> (int \<times> int \<times> 'z os_scheme) res" where
  "sockets_accept sockfd w =
     res_bind (sys_int (CallAccept sockfd) w) (\<lambda>(connfd, savedErrno, w').
       if connfd < 0
       then if savedErrno \<in> {EAGAIN, ECONNABORTED, EINTR, EPROTO, EPERM, EMFILE}
            then Inr (connfd, savedErrno, w')
            else Inl (Fatal ''unexpected error of ::accept'')
       else Inr (connfd, 0, w'))"

definition sockets_connect ::
    "int \<Rightarrow> inet_address \<Rightarrow> 'z os_scheme \<Rightarrow> (int \<times> int \<times> 'z os_scheme) res" where
  "sockets_connect sockfd addr w = sys_int (CallConnect sockfd addr) w"

definition sockets_write ::
    "int \<Rightarrow> char list \<Rightarrow> 'z os_scheme \<Rightarrow> (int \<times> int \<times> 'z os_scheme) res" where
  "sockets_write sockfd buf w =
     res_bind (sys_int (CallWrite sockfd buf) w) (\<lambda>(n, e, w').
       if int (length buf) < n then Inl Kernel else Inr (n, e, w'))"

text \<open>\<^verbatim>\<open>read\<close> of a counter (\<^verbatim>\<open>eventfd\<close>, \<^verbatim>\<open>timerfd\<close>): only the number of bytes matters.\<close>

definition sockets_read :: "int \<Rightarrow> nat \<Rightarrow> 'z os_scheme \<Rightarrow> (int \<times> int \<times> 'z os_scheme) res" where
  "sockets_read sockfd count w =
     res_bind (sys_int (CallRead sockfd count) w) (\<lambda>(n, e, w').
       if int count < n then Inl Kernel else Inr (n, e, w'))"

definition sockets_close :: "int \<Rightarrow> 'z os_scheme \<Rightarrow> 'z os_scheme res" where
  "sockets_close sockfd w = res_bind (sys_int (CallClose sockfd) w) (\<lambda>(r, e, w'). Inr w')"

definition sockets_shutdownWrite :: "int \<Rightarrow> 'z os_scheme \<Rightarrow> 'z os_scheme res" where
  "sockets_shutdownWrite sockfd w =
     res_bind (sys_int (CallShutdownWrite sockfd) w) (\<lambda>(r, e, w'). Inr w')"

text \<open>\<^verbatim>\<open>getsockopt(SO_ERROR)\<close>: the pending error of the socket, or the error of the call itself.\<close>

definition sockets_getSocketError :: "int \<Rightarrow> 'z os_scheme \<Rightarrow> (int \<times> 'z os_scheme) res" where
  "sockets_getSocketError sockfd w =
     res_bind (sys_int (CallSockError sockfd) w) (\<lambda>(optval, e, w').
       if optval < 0 then Inr (e, w') else Inr (optval, w'))"

definition zero_address :: inet_address where
  "zero_address =
     \<lparr>ia_family = 0, ia_port = 0, ia_word4 = 0, ia_hi = 0, ia_lo = 0, ia_scope = 0\<rparr>"

definition sockets_getLocalAddr :: "int \<Rightarrow> 'z os_scheme \<Rightarrow> inet_address" where
  "sockets_getLocalAddr sockfd w =
     (case os_local w sockfd of None \<Rightarrow> zero_address | Some a \<Rightarrow> a)"

definition sockets_getPeerAddr :: "int \<Rightarrow> 'z os_scheme \<Rightarrow> inet_address" where
  "sockets_getPeerAddr sockfd w =
     (case os_peer w sockfd of None \<Rightarrow> zero_address | Some a \<Rightarrow> a)"

definition sockets_isSelfConnect_fd :: "int \<Rightarrow> 'z os_scheme \<Rightarrow> bool" where
  "sockets_isSelfConnect_fd sockfd w =
     sockets_isSelfConnect (sockets_getLocalAddr sockfd w) (sockets_getPeerAddr sockfd w)"


section \<open>Socket\<close>

text \<open>A \<^verbatim>\<open>Socket\<close> is its descriptor. \<^verbatim>\<open>setsockopt\<close> results are ignored by the code.\<close>

definition Socket_dtor :: "int \<Rightarrow> 'z os_scheme \<Rightarrow> 'z os_scheme res" where
  "Socket_dtor sockfd w = sockets_close sockfd w"

definition Socket_bindAddress :: "int \<Rightarrow> inet_address \<Rightarrow> 'z os_scheme \<Rightarrow> 'z os_scheme res" where
  "Socket_bindAddress sockfd addr w = sockets_bindOrDie sockfd addr w"

definition Socket_listen :: "int \<Rightarrow> 'z os_scheme \<Rightarrow> 'z os_scheme res" where
  "Socket_listen sockfd w = sockets_listenOrDie sockfd w"

text \<open>The address of the peer is the one the kernel reports for the new descriptor.\<close>

definition Socket_accept ::
    "int \<Rightarrow> inet_address \<Rightarrow> 'z os_scheme \<Rightarrow> (int \<times> int \<times> inet_address \<times> 'z os_scheme) res" where
  "Socket_accept sockfd peeraddr w =
     res_bind (sockets_accept sockfd w) (\<lambda>(connfd, e, w').
       if 0 \<le> connfd
       then Inr (connfd, e, InetAddress_setSockAddrInet6 (sockets_getPeerAddr connfd w') peeraddr, w')
       else Inr (connfd, e, peeraddr, w'))"

definition Socket_setsockopt :: "string \<Rightarrow> bool \<Rightarrow> int \<Rightarrow> 'z os_scheme \<Rightarrow> 'z os_scheme res" where
  "Socket_setsockopt opt on sockfd w =
     res_bind (sys_int (CallSetSockOpt sockfd opt on) w) (\<lambda>(r, e, w'). Inr w')"

definition Socket_setReuseAddr :: "bool \<Rightarrow> int \<Rightarrow> 'z os_scheme \<Rightarrow> 'z os_scheme res" where
  "Socket_setReuseAddr on sockfd w = Socket_setsockopt ''SO_REUSEADDR'' on sockfd w"

definition Socket_setReusePort :: "bool \<Rightarrow> int \<Rightarrow> 'z os_scheme \<Rightarrow> 'z os_scheme res" where
  "Socket_setReusePort on sockfd w = Socket_setsockopt ''SO_REUSEPORT'' on sockfd w"

definition Socket_setTcpNoDelay :: "bool \<Rightarrow> int \<Rightarrow> 'z os_scheme \<Rightarrow> 'z os_scheme res" where
  "Socket_setTcpNoDelay on sockfd w = Socket_setsockopt ''TCP_NODELAY'' on sockfd w"

definition Socket_setKeepAlive :: "bool \<Rightarrow> int \<Rightarrow> 'z os_scheme \<Rightarrow> 'z os_scheme res" where
  "Socket_setKeepAlive on sockfd w = Socket_setsockopt ''SO_KEEPALIVE'' on sockfd w"

definition Socket_shutdownWrite :: "int \<Rightarrow> 'z os_scheme \<Rightarrow> 'z os_scheme res" where
  "Socket_shutdownWrite sockfd w = sockets_shutdownWrite sockfd w"


section \<open>Lemmas\<close>

lemma sys_Inr:
  "sys c w = Inr (r, w') \<longleftrightarrow>
   (\<exists>rs. tape w = r # rs \<and> w' = w\<lparr>tape := rs, trace := trace w @ [c]\<rparr>)"
  by (auto simp: sys_def split: list.splits)

lemma sys_int_Inr:
  "sys_int c w = Inr (n, e, w') \<longleftrightarrow>
   (\<exists>r rs. tape w = r # rs \<and> w' = w\<lparr>tape := rs, trace := trace w @ [c]\<rparr> \<and>
      (r = SysErr e \<and> e \<noteq> 0 \<and> n = -1 \<or> r = SysNum n \<and> 0 \<le> n \<and> e = 0))"
proof (cases "tape w")
  case (Cons r rs)
  then show ?thesis
    by (cases r) (auto simp: sys_int_def sys_def)
qed (simp add: sys_int_def sys_def)

text \<open>System calls consume answers and leave a trace; the rest of a state is not theirs.\<close>

definition os_step :: "'z os_scheme \<Rightarrow> 'z os_scheme \<Rightarrow> bool" where
  "os_step w w' \<longleftrightarrow> (\<exists>rs tr. w' = w\<lparr>tape := rs, trace := trace w @ tr\<rparr>)"

lemma os_stepE:
  assumes "os_step w w'"
  obtains rs tr where "w' = w\<lparr>tape := rs, trace := trace w @ tr\<rparr>"
  using assms by (auto simp: os_step_def)

lemma os_step_refl [simp]: "os_step w w"
  unfolding os_step_def by (rule exI[of _ "tape w"], rule exI[of _ "[]"]) simp

lemma os_step_trans: "os_step w w1 \<Longrightarrow> os_step w1 w2 \<Longrightarrow> os_step w w2"
  unfolding os_step_def by (elim exE) (auto intro!: exI)

lemma sys_os_step: "sys c w = Inr (r, w') \<Longrightarrow> os_step w w'"
  by (auto simp: sys_Inr os_step_def)

lemma sys_int_os_step: "sys_int c w = Inr (n, e, w') \<Longrightarrow> os_step w w'"
  unfolding sys_int_Inr os_step_def by blast

lemma clock_now_Inr:
  "clock_now w = Inr (t, w') \<longleftrightarrow> sys CallNow w = Inr (SysNum t, w')"
proof (cases "sys CallNow w")
  case (Inr p)
  then show ?thesis
    by (cases p; cases "fst p") (auto simp: clock_now_def)
qed (simp add: clock_now_def)

lemma clock_now_os_step: "clock_now w = Inr (t, w') \<Longrightarrow> os_step w w'"
  by (auto simp: clock_now_Inr dest: sys_os_step)

lemma sockets_write_os_step: "sockets_write fd buf w = Inr (n, e, w') \<Longrightarrow> os_step w w'"
  by (auto simp: sockets_write_def res_bind_eq_Inr split: if_splits dest: sys_int_os_step)

lemma sockets_read_os_step: "sockets_read fd k w = Inr (n, e, w') \<Longrightarrow> os_step w w'"
  by (auto simp: sockets_read_def res_bind_eq_Inr split: if_splits dest: sys_int_os_step)

end
