(* ===== verification/Pollers.thy ===== *)
theory Pollers
  imports Channel Os
begin

text \<open>
  The pollers (\<^verbatim>\<open>twnl/Poller.h\<close>, \<^verbatim>\<open>twnl/Poller.cc\<close>, \<^verbatim>\<open>twnl/Poller/EpollPoller.cc\<close>,
  \<^verbatim>\<open>twnl/Poller/PollPoller.cc\<close>). A poller works on its own members, the channels on the heap (it sets
  their index and their received events) and the operating system; the three are the poller and
  a state that extends \<open>hworld\<close>. The argument \<open>inloop\<close> says whether the calling thread owns the
  loop, which \<^verbatim>\<open>assertInLoopThread\<close> tests.

  The locale \<open>poller_contract\<close> is what the event loop relies on: registering, updating and
  removing a channel keep the poller's tables consistent with the channels, and what the kernel
  watches for a descriptor is what its channel asks for. Both pollers are interpreted in it.
\<close>

record hworld = os +
  chans :: "ptr \<Rightarrow> channel option"
  statics :: chan_statics

definition chan_get :: "ptr \<Rightarrow> 'z hworld_scheme \<Rightarrow> channel res" where
  "chan_get p w =
     (case chans w p of
        None \<Rightarrow> Inl (Undefined ''use of a destroyed Channel'')
      | Some c \<Rightarrow> Inr c)"

definition chan_put :: "ptr \<Rightarrow> channel \<Rightarrow> 'z hworld_scheme \<Rightarrow> 'z hworld_scheme" where
  "chan_put p c w = w\<lparr>chans := (chans w)(p := Some c)\<rparr>"

definition assertInLoopThread :: "bool \<Rightarrow> unit res" where
  "assertInLoopThread inloop =
     (if inloop then Inr () else Inl (Fatal ''EventLoop::abortNotInLoopThread''))"


section \<open>EpollPoller\<close>

definition kNew :: int where "kNew = -1"
definition kAdded :: int where "kAdded = 1"
definition kDeleted :: int where "kDeleted = 2"

definition kInitEventListSize :: nat where "kInitEventListSize = 16"

record epoll_poller =
  ep_channels :: "int \<Rightarrow> ptr option"
  ep_epollfd :: int
  ep_events_size :: nat

definition EpollPoller_new :: "'z os_scheme \<Rightarrow> (epoll_poller \<times> 'z os_scheme) res" where
  "EpollPoller_new w =
     res_bind (sys_int CallEpollCreate w) (\<lambda>(epollfd, e, w').
       if epollfd < 0 then Inl (Fatal ''EpollPoller::Epollpoller'')
       else Inr (\<lparr>ep_channels = (\<lambda>_. None), ep_epollfd = epollfd,
                  ep_events_size = kInitEventListSize\<rparr>, w'))"

definition EpollPoller_dtor :: "epoll_poller \<Rightarrow> 'z os_scheme \<Rightarrow> 'z os_scheme res" where
  "EpollPoller_dtor ep w = res_bind (sys_int (CallClose (ep_epollfd ep)) w) (\<lambda>(r, e, w'). Inr w')"

fun EpollPoller_operationToString :: "ctl_op \<Rightarrow> char list" where
  "EpollPoller_operationToString EPOLL_CTL_ADD = ''ADD''"
| "EpollPoller_operationToString EPOLL_CTL_DEL = ''DEL''"
| "EpollPoller_operationToString EPOLL_CTL_MOD = ''MOD''"

definition EpollPoller_update ::
    "ctl_op \<Rightarrow> ptr \<Rightarrow> epoll_poller \<Rightarrow> 'z hworld_scheme \<Rightarrow> 'z hworld_scheme res" where
  "EpollPoller_update operation channel ep w =
     res_bind (chan_get channel w) (\<lambda>c.
     res_bind (sys_int (CallEpollCtl (ep_epollfd ep) operation (ch_fd c) (ch_events c) channel) w)
       (\<lambda>(r, e, w').
       if r < 0 \<and> operation \<noteq> EPOLL_CTL_DEL
       then Inl (Fatal (''epoll_ctl op = '' @ EpollPoller_operationToString operation))
       else Inr w'))"

definition EpollPoller_updateChannel ::
    "bool \<Rightarrow> ptr \<Rightarrow> epoll_poller \<times> 'z hworld_scheme \<Rightarrow> (epoll_poller \<times> 'z hworld_scheme) res" where
  "EpollPoller_updateChannel inloop channel st =
     (let (ep, w) = st in
      res_bind (assertInLoopThread inloop) (\<lambda>_.
      res_bind (chan_get channel w) (\<lambda>c.
      let index = ch_index c; fd = ch_fd c in
      if index = kNew \<or> index = kDeleted
      then res_bind
             (if index = kNew
              then res_bind (cassert (ep_channels ep fd = None) ''channels_.find(fd) == end()'')
                     (\<lambda>_. Inr (ep\<lparr>ep_channels := (ep_channels ep)(fd := Some channel)\<rparr>))
              else res_bind (cassert (ep_channels ep fd \<noteq> None) ''channels_.find(fd) != end()'')
                     (\<lambda>_. res_bind (cassert (ep_channels ep fd = Some channel)
                                      ''channels_[fd] == channel'') (\<lambda>_. Inr ep)))
             (\<lambda>ep'. let w1 = chan_put channel (Channel_set_index kAdded c) w in
                   res_bind (EpollPoller_update EPOLL_CTL_ADD channel ep' w1)
                     (\<lambda>w2. Inr (ep', w2)))
      else if Channel_isNoneEvent (statics w) c
      then res_bind (EpollPoller_update EPOLL_CTL_DEL channel ep w) (\<lambda>w1.
           res_bind (chan_get channel w1) (\<lambda>c1.
             Inr (ep, chan_put channel (Channel_set_index kDeleted c1) w1)))
      else res_bind (EpollPoller_update EPOLL_CTL_MOD channel ep w) (\<lambda>w1. Inr (ep, w1)))))"

definition EpollPoller_removeChannel ::
    "bool \<Rightarrow> ptr \<Rightarrow> epoll_poller \<times> 'z hworld_scheme \<Rightarrow> (epoll_poller \<times> 'z hworld_scheme) res" where
  "EpollPoller_removeChannel inloop channel st =
     (let (ep, w) = st in
      res_bind (assertInLoopThread inloop) (\<lambda>_.
      res_bind (chan_get channel w) (\<lambda>c.
      let fd = ch_fd c; index = ch_index c;
          ep' = ep\<lparr>ep_channels := (ep_channels ep)(fd := None)\<rparr> in
      res_bind (if index = kAdded then EpollPoller_update EPOLL_CTL_DEL channel ep' w else Inr w)
        (\<lambda>w1. res_bind (chan_get channel w1) (\<lambda>c1.
           Inr (ep', chan_put channel (Channel_set_index kDeleted c1) w1))))))"

text \<open>\<^verbatim>\<open>fillActiveChannels\<close>: the received events go to the channels, the channels to the list.\<close>

fun EpollPoller_fillActiveChannels ::
    "(ptr \<times> 32 word) list \<Rightarrow> ptr list \<Rightarrow> 'z hworld_scheme \<Rightarrow> (ptr list \<times> 'z hworld_scheme) res" where
  "EpollPoller_fillActiveChannels [] active w = Inr (active, w)"
| "EpollPoller_fillActiveChannels ((p, ev) # evs) active w =
     res_bind (chan_get p w) (\<lambda>c.
       EpollPoller_fillActiveChannels evs (active @ [p])
         (chan_put p (Channel_set_revents ev c) w))"

definition EpollPoller_poll ::
    "bool \<Rightarrow> int \<Rightarrow> epoll_poller \<times> 'z hworld_scheme \<Rightarrow>
     (int \<times> ptr list \<times> epoll_poller \<times> 'z hworld_scheme) res" where
  "EpollPoller_poll inloop timeoutMs st =
     (let (ep, w) = st in
      res_bind (assertInLoopThread inloop) (\<lambda>_.
      res_bind (sys (CallEpollWait (ep_epollfd ep) (ep_events_size ep) timeoutMs) w) (\<lambda>(r, w1).
      res_bind (clock_now w1) (\<lambda>(now, w2).
      case r of
        SysErr e \<Rightarrow> Inr (now, [], ep, w2)
      | SysReady evs \<Rightarrow>
          if ep_events_size ep < length evs then Inl Kernel
          else if evs = [] then Inr (now, [], ep, w2)
          else res_bind (EpollPoller_fillActiveChannels evs [] w2) (\<lambda>(active, w3).
               Inr (now, active,
                    if length evs = ep_events_size ep
                    then ep\<lparr>ep_events_size := ep_events_size ep * 2\<rparr> else ep, w3))
      | _ \<Rightarrow> Inl Kernel))))"


section \<open>PollPoller\<close>

record pollfd =
  pf_fd :: int
  pf_events :: "16 word"
  pf_revents :: "16 word"

record poll_poller =
  pp_channels :: "int \<Rightarrow> ptr option"
  pp_pollfds :: "pollfd list"

definition PollPoller_new :: poll_poller where
  "PollPoller_new = \<lparr>pp_channels = (\<lambda>_. None), pp_pollfds = []\<rparr>"

definition PollPoller_updateChannel ::
    "bool \<Rightarrow> ptr \<Rightarrow> poll_poller \<times> 'z hworld_scheme \<Rightarrow> (poll_poller \<times> 'z hworld_scheme) res" where
  "PollPoller_updateChannel inloop channel st =
     (let (pp, w) = st in
      res_bind (assertInLoopThread inloop) (\<lambda>_.
      res_bind (chan_get channel w) (\<lambda>c.
      let fd = ch_fd c in
      if ch_index c < 0
      then res_bind (cassert (pp_channels pp fd = None) ''channels_.find(fd) == end()'') (\<lambda>_.
           let pfd = \<lparr>pf_fd = fd, pf_events = ucast (ch_events c), pf_revents = 0\<rparr>;
               fds = pp_pollfds pp @ [pfd];
               idx = int (length fds) - 1
           in Inr (pp\<lparr>pp_pollfds := fds, pp_channels := (pp_channels pp)(fd := Some channel)\<rparr>,
                   chan_put channel (Channel_set_index idx c) w))
      else res_bind (cassert (pp_channels pp fd \<noteq> None) ''channels_.find(fd) != end()'') (\<lambda>_.
           res_bind (cassert (pp_channels pp fd = Some channel) ''channels_[fd] == channel'') (\<lambda>_.
           let idx = ch_index c in
           res_bind (cassert (0 \<le> idx \<and> idx < int (length (pp_pollfds pp)))
                      ''0 <= idx && idx < pollfds_.size()'') (\<lambda>_.
           let pfd = pp_pollfds pp ! nat idx in
           res_bind (cassert (pf_fd pfd = fd \<or> pf_fd pfd = - fd - 1)
                      ''pfd.fd == fd() || pfd.fd == -fd() - 1'') (\<lambda>_.
           let pfd1 = pfd\<lparr>pf_fd := fd, pf_events := ucast (ch_events c), pf_revents := 0\<rparr>;
               pfd2 = (if Channel_isNoneEvent (statics w) c then pfd1\<lparr>pf_fd := - fd - 1\<rparr> else pfd1)
           in Inr (pp\<lparr>pp_pollfds := (pp_pollfds pp)[nat idx := pfd2]\<rparr>, w))))))))"

text \<open>
  \<^verbatim>\<open>channels_[channelAtEnd]->set_index(idx)\<close>: \<^verbatim>\<open>operator[]\<close> of a map inserts a null pointer for a
  missing key, and using it is undefined.
\<close>

definition PollPoller_setIndexAt ::
    "int \<Rightarrow> int \<Rightarrow> poll_poller \<Rightarrow> 'z hworld_scheme \<Rightarrow> 'z hworld_scheme res" where
  "PollPoller_setIndexAt fd idx pp w =
     (case pp_channels pp fd of
        None \<Rightarrow> Inl (Undefined ''null Channel'')
      | Some p \<Rightarrow> res_bind (chan_get p w) (\<lambda>c. Inr (chan_put p (Channel_set_index idx c) w)))"

definition PollPoller_removeChannel ::
    "bool \<Rightarrow> ptr \<Rightarrow> poll_poller \<times> 'z hworld_scheme \<Rightarrow> (poll_poller \<times> 'z hworld_scheme) res" where
  "PollPoller_removeChannel inloop channel st =
     (let (pp, w) = st in
      res_bind (assertInLoopThread inloop) (\<lambda>_.
      res_bind (chan_get channel w) (\<lambda>c.
      let fd = ch_fd c; fds = pp_pollfds pp; idx = ch_index c in
      res_bind (cassert (pp_channels pp fd \<noteq> None) ''channels_.find(fd) != end()'') (\<lambda>_.
      res_bind (cassert (pp_channels pp fd = Some channel) ''channels_[fd] == channel'') (\<lambda>_.
      res_bind (cassert (Channel_isNoneEvent (statics w) c) ''isNoneEvent()'') (\<lambda>_.
      res_bind (cassert (0 \<le> idx \<and> idx < int (length fds))
                 ''0 <= idx && idx < pollfds_.size()'') (\<lambda>_.
      let pfd = fds ! nat idx in
      res_bind (cassert (pf_fd pfd = - fd - 1 \<and> sint (pf_events pfd) = sint (ch_events c))
                 ''pfd.fd == -fd() - 1 && pfd.events == events()'') (\<lambda>_.
      let pp1 = pp\<lparr>pp_channels := (pp_channels pp)(fd := None)\<rparr> in
      if nat idx = length fds - 1
      then Inr (pp1\<lparr>pp_pollfds := butlast fds\<rparr>, w)
      else let channelAtEnd = pf_fd (last fds);
               swapped = fds[nat idx := last fds, length fds - 1 := fds ! nat idx];
               channelAtEnd' = (if channelAtEnd < 0 then - channelAtEnd - 1 else channelAtEnd)
           in res_bind (PollPoller_setIndexAt channelAtEnd' idx pp1 w) (\<lambda>w1.
              Inr (pp1\<lparr>pp_pollfds := butlast swapped\<rparr>, w1))))))))))"

text \<open>
  \<^verbatim>\<open>poll\<close> writes the \<^verbatim>\<open>revents\<close> of the array; \<^verbatim>\<open>fillActiveChannels\<close> walks it until as many entries
  with events are seen as the kernel counted.
\<close>

fun PollPoller_fillActiveChannels ::
    "pollfd list \<Rightarrow> int \<Rightarrow> poll_poller \<Rightarrow> ptr list \<Rightarrow> 'z hworld_scheme \<Rightarrow>
     (ptr list \<times> 'z hworld_scheme) res" where
  "PollPoller_fillActiveChannels [] numEvents pp active w = Inr (active, w)"
| "PollPoller_fillActiveChannels (pfd # pfds) numEvents pp active w =
     (if numEvents > 0
      then if sint (pf_revents pfd) > 0
           then res_bind (cassert (pp_channels pp (pf_fd pfd) \<noteq> None) ''ch != channels_.end()'') (\<lambda>_.
                let p = the (pp_channels pp (pf_fd pfd)) in
                res_bind (chan_get p w) (\<lambda>c.
                res_bind (cassert (ch_fd c = pf_fd pfd) ''channel->fd() == pfd->fd'') (\<lambda>_.
                  PollPoller_fillActiveChannels pfds (numEvents - 1) pp (active @ [p])
                    (chan_put p (Channel_set_revents (scast (pf_revents pfd)) c) w))))
           else PollPoller_fillActiveChannels pfds numEvents pp active w
      else Inr (active, w))"

definition PollPoller_poll ::
    "int \<Rightarrow> poll_poller \<times> 'z hworld_scheme \<Rightarrow>
     (int \<times> ptr list \<times> poll_poller \<times> 'z hworld_scheme) res" where
  "PollPoller_poll timeoutMs st =
     (let (pp, w) = st;
          arg = map (\<lambda>f. (pf_fd f, pf_events f)) (pp_pollfds pp) in
      res_bind (sys (CallPoll arg timeoutMs) w) (\<lambda>(r, w1).
      res_bind (clock_now w1) (\<lambda>(now, w2).
      case r of
        SysErr e \<Rightarrow> Inr (now, [], pp, w2)
      | SysRevents n revs \<Rightarrow>
          if length revs \<noteq> length (pp_pollfds pp) then Inl Kernel
          else let fds = map2 (\<lambda>f rv. f\<lparr>pf_revents := rv\<rparr>) (pp_pollfds pp) revs;
                   pp' = pp\<lparr>pp_pollfds := fds\<rparr> in
               if n > 0
               then res_bind (PollPoller_fillActiveChannels fds n pp' [] w2) (\<lambda>(active, w3).
                    Inr (now, active, pp', w3))
               else Inr (now, [], pp', w2)
      | _ \<Rightarrow> Inl Kernel)))"


section \<open>Poller\<close>

datatype poller = Epoll epoll_poller | Poll poll_poller

definition Poller_newDefaultPoller :: "bool \<Rightarrow> 'z os_scheme \<Rightarrow> (poller \<times> 'z os_scheme) res" where
  "Poller_newDefaultPoller EPoll w =
     (if EPoll then res_bind (EpollPoller_new w) (\<lambda>(ep, w'). Inr (Epoll ep, w'))
      else Inr (Poll PollPoller_new, w))"

fun Poller_channels :: "poller \<Rightarrow> int \<Rightarrow> ptr option" where
  "Poller_channels (Epoll ep) = ep_channels ep"
| "Poller_channels (Poll pp) = pp_channels pp"

definition Poller_hasChannel ::
    "bool \<Rightarrow> ptr \<Rightarrow> poller \<times> 'z hworld_scheme \<Rightarrow> bool res" where
  "Poller_hasChannel inloop channel st =
     (let (po, w) = st in
      res_bind (assertInLoopThread inloop) (\<lambda>_.
      res_bind (chan_get channel w) (\<lambda>c.
        Inr (Poller_channels po (ch_fd c) = Some channel))))"

fun Poller_updateChannel ::
    "bool \<Rightarrow> ptr \<Rightarrow> poller \<times> 'z hworld_scheme \<Rightarrow> (poller \<times> 'z hworld_scheme) res" where
  "Poller_updateChannel inloop channel (Epoll ep, w) =
     res_bind (EpollPoller_updateChannel inloop channel (ep, w)) (\<lambda>(ep', w'). Inr (Epoll ep', w'))"
| "Poller_updateChannel inloop channel (Poll pp, w) =
     res_bind (PollPoller_updateChannel inloop channel (pp, w)) (\<lambda>(pp', w'). Inr (Poll pp', w'))"

fun Poller_removeChannel ::
    "bool \<Rightarrow> ptr \<Rightarrow> poller \<times> 'z hworld_scheme \<Rightarrow> (poller \<times> 'z hworld_scheme) res" where
  "Poller_removeChannel inloop channel (Epoll ep, w) =
     res_bind (EpollPoller_removeChannel inloop channel (ep, w)) (\<lambda>(ep', w'). Inr (Epoll ep', w'))"
| "Poller_removeChannel inloop channel (Poll pp, w) =
     res_bind (PollPoller_removeChannel inloop channel (pp, w)) (\<lambda>(pp', w'). Inr (Poll pp', w'))"

fun Poller_poll ::
    "bool \<Rightarrow> int \<Rightarrow> poller \<times> 'z hworld_scheme \<Rightarrow>
     (int \<times> ptr list \<times> poller \<times> 'z hworld_scheme) res" where
  "Poller_poll inloop timeoutMs (Epoll ep, w) =
     res_bind (EpollPoller_poll inloop timeoutMs (ep, w))
       (\<lambda>(now, active, ep', w'). Inr (now, active, Epoll ep', w'))"
| "Poller_poll inloop timeoutMs (Poll pp, w) =
     res_bind (PollPoller_poll timeoutMs (pp, w))
       (\<lambda>(now, active, pp', w'). Inr (now, active, Poll pp', w'))"


section \<open>Specification\<close>

text \<open>
  What the kernel watches. The interest list of an epoll instance follows from the \<^verbatim>\<open>epoll_ctl\<close>
  calls made on it (a failed \<^verbatim>\<open>ADD\<close> or \<^verbatim>\<open>MOD\<close> aborts the program, and \<^verbatim>\<open>DEL\<close> leaves the descriptor
  unwatched whether it succeeds or not) and from closing descriptors; that of \<^verbatim>\<open>poll\<close> is the array
  it is given, where negative descriptors are ignored.
\<close>

fun interest_step ::
    "int \<Rightarrow> sys_call \<Rightarrow> (int \<Rightarrow> (32 word \<times> ptr) option) \<Rightarrow> int \<Rightarrow> (32 word \<times> ptr) option" where
  "interest_step epfd (CallEpollCtl e op fd ev p) m =
     (if e = epfd then m(fd := (if op = EPOLL_CTL_DEL then None else Some (ev, p))) else m)"
| "interest_step epfd (CallClose fd) m = m(fd := None)"
| "interest_step epfd _ m = m"

definition kernel_interest :: "int \<Rightarrow> sys_call list \<Rightarrow> int \<Rightarrow> (32 word \<times> ptr) option" where
  "kernel_interest epfd tr = fold (interest_step epfd) tr (\<lambda>_. None)"

definition epoll_watch :: "epoll_poller \<times> 'z hworld_scheme \<Rightarrow> int \<Rightarrow> (32 word \<times> ptr) option" where
  "epoll_watch s = kernel_interest (ep_epollfd (fst s)) (trace (snd s))"

definition epoll_mask :: "epoll_poller \<times> 'z hworld_scheme \<Rightarrow> int \<Rightarrow> 32 word" where
  "epoll_mask s fd = (case epoll_watch s fd of None \<Rightarrow> 0 | Some (m, p) \<Rightarrow> m)"

definition poll_mask :: "poll_poller \<times> 'z hworld_scheme \<Rightarrow> int \<Rightarrow> 32 word" where
  "poll_mask s fd =
     (if fd < 0 then 0
      else case map_of (map (\<lambda>f. (pf_fd f, pf_events f)) (pp_pollfds (fst s))) fd of
             None \<Rightarrow> 0 | Some e \<Rightarrow> ucast e)"

text \<open>The descriptor an entry of the array stands for: disabled entries hold \<^verbatim>\<open>-fd - 1\<close>.\<close>

definition real_fd :: "pollfd \<Rightarrow> int" where
  "real_fd f = (if pf_fd f < 0 then - pf_fd f - 1 else pf_fd f)"

text \<open>
  The invariants. A registered channel of an epoll instance is in the kernel's list under its own
  address exactly when its index says so, and nothing else is in the list. Channels of a
  \<^verbatim>\<open>PollPoller\<close> and entries of its array correspond one to one through the index.
\<close>

definition epoll_entry ::
    "epoll_poller \<Rightarrow> 'z hworld_scheme \<Rightarrow> (32 word \<times> ptr) option \<Rightarrow> int \<Rightarrow> bool" where
  "epoll_entry ep w watch fd \<longleftrightarrow>
     (case ep_channels ep fd of
        None \<Rightarrow> watch = None
      | Some p \<Rightarrow>
          (case chans w p of
             None \<Rightarrow> False
           | Some c \<Rightarrow> ch_fd c = fd \<and> 0 \<le> fd \<and>
               (ch_index c = kAdded \<and> watch \<noteq> None \<and> snd (the watch) = p \<or>
                ch_index c = kDeleted \<and> watch = None)))"

definition epoll_inv :: "epoll_poller \<times> 'z hworld_scheme \<Rightarrow> bool" where
  "epoll_inv s \<longleftrightarrow>
     kNoneEvent (statics (snd s)) = 0 \<and>
     (\<forall>fd. epoll_entry (fst s) (snd s) (epoll_watch s fd) fd)"

definition poll_table ::
    "(int \<Rightarrow> ptr option) \<Rightarrow> (ptr \<Rightarrow> channel option) \<Rightarrow> int list \<Rightarrow> bool" where
  "poll_table tab ch fds \<longleftrightarrow>
     (\<forall>fd p. tab fd = Some p \<longrightarrow>
        (\<exists>c i. ch p = Some c \<and> ch_fd c = fd \<and> 0 \<le> fd \<and> ch_index c = int i \<and>
               i < length fds \<and> fds ! i = fd)) \<and>
     (\<forall>i < length fds. \<exists>p c. tab (fds ! i) = Some p \<and> ch p = Some c \<and> ch_index c = int i)"

definition poll_inv :: "poll_poller \<times> 'z hworld_scheme \<Rightarrow> bool" where
  "poll_inv s \<longleftrightarrow>
     kNoneEvent (statics (snd s)) = 0 \<and>
     poll_table (pp_channels (fst s)) (chans (snd s)) (map real_fd (pp_pollfds (fst s)))"

definition poll_parked :: "poll_poller \<times> 'z hworld_scheme \<Rightarrow> int \<Rightarrow> bool" where
  "poll_parked s fd \<longleftrightarrow>
     0 \<le> fd \<and> (\<exists>f \<in> set (pp_pollfds (fst s)). pf_fd f = - fd - 1 \<and> pf_events f = 0)"

definition poll_view :: "32 word \<Rightarrow> 32 word" where
  "poll_view m = ucast (ucast m :: 16 word)"

text \<open>Errors that come from the kernel and not from misuse of the poller.\<close>

fun external :: "error \<Rightarrow> bool" where
  "external (Fatal w) = True"
| "external Kernel = True"
| "external Blocked = True"
| "external _ = False"

text \<open>
  The operations of a client: a change of interest, as \<^verbatim>\<open>Channel::enableReading\<close> and its siblings with
  \<^verbatim>\<open>Channel::update\<close> make it, and \<^verbatim>\<open>Channel::remove\<close>.
\<close>

datatype reg_op = Change interest ptr | Drop ptr

fun reg_step ::
    "(ptr \<Rightarrow> 'p \<times> 'z hworld_scheme \<Rightarrow> ('p \<times> 'z hworld_scheme) res) \<Rightarrow>
     (ptr \<Rightarrow> 'p \<times> 'z hworld_scheme \<Rightarrow> ('p \<times> 'z hworld_scheme) res) \<Rightarrow>
     reg_op \<Rightarrow> 'p \<times> 'z hworld_scheme \<Rightarrow> ('p \<times> 'z hworld_scheme) res" where
  "reg_step upd rem (Change i p) (po, w) =
     res_bind (chan_get p w) (\<lambda>c.
       upd p (po, chan_put p (c\<lparr>ch_events := interest_mask (statics w) i (ch_events c),
                                ch_addedToLoop := True\<rparr>) w))"
| "reg_step upd rem (Drop p) (po, w) =
     res_bind (chan_get p w) (\<lambda>c.
     res_bind (cassert (Channel_isNoneEvent (statics w) c) ''isNoneEvent()'') (\<lambda>_.
       rem p (po, chan_put p (c\<lparr>ch_addedToLoop := False\<rparr>) w)))"

text \<open>
  The rules for a client: a change concerns a registered channel, or a new one whose descriptor is
  not registered and that asks for something; a channel is removed while registered and with no
  interest left.
\<close>

fun reg_legal ::
    "('p \<Rightarrow> int \<Rightarrow> ptr option) \<Rightarrow> reg_op \<Rightarrow> 'p \<times> 'z hworld_scheme \<Rightarrow> bool" where
  "reg_legal lookup (Change i p) (po, w) =
     (case chans w p of
        None \<Rightarrow> False
      | Some c \<Rightarrow> lookup po (ch_fd c) = Some p \<or>
                  lookup po (ch_fd c) = None \<and> ch_index c = -1 \<and> 0 \<le> ch_fd c \<and>
                  interest_mask (statics w) i (ch_events c) \<noteq> 0)"
| "reg_legal lookup (Drop p) (po, w) =
     (case chans w p of
        None \<Rightarrow> False
      | Some c \<Rightarrow> lookup po (ch_fd c) = Some p \<and> ch_events c = 0)"

fun reg_run ::
    "(ptr \<Rightarrow> 'p \<times> 'z hworld_scheme \<Rightarrow> ('p \<times> 'z hworld_scheme) res) \<Rightarrow>
     (ptr \<Rightarrow> 'p \<times> 'z hworld_scheme \<Rightarrow> ('p \<times> 'z hworld_scheme) res) \<Rightarrow>
     reg_op list \<Rightarrow> 'p \<times> 'z hworld_scheme \<Rightarrow> ('p \<times> 'z hworld_scheme) res" where
  "reg_run upd rem [] s = Inr s"
| "reg_run upd rem (op # ops) s = res_bind (reg_step upd rem op s) (reg_run upd rem ops)"

fun reg_legal_run ::
    "('p \<Rightarrow> int \<Rightarrow> ptr option) \<Rightarrow>
     (ptr \<Rightarrow> 'p \<times> 'z hworld_scheme \<Rightarrow> ('p \<times> 'z hworld_scheme) res) \<Rightarrow>
     (ptr \<Rightarrow> 'p \<times> 'z hworld_scheme \<Rightarrow> ('p \<times> 'z hworld_scheme) res) \<Rightarrow>
     reg_op list \<Rightarrow> 'p \<times> 'z hworld_scheme \<Rightarrow> bool" where
  "reg_legal_run lookup upd rem [] s = True"
| "reg_legal_run lookup upd rem (op # ops) s =
     (reg_legal lookup op s \<and>
      (case reg_step upd rem op s of Inl e \<Rightarrow> True | Inr s' \<Rightarrow> reg_legal_run lookup upd rem ops s'))"

text \<open>Two heaps with the same channels, up to their index.\<close>

definition same_chans :: "'z hworld_scheme \<Rightarrow> 'z hworld_scheme \<Rightarrow> bool" where
  "same_chans w w' \<longleftrightarrow>
     statics w' = statics w \<and> hworld.more w' = hworld.more w \<and>
     (\<forall>q. rel_option (\<lambda>c c'. c' = c\<lparr>ch_index := ch_index c'\<rparr>) (chans w q) (chans w' q))"


section \<open>The contract\<close>

text \<open>
  The laws a poller promises. \<open>lookup\<close> is the table \<^verbatim>\<open>channels_\<close>, \<open>mask\<close> what the kernel watches a
  descriptor for, \<open>view\<close> the part of an event mask the poller can express, \<open>parked\<close> what the poller
  needs of an entry before it is removed.
\<close>

locale poller_contract =
  fixes inv :: "'p \<times> 'z hworld_scheme \<Rightarrow> bool"
    and lookup :: "'p \<Rightarrow> int \<Rightarrow> ptr option"
    and mask :: "'p \<times> 'z hworld_scheme \<Rightarrow> int \<Rightarrow> 32 word"
    and parked :: "'p \<times> 'z hworld_scheme \<Rightarrow> int \<Rightarrow> bool"
    and view :: "'p \<Rightarrow> 32 word \<Rightarrow> 32 word"
    and upd :: "ptr \<Rightarrow> 'p \<times> 'z hworld_scheme \<Rightarrow> ('p \<times> 'z hworld_scheme) res"
    and rem :: "ptr \<Rightarrow> 'p \<times> 'z hworld_scheme \<Rightarrow> ('p \<times> 'z hworld_scheme) res"
  assumes none_zero: "inv (po, w) \<Longrightarrow> kNoneEvent (statics w) = 0"
    and registered:
      "inv (po, w) \<Longrightarrow> lookup po fd = Some p \<Longrightarrow> \<exists>c. chans w p = Some c \<and> ch_fd c = fd \<and> 0 \<le> fd"
    and unregistered: "inv (po, w) \<Longrightarrow> lookup po fd = None \<Longrightarrow> mask (po, w) fd = 0"
    and put:
      "inv (po, w) \<Longrightarrow> chans w p = Some c \<Longrightarrow> ch_fd c' = ch_fd c \<Longrightarrow> ch_index c' = ch_index c \<Longrightarrow>
       inv (po, chan_put p c' w) \<and> mask (po, chan_put p c' w) = mask (po, w) \<and>
       parked (po, chan_put p c' w) = parked (po, w)"
    and update:
      "inv (po, w) \<Longrightarrow> chans w p = Some c \<Longrightarrow>
       lookup po (ch_fd c) = Some p \<or>
         lookup po (ch_fd c) = None \<and> ch_index c = -1 \<and> 0 \<le> ch_fd c \<Longrightarrow>
       upd p (po, w) = Inr (po', w') \<Longrightarrow>
       inv (po', w') \<and> same_chans w w' \<and> view po' = view po \<and>
       lookup po' = (lookup po)(ch_fd c := Some p) \<and>
       mask (po', w') = (mask (po, w))(ch_fd c := view po (ch_events c)) \<and>
       (\<forall>fd. fd \<noteq> ch_fd c \<longrightarrow> parked (po', w') fd = parked (po, w) fd) \<and>
       (lookup po (ch_fd c) = Some p \<and> ch_events c = 0 \<longrightarrow> parked (po', w') (ch_fd c))"
    and update_error:
      "inv (po, w) \<Longrightarrow> chans w p = Some c \<Longrightarrow>
       lookup po (ch_fd c) = Some p \<or>
         lookup po (ch_fd c) = None \<and> ch_index c = -1 \<and> 0 \<le> ch_fd c \<Longrightarrow>
       upd p (po, w) = Inl e \<Longrightarrow> external e"
    and remove:
      "inv (po, w) \<Longrightarrow> chans w p = Some c \<Longrightarrow> lookup po (ch_fd c) = Some p \<Longrightarrow>
       ch_events c = 0 \<Longrightarrow> parked (po, w) (ch_fd c) \<Longrightarrow> rem p (po, w) = Inr (po', w') \<Longrightarrow>
       inv (po', w') \<and> same_chans w w' \<and> view po' = view po \<and>
       lookup po' = (lookup po)(ch_fd c := None) \<and>
       mask (po', w') = (mask (po, w))(ch_fd c := 0) \<and>
       (\<forall>fd. fd \<noteq> ch_fd c \<longrightarrow> parked (po', w') fd = parked (po, w) fd)"
    and remove_error:
      "inv (po, w) \<Longrightarrow> chans w p = Some c \<Longrightarrow> lookup po (ch_fd c) = Some p \<Longrightarrow>
       ch_events c = 0 \<Longrightarrow> parked (po, w) (ch_fd c) \<Longrightarrow> rem p (po, w) = Inl e \<Longrightarrow> external e"
begin

definition consistent :: "'p \<times> 'z hworld_scheme \<Rightarrow> bool" where
  "consistent s \<longleftrightarrow>
     inv s \<and>
     (\<forall>fd p c. lookup (fst s) fd = Some p \<longrightarrow> chans (snd s) p = Some c \<longrightarrow>
        mask s fd = view (fst s) (ch_events c) \<and> (ch_events c = 0 \<longrightarrow> parked s fd))"

lemma same_chansD:
  assumes "same_chans w w'" and "chans w' q = Some c'"
  shows "\<exists>c. chans w q = Some c \<and> c' = c\<lparr>ch_index := ch_index c'\<rparr>"
proof -
  have "rel_option (\<lambda>c c'. c' = c\<lparr>ch_index := ch_index c'\<rparr>) (chans w q) (chans w' q)"
    using assms(1) unfolding same_chans_def by blast
  then show ?thesis
    using assms(2) by (cases "chans w q") auto
qed

lemma same_chans_events:
  assumes "same_chans w w'" and "chans w' q = Some c'"
  shows "\<exists>c. chans w q = Some c \<and> ch_events c' = ch_events c"
proof -
  obtain c where "chans w q = Some c" and "c' = c\<lparr>ch_index := ch_index c'\<rparr>"
    using same_chansD[OF assms] by blast
  then show ?thesis
    by (metis channel.select_convs(3) channel.surjective channel.update_convs(5))
qed

lemma consistent_frame:
  assumes cons: "consistent (po, w)" and c: "chans w p = Some c"
    and inv': "inv (po', w')" and sc: "same_chans (chan_put p d w) w'" and vw: "view po' = view po"
    and lk: "\<And>g. g \<noteq> ch_fd c \<Longrightarrow> lookup po' g = lookup po g"
    and mk: "\<And>g. g \<noteq> ch_fd c \<Longrightarrow> mask (po', w') g = mask (po, w) g"
    and pk: "\<And>g. g \<noteq> ch_fd c \<Longrightarrow> parked (po', w') g = parked (po, w) g"
    and new: "\<And>q. lookup po' (ch_fd c) = Some q \<Longrightarrow>
      q = p \<and> mask (po', w') (ch_fd c) = view po (ch_events d) \<and>
      (ch_events d = 0 \<longrightarrow> parked (po', w') (ch_fd c))"
  shows "consistent (po', w')"
proof -
  have "mask (po', w') g = view po' (ch_events e') \<and> (ch_events e' = 0 \<longrightarrow> parked (po', w') g)"
    if l: "lookup po' g = Some q" and q: "chans w' q = Some e'" for g q e'
  proof -
    obtain e where e: "chans (chan_put p d w) q = Some e" and ev: "ch_events e' = ch_events e"
      using same_chans_events[OF sc q] by blast
    show ?thesis
    proof (cases "g = ch_fd c")
      case True
      then show ?thesis
        using new[of q] l e ev vw by (auto simp: chan_put_def)
    next
      case False
      then have l0: "lookup po g = Some q"
        using l lk by simp
      moreover have "q \<noteq> p"
        using registered[of po w g q] cons l0 c False by (auto simp: consistent_def)
      ultimately show ?thesis
        using cons e ev vw mk[OF False] pk[OF False] by (auto simp: consistent_def chan_put_def)
    qed
  qed
  then show ?thesis
    using inv' by (auto simp: consistent_def)
qed

lemma change_step:
  assumes cons: "consistent (po, w)" and legal: "reg_legal lookup (Change i p) (po, w)"
  shows "case reg_step upd rem (Change i p) (po, w) of
           Inl e \<Rightarrow> external e | Inr s' \<Rightarrow> consistent s'"
proof -
  obtain c where c: "chans w p = Some c"
      and ok: "lookup po (ch_fd c) = Some p \<or>
               lookup po (ch_fd c) = None \<and> ch_index c = -1 \<and> 0 \<le> ch_fd c \<and>
               interest_mask (statics w) i (ch_events c) \<noteq> 0"
    using legal by (auto split: option.splits)
  define d where "d = c\<lparr>ch_events := interest_mask (statics w) i (ch_events c),
                        ch_addedToLoop := True\<rparr>"
  have inv: "inv (po, w)"
    using cons by (simp add: consistent_def)
  have P: "inv (po, chan_put p d w)" "mask (po, chan_put p d w) = mask (po, w)"
      "parked (po, chan_put p d w) = parked (po, w)"
    using put[OF inv c, of d] by (simp_all add: d_def)
  have d: "chans (chan_put p d w) p = Some d" "ch_fd d = ch_fd c"
    by (simp_all add: chan_put_def d_def)
  have ok': "lookup po (ch_fd d) = Some p \<or>
        lookup po (ch_fd d) = None \<and> ch_index d = -1 \<and> 0 \<le> ch_fd d"
    using ok by (auto simp: d_def)
  have zero: "ch_events d = 0 \<Longrightarrow> lookup po (ch_fd c) = Some p"
    using ok by (auto simp: d_def)
  have step: "reg_step upd rem (Change i p) (po, w) = upd p (po, chan_put p d w)"
    using c by (simp add: chan_get_def d_def)
  show ?thesis
  proof (cases "upd p (po, chan_put p d w)")
    case (Inl e)
    then show ?thesis
      using update_error[OF P(1) d(1) ok'] step by simp
  next
    case (Inr s')
    obtain po' w' where s': "s' = (po', w')"
      by (cases s')
    note U = update[OF P(1) d(1) ok' Inr[unfolded s']]
    have "consistent (po', w')"
      by (rule consistent_frame[OF cons c, of po' w' d]) (use U P d zero in auto)
    then show ?thesis
      using step Inr s' by simp
  qed
qed

lemma drop_step:
  assumes cons: "consistent (po, w)" and legal: "reg_legal lookup (Drop p) (po, w)"
  shows "case reg_step upd rem (Drop p) (po, w) of
           Inl e \<Rightarrow> external e | Inr s' \<Rightarrow> consistent s'"
proof -
  obtain c where c: "chans w p = Some c" and l: "lookup po (ch_fd c) = Some p"
      and z: "ch_events c = 0"
    using legal by (auto split: option.splits)
  define d where "d = c\<lparr>ch_addedToLoop := False\<rparr>"
  have inv: "inv (po, w)"
    using cons by (simp add: consistent_def)
  have P: "inv (po, chan_put p d w)" "mask (po, chan_put p d w) = mask (po, w)"
      "parked (po, chan_put p d w) = parked (po, w)"
    using put[OF inv c, of d] by (simp_all add: d_def)
  have d: "chans (chan_put p d w) p = Some d" "ch_fd d = ch_fd c" "ch_events d = 0"
    by (simp_all add: chan_put_def d_def z)
  have l': "lookup po (ch_fd d) = Some p" and pk: "parked (po, chan_put p d w) (ch_fd d)"
    using cons l c z d P by (auto simp: consistent_def)
  have step: "reg_step upd rem (Drop p) (po, w) = rem p (po, chan_put p d w)"
    using c none_zero[OF inv] z by (simp add: chan_get_def d_def Channel_isNoneEvent_def)
  show ?thesis
  proof (cases "rem p (po, chan_put p d w)")
    case (Inl e)
    then show ?thesis
      using remove_error[OF P(1) d(1) l' d(3) pk] step by simp
  next
    case (Inr s')
    obtain po' w' where s': "s' = (po', w')"
      by (cases s')
    note R = remove[OF P(1) d(1) l' d(3) pk Inr[unfolded s']]
    have "consistent (po', w')"
      by (rule consistent_frame[OF cons c, of po' w' d]) (use R P d in auto)
    then show ?thesis
      using step Inr s' by simp
  qed
qed

lemma run_consistent:
  assumes "consistent s" and "reg_legal_run lookup upd rem ops s"
  shows "case reg_run upd rem ops s of Inl e \<Rightarrow> external e | Inr s' \<Rightarrow> consistent s'"
  using assms
proof (induction ops arbitrary: s)
  case (Cons op ops)
  obtain po w where s: "s = (po, w)"
    by (cases s)
  have "case reg_step upd rem op s of Inl e \<Rightarrow> external e | Inr s' \<Rightarrow> consistent s'"
    using Cons.prems change_step drop_step by (cases op) (auto simp: s simp del: reg_step.simps)
  then show ?case
    using Cons by (cases "reg_step upd rem op s") auto
qed simp

lemma consistent_put:
  assumes cons: "consistent (po, w)" and c: "chans w p = Some c"
    and same: "ch_fd c' = ch_fd c" "ch_index c' = ch_index c" "ch_events c' = ch_events c"
  shows "consistent (po, chan_put p c' w)"
proof -
  have inv: "inv (po, w)"
    using cons by (simp add: consistent_def)
  note P = put[OF inv c same(1,2)]
  have "mask (po, w) fd = view po (ch_events e) \<and> (ch_events e = 0 \<longrightarrow> parked (po, w) fd)"
    if "lookup po fd = Some q" and e: "chans (chan_put p c' w) q = Some e" for fd q e
  proof -
    obtain e0 where "chans w q = Some e0" and "ch_events e = ch_events e0"
      using e c same(3) by (cases "q = p") (auto simp: chan_put_def)
    then show ?thesis
      using cons that(1) by (auto simp: consistent_def)
  qed
  then show ?thesis
    using P by (simp add: consistent_def)
qed

lemma consistent_mask:
  assumes "consistent (po, w)"
  shows "mask (po, w) fd =
     (case lookup po fd of
        None \<Rightarrow> 0
      | Some p \<Rightarrow> (case chans w p of None \<Rightarrow> 0 | Some c \<Rightarrow> view po (ch_events c)))"
  using assms registered[of po w fd] unregistered[of po w fd]
  by (auto simp: consistent_def split: option.splits)

end


section \<open>EpollPoller fulfils the contract\<close>

lemma chan_put_simps [simp]:
  "chans (chan_put p c w) = (chans w)(p := Some c)" "statics (chan_put p c w) = statics w"
  "trace (chan_put p c w) = trace w" "tape (chan_put p c w) = tape w"
  "hworld.more (chan_put p c w) = hworld.more w"
  by (simp_all add: chan_put_def)

lemma chan_get_Some [simp]: "chans w p = Some c \<Longrightarrow> chan_get p w = Inr c"
  by (simp add: chan_get_def)

lemma channel_index_simps [simp]:
  "ch_fd (Channel_set_index i c) = ch_fd c" "ch_events (Channel_set_index i c) = ch_events c"
  "ch_index (Channel_set_index i c) = i"
  by (simp_all add: Channel_set_index_def)

lemma assertInLoopThread_True [simp]: "assertInLoopThread True = Inr ()"
  by (simp add: assertInLoopThread_def)

lemma index_values [simp]:
  "kNew \<noteq> kAdded" "kNew \<noteq> kDeleted" "kAdded \<noteq> kNew" "kAdded \<noteq> kDeleted" "kDeleted \<noteq> kNew"
  "kDeleted \<noteq> kAdded"
  by (simp_all add: kNew_def kAdded_def kDeleted_def)

lemma kernel_interest_append [simp]:
  "kernel_interest epfd (tr @ cs) = fold (interest_step epfd) cs (kernel_interest epfd tr)"
  by (simp add: kernel_interest_def)

lemma same_chans_refl: "same_chans w w"
  by (simp add: same_chans_def option.rel_refl)

lemma same_chans_set_index:
  assumes "chans w p = Some c" and "statics w' = statics w" and "hworld.more w' = hworld.more w"
    and "chans w' = (chans w)(p := Some (Channel_set_index i c))"
  shows "same_chans w w'"
  using assms by (auto simp: same_chans_def Channel_set_index_def option.rel_refl)

lemma EpollPoller_update_Inr:
  assumes "chans w p = Some c" and "EpollPoller_update op p ep w = Inr w'"
  shows "\<exists>rs. w' = w\<lparr>tape := rs,
           trace := trace w @ [CallEpollCtl (ep_epollfd ep) op (ch_fd c) (ch_events c) p]\<rparr>"
  using assms by (auto simp: EpollPoller_update_def sys_int_Inr res_bind_eq_Inr split: if_splits)

lemma sys_int_Inl: "sys_int c w = Inl e \<Longrightarrow> e = Kernel \<or> e = Blocked"
  by (auto simp: sys_int_def sys_def res_bind_eq_Inl split: list.splits sys_ret.splits if_splits)

lemma EpollPoller_update_Inl:
  assumes "chans w p = Some c" and "EpollPoller_update op p ep w = Inl e"
  shows "external e"
  using assms by (auto simp: EpollPoller_update_def res_bind_eq_Inl dest: sys_int_Inl split: if_splits)

lemma epoll_registered:
  assumes "epoll_inv (ep, w)" and "ep_channels ep fd = Some p"
  shows "\<exists>c. chans w p = Some c \<and> ch_fd c = fd \<and> 0 \<le> fd"
proof -
  have "epoll_entry ep w (epoll_watch (ep, w) fd) fd"
    using assms(1) by (simp add: epoll_inv_def)
  then show ?thesis
    using assms(2) by (auto simp: epoll_entry_def split: option.splits)
qed

text \<open>One channel changes its index and its place in the kernel's list; the rest stays.\<close>

lemma epoll_inv_change:
  assumes inv: "epoll_inv (ep, w)" and c: "chans w p = Some c"
    and ch: "ep_channels ep' = (ep_channels ep)(ch_fd c := reg)"
    and st: "statics w' = statics w"
    and oth: "\<And>q. q \<noteq> p \<Longrightarrow> chans w' q = chans w q"
    and wt: "epoll_watch (ep', w') = (epoll_watch (ep, w))(ch_fd c := wa)"
    and new: "epoll_entry ep' w' wa (ch_fd c)"
  shows "epoll_inv (ep', w')"
proof -
  have "epoll_entry ep' w' (epoll_watch (ep', w') g) g" for g
  proof (cases "g = ch_fd c")
    case True
    then show ?thesis
      using new by (simp add: wt)
  next
    case False
    have "epoll_entry ep w (epoll_watch (ep, w) g) g"
      using inv by (simp add: epoll_inv_def)
    moreover have "q \<noteq> p" if "ep_channels ep g = Some q" for q
      using epoll_registered[OF inv that] c False by auto
    ultimately show ?thesis
      using False oth by (auto simp: ch wt epoll_entry_def split: option.splits)
  qed
  then show ?thesis
    using inv st by (simp add: epoll_inv_def)
qed

lemma epoll_watch_ctl:
  "epoll_watch (ep', w\<lparr>tape := rs, trace := trace w @
       [CallEpollCtl (ep_epollfd ep) op fd ev p]\<rparr>) =
   (if ep_epollfd ep' = ep_epollfd ep
    then (epoll_watch (ep, w))(fd := (if op = EPOLL_CTL_DEL then None else Some (ev, p)))
    else kernel_interest (ep_epollfd ep') (trace w))"
  by (auto simp: epoll_watch_def)

lemma epoll_put:
  assumes "epoll_inv (ep, w)" and "chans w p = Some c" and "ch_fd c' = ch_fd c"
    and "ch_index c' = ch_index c"
  shows "epoll_inv (ep, chan_put p c' w)"
proof -
  have "epoll_entry ep (chan_put p c' w) (epoll_watch (ep, w) g) g" for g
  proof -
    have "epoll_entry ep w (epoll_watch (ep, w) g) g"
      using assms by (simp add: epoll_inv_def)
    then show ?thesis
      using assms(2-4) by (auto simp: epoll_entry_def split: option.splits)
  qed
  then show ?thesis
    using assms(1) by (simp add: epoll_inv_def epoll_watch_def)
qed

lemma chan_put_sys:
  "chan_put p c (w\<lparr>tape := rs, trace := t\<rparr>) = (chan_put p c w)\<lparr>tape := rs, trace := t\<rparr>"
  by (cases w) (simp add: chan_put_def)

lemma epoll_index_cases:
  assumes inv: "epoll_inv (ep, w)" and c: "chans w p = Some c"
    and ok: "ep_channels ep (ch_fd c) = Some p \<or>
             ep_channels ep (ch_fd c) = None \<and> ch_index c = -1 \<and> 0 \<le> ch_fd c"
  obtains "ch_index c = kNew" and "ep_channels ep (ch_fd c) = None" and "0 \<le> ch_fd c"
  | "ch_index c = kDeleted" and "ep_channels ep (ch_fd c) = Some p" and "0 \<le> ch_fd c"
  | "ch_index c = kAdded" and "ep_channels ep (ch_fd c) = Some p" and "0 \<le> ch_fd c"
proof -
  have "epoll_entry ep w (epoll_watch (ep, w) (ch_fd c)) (ch_fd c)"
    using inv by (simp add: epoll_inv_def)
  then show ?thesis
    using ok c that by (auto simp: epoll_entry_def kNew_def)
qed

lemma epoll_update_outcome:
  assumes inv: "epoll_inv (ep, w)" and c: "chans w p = Some c"
    and ok: "ep_channels ep (ch_fd c) = Some p \<or>
             ep_channels ep (ch_fd c) = None \<and> ch_index c = -1 \<and> 0 \<le> ch_fd c"
    and run: "EpollPoller_updateChannel True p (ep, w) = Inr (ep', w')"
  shows "\<exists>op i rs. ep' = ep\<lparr>ep_channels := (ep_channels ep)(ch_fd c := Some p)\<rparr> \<and>
     w' = (chan_put p (Channel_set_index i c) w)\<lparr>tape := rs,
       trace := trace w @ [CallEpollCtl (ep_epollfd ep) op (ch_fd c) (ch_events c) p]\<rparr> \<and>
     0 \<le> ch_fd c \<and>
     (op = EPOLL_CTL_DEL \<and> i = kDeleted \<and> ch_events c = 0 \<or> op \<noteq> EPOLL_CTL_DEL \<and> i = kAdded)"
  using inv c ok
proof (cases rule: epoll_index_cases)
  case 1
  let ?ep = "ep\<lparr>ep_channels := (ep_channels ep)(ch_fd c := Some p)\<rparr>"
  let ?w = "chan_put p (Channel_set_index kAdded c) w"
  have up: "EpollPoller_update EPOLL_CTL_ADD p ?ep ?w = Inr w'" and "ep' = ?ep"
    using run 1 c by (auto simp: EpollPoller_updateChannel_def res_bind_eq_Inr Let_def)
  then show ?thesis
    using EpollPoller_update_Inr[OF _ up] 1 by (intro exI[of _ EPOLL_CTL_ADD] exI[of _ kAdded]) auto
next
  case 2
  let ?w = "chan_put p (Channel_set_index kAdded c) w"
  have up: "EpollPoller_update EPOLL_CTL_ADD p ep ?w = Inr w'" and "ep' = ep"
    using run 2 c by (auto simp: EpollPoller_updateChannel_def res_bind_eq_Inr Let_def)
  then show ?thesis
    using EpollPoller_update_Inr[OF _ up] 2
    by (intro exI[of _ EPOLL_CTL_ADD] exI[of _ kAdded]) (auto simp: fun_upd_idem)
next
  case 3
  have none: "kNoneEvent (statics w) = 0"
    using inv by (simp add: epoll_inv_def)
  show ?thesis
  proof (cases "ch_events c = 0")
    case True
    obtain w1 where up: "EpollPoller_update EPOLL_CTL_DEL p ep w = Inr w1"
      using run 3 c True none
      by (auto simp: EpollPoller_updateChannel_def res_bind_eq_Inr Let_def Channel_isNoneEvent_def)
    then show ?thesis
      using EpollPoller_update_Inr[OF c up] run 3 c True none
      by (intro exI[of _ EPOLL_CTL_DEL] exI[of _ kDeleted])
        (auto simp: EpollPoller_updateChannel_def Let_def Channel_isNoneEvent_def fun_upd_idem
          chan_put_sys)
  next
    case False
    have up: "EpollPoller_update EPOLL_CTL_MOD p ep w = Inr w'" and "ep' = ep"
      using run 3 c False none
      by (auto simp: EpollPoller_updateChannel_def res_bind_eq_Inr Let_def Channel_isNoneEvent_def)
    moreover have "Channel_set_index kAdded c = c" and "(chans w)(p \<mapsto> c) = chans w"
      using 3 c by (auto simp: Channel_set_index_def)
    ultimately show ?thesis
      using EpollPoller_update_Inr[OF c up] 3
      by (intro exI[of _ EPOLL_CTL_MOD] exI[of _ kAdded]) (auto simp: fun_upd_idem chan_put_def)
  qed
qed

lemma epoll_update_error:
  assumes inv: "epoll_inv (ep, w)" and c: "chans w p = Some c"
    and ok: "ep_channels ep (ch_fd c) = Some p \<or>
             ep_channels ep (ch_fd c) = None \<and> ch_index c = -1 \<and> 0 \<le> ch_fd c"
    and run: "EpollPoller_updateChannel True p (ep, w) = Inl e"
  shows "external e"
  using inv c ok
proof (cases rule: epoll_index_cases)
  case 1
  then show ?thesis
    using run c EpollPoller_update_Inl[of "chan_put p (Channel_set_index kAdded c) w" p]
    by (auto simp: EpollPoller_updateChannel_def res_bind_eq_Inl Let_def)
next
  case 2
  then show ?thesis
    using run c EpollPoller_update_Inl[of "chan_put p (Channel_set_index kAdded c) w" p]
    by (auto simp: EpollPoller_updateChannel_def res_bind_eq_Inl Let_def)
next
  case 3
  show ?thesis
  proof (cases "EpollPoller_update EPOLL_CTL_DEL p ep w")
    case (Inl e')
    then show ?thesis
      using run 3 c EpollPoller_update_Inl[OF c]
      by (auto simp: EpollPoller_updateChannel_def res_bind_eq_Inl Let_def split: if_splits)
  next
    case (Inr w1)
    then show ?thesis
      using run 3 c EpollPoller_update_Inl[OF c] EpollPoller_update_Inr[OF c Inr]
      by (auto simp: EpollPoller_updateChannel_def res_bind_eq_Inl Let_def split: if_splits)
  qed
qed

lemma epoll_remove_outcome:
  assumes c: "chans w p = Some c"
    and run: "EpollPoller_removeChannel True p (ep, w) = Inr (ep', w')"
  shows "\<exists>rs tr. ep' = ep\<lparr>ep_channels := (ep_channels ep)(ch_fd c := None)\<rparr> \<and>
     w' = (chan_put p (Channel_set_index kDeleted c) w)\<lparr>tape := rs, trace := trace w @ tr\<rparr> \<and>
     tr = (if ch_index c = kAdded
           then [CallEpollCtl (ep_epollfd ep) EPOLL_CTL_DEL (ch_fd c) (ch_events c) p] else [])"
proof (cases "ch_index c = kAdded")
  case True
  let ?ep = "ep\<lparr>ep_channels := (ep_channels ep)(ch_fd c := None)\<rparr>"
  obtain w1 where up: "EpollPoller_update EPOLL_CTL_DEL p ?ep w = Inr w1"
    using run True c by (auto simp: EpollPoller_removeChannel_def res_bind_eq_Inr Let_def)
  then show ?thesis
    using EpollPoller_update_Inr[OF c up] run True c
    by (auto simp: EpollPoller_removeChannel_def Let_def chan_put_sys)
next
  case False
  then show ?thesis
    using run c by (auto simp: EpollPoller_removeChannel_def Let_def intro!: exI[of _ "tape w"])
qed

lemma epoll_remove_error:
  assumes c: "chans w p = Some c"
    and run: "EpollPoller_removeChannel True p (ep, w) = Inl e"
  shows "external e"
proof (cases "EpollPoller_update EPOLL_CTL_DEL p
    (ep\<lparr>ep_channels := (ep_channels ep)(ch_fd c := None)\<rparr>) w")
  case (Inl e')
  then show ?thesis
    using run c EpollPoller_update_Inl[OF c Inl]
    by (auto simp: EpollPoller_removeChannel_def res_bind_eq_Inl Let_def split: if_splits)
next
  case (Inr w1)
  then show ?thesis
    using run c EpollPoller_update_Inr[OF c Inr]
    by (auto simp: EpollPoller_removeChannel_def res_bind_eq_Inl Let_def split: if_splits)
qed

lemma epoll_update_law:
  assumes inv: "epoll_inv (ep, w)" and c: "chans w p = Some c"
    and ok: "ep_channels ep (ch_fd c) = Some p \<or>
             ep_channels ep (ch_fd c) = None \<and> ch_index c = -1 \<and> 0 \<le> ch_fd c"
    and run: "EpollPoller_updateChannel True p (ep, w) = Inr (ep', w')"
  shows "epoll_inv (ep', w') \<and> same_chans w w' \<and>
     ep_channels ep' = (ep_channels ep)(ch_fd c := Some p) \<and>
     epoll_mask (ep', w') = (epoll_mask (ep, w))(ch_fd c := ch_events c)"
proof -
  obtain op i rs where ep': "ep' = ep\<lparr>ep_channels := (ep_channels ep)(ch_fd c := Some p)\<rparr>"
    and w': "w' = (chan_put p (Channel_set_index i c) w)\<lparr>tape := rs,
       trace := trace w @ [CallEpollCtl (ep_epollfd ep) op (ch_fd c) (ch_events c) p]\<rparr>"
    and io: "0 \<le> ch_fd c"
      "op = EPOLL_CTL_DEL \<and> i = kDeleted \<and> ch_events c = 0 \<or> op \<noteq> EPOLL_CTL_DEL \<and> i = kAdded"
    using epoll_update_outcome[OF assms] by blast
  let ?wa = "if op = EPOLL_CTL_DEL then None else Some (ch_events c, p)"
  have wt: "epoll_watch (ep', w') = (epoll_watch (ep, w))(ch_fd c := ?wa)"
    by (simp add: ep' w' epoll_watch_def)
  have new: "epoll_entry ep' w' ?wa (ch_fd c)"
    using io by (auto simp: epoll_entry_def ep' w')
  have "epoll_inv (ep', w')"
    using epoll_inv_change[OF inv c _ _ _ wt new] by (simp add: ep' w')
  moreover have "same_chans w w'"
    by (rule same_chans_set_index[OF c]) (simp_all add: w')
  moreover have "epoll_mask (ep', w') = (epoll_mask (ep, w))(ch_fd c := ch_events c)"
    using io by (auto simp: epoll_mask_def wt)
  ultimately show ?thesis
    by (simp add: ep')
qed

lemma epoll_remove_law:
  assumes inv: "epoll_inv (ep, w)" and c: "chans w p = Some c"
    and reg: "ep_channels ep (ch_fd c) = Some p"
    and run: "EpollPoller_removeChannel True p (ep, w) = Inr (ep', w')"
  shows "epoll_inv (ep', w') \<and> same_chans w w' \<and>
     ep_channels ep' = (ep_channels ep)(ch_fd c := None) \<and>
     epoll_mask (ep', w') = (epoll_mask (ep, w))(ch_fd c := 0)"
proof -
  have en: "epoll_entry ep w (epoll_watch (ep, w) (ch_fd c)) (ch_fd c)"
    using inv by (simp add: epoll_inv_def)
  obtain rs tr where ep': "ep' = ep\<lparr>ep_channels := (ep_channels ep)(ch_fd c := None)\<rparr>"
    and w': "w' = (chan_put p (Channel_set_index kDeleted c) w)\<lparr>tape := rs, trace := trace w @ tr\<rparr>"
    and tr: "tr = (if ch_index c = kAdded
       then [CallEpollCtl (ep_epollfd ep) EPOLL_CTL_DEL (ch_fd c) (ch_events c) p] else [])"
    using epoll_remove_outcome[OF c run] by blast
  have wt: "epoll_watch (ep', w') = (epoll_watch (ep, w))(ch_fd c := None)"
    using en c reg by (auto simp: ep' w' tr epoll_watch_def epoll_entry_def fun_eq_iff)
  have "epoll_inv (ep', w')"
    by (rule epoll_inv_change[OF inv c _ _ _ wt, of None]) (simp_all add: ep' w' epoll_entry_def)
  moreover have "same_chans w w'"
    by (rule same_chans_set_index[OF c]) (simp_all add: w')
  moreover have "epoll_mask (ep', w') = (epoll_mask (ep, w))(ch_fd c := 0)"
    by (auto simp: epoll_mask_def wt)
  ultimately show ?thesis
    by (simp add: ep')
qed

lemma epoll_unregistered:
  assumes "epoll_inv (ep, w)" and "ep_channels ep fd = None"
  shows "epoll_watch (ep, w) fd = None"
proof -
  have "epoll_entry ep w (epoll_watch (ep, w) fd) fd"
    using assms(1) by (simp add: epoll_inv_def)
  then show ?thesis
    using assms(2) by (simp add: epoll_entry_def)
qed

interpretation ep: poller_contract epoll_inv ep_channels epoll_mask "\<lambda>_ _. True" "\<lambda>_ m. m"
  "EpollPoller_updateChannel True" "EpollPoller_removeChannel True"
proof (unfold_locales, goal_cases)
  case (1 po w)
  then show ?case by (simp add: epoll_inv_def)
next
  case 2
  then show ?case by (rule epoll_registered)
next
  case 3
  then show ?case by (simp add: epoll_mask_def epoll_unregistered)
next
  case 4
  then show ?case by (auto intro: epoll_put simp: epoll_mask_def epoll_watch_def)
next
  case 5
  then show ?case by (auto dest: epoll_update_law)
next
  case 6
  then show ?case by (rule epoll_update_error)
next
  case 7
  then show ?case by (auto dest: epoll_remove_law)
next
  case 8
  then show ?case by (blast intro: epoll_remove_error)
qed

end
