(* ===== verification/Poller_Laws.thy ===== *)
theory Poller_Laws
  imports Pollers
begin

text \<open>
  \<^verbatim>\<open>PollPoller\<close> fulfils the contract of \<open>Pollers\<close>: the bookkeeping of its array, with the swap-and-pop
  of \<^verbatim>\<open>removeChannel\<close>. The interpretation for the dispatching \<open>Poller\<close> follows from the two pollers, and
  with it the properties the event loop relies on, and what \<^verbatim>\<open>poll\<close> returns.
\<close>

section \<open>The table\<close>

lemma poll_tableD:
  assumes "poll_table tab ch fds" and "tab fd = Some p"
  obtains c i where "ch p = Some c" and "ch_fd c = fd" and "0 \<le> fd" and "ch_index c = int i"
    and "i < length fds" and "fds ! i = fd"
  using assms unfolding poll_table_def by blast

lemma poll_table_nth:
  assumes "poll_table tab ch fds" and "i < length fds"
  obtains p c where "tab (fds ! i) = Some p" and "ch p = Some c" and "ch_index c = int i"
    and "ch_fd c = fds ! i" and "0 \<le> fds ! i"
proof -
  obtain p c where "tab (fds ! i) = Some p" and "ch p = Some c" and "ch_index c = int i"
    using assms unfolding poll_table_def by blast
  moreover from this have "ch_fd c = fds ! i \<and> 0 \<le> fds ! i"
    using poll_tableD[OF assms(1)] by (metis option.inject)
  ultimately show ?thesis
    using that by blast
qed

lemma poll_table_distinct:
  assumes "poll_table tab ch fds"
  shows "distinct fds"
  unfolding distinct_conv_nth
proof (intro allI impI)
  fix i j
  assume "i < length fds" and "j < length fds" and "i \<noteq> j"
  then show "fds ! i \<noteq> fds ! j"
    by (metis assms poll_table_nth of_nat_eq_iff option.inject)
qed

lemma poll_table_put:
  assumes "poll_table tab ch fds" and "ch p = Some c" and "ch_fd c' = ch_fd c"
    and "ch_index c' = ch_index c"
  shows "poll_table tab (ch(p := Some c')) fds"
proof -
  have live: "\<exists>d. (ch(p := Some c')) q = Some d \<and> ch_fd d = ch_fd e \<and> ch_index d = ch_index e"
    if "ch q = Some e" for q e
    using that assms(2-4) by auto
  show ?thesis
    unfolding poll_table_def
  proof (intro conjI allI impI)
    fix fd q
    assume "tab fd = Some q"
    then obtain e i where e: "ch q = Some e" "ch_fd e = fd" "0 \<le> fd" "ch_index e = int i"
        "i < length fds" "fds ! i = fd"
      using poll_tableD[OF assms(1)] by metis
    then show "\<exists>d i. (ch(p := Some c')) q = Some d \<and> ch_fd d = fd \<and> 0 \<le> fd \<and>
        ch_index d = int i \<and> i < length fds \<and> fds ! i = fd"
      using live[OF e(1)] by fastforce
  next
    fix i
    assume "i < length fds"
    then obtain q e where e: "tab (fds ! i) = Some q" "ch q = Some e" "ch_index e = int i"
      using poll_table_nth[OF assms(1)] by metis
    then show "\<exists>q d. tab (fds ! i) = Some q \<and> (ch(p := Some c')) q = Some d \<and> ch_index d = int i"
      using live[OF e(2)] by fastforce
  qed
qed

lemma poll_table_push:
  assumes T: "poll_table tab ch fds" and p: "ch p = Some c" and fd: "ch_fd c = fd" "0 \<le> fd"
    and free: "tab fd = None"
  shows "poll_table (tab(fd := Some p))
           (ch(p := Some (Channel_set_index (int (length fds)) c))) (fds @ [fd])"
proof -
  have np: "q \<noteq> p" if "tab g = Some q" for g q
    using poll_tableD[OF T that] p fd free that by (metis option.distinct(1) option.inject)
  have "\<exists>d i. (ch(p := Some (Channel_set_index (int (length fds)) c))) q = Some d \<and> ch_fd d = g \<and>
          0 \<le> g \<and> ch_index d = int i \<and> i < length (fds @ [fd]) \<and> (fds @ [fd]) ! i = g"
    if q: "(tab(fd := Some p)) g = Some q" for g q
  proof (cases "g = fd")
    case True
    then show ?thesis
      using q fd by (auto intro!: exI[of _ "length fds"])
  next
    case False
    then have "tab g = Some q"
      using q by simp
    then show ?thesis
      using poll_tableD[OF T, of g q] np by (metis fun_upd_other length_append less_Suc_eq
          list.size(3,4) add_Suc_right add_0_right nth_append)
  qed
  moreover have "\<exists>q d. (tab(fd := Some p)) ((fds @ [fd]) ! i) = Some q \<and>
       (ch(p := Some (Channel_set_index (int (length fds)) c))) q = Some d \<and> ch_index d = int i"
    if "i < length (fds @ [fd])" for i
  proof (cases "i < length fds")
    case True
    then obtain q d where "tab (fds ! i) = Some q" "ch q = Some d" "ch_index d = int i"
      using poll_table_nth[OF T] by metis
    then show ?thesis
      using True free np by (auto simp: nth_append intro!: exI[of _ q] exI[of _ d])
  next
    case False
    then have "i = length fds"
      using that by simp
    then show ?thesis
      by simp
  qed
  ultimately show ?thesis
    unfolding poll_table_def by blast
qed

text \<open>
  Removal: the last entry moves into the place that becomes free, its channel learns the new index,
  and the array loses its last place. When the removed entry is the last one this moves nothing.
\<close>

lemma poll_table_remove:
  assumes T: "poll_table tab ch fds" and tab: "tab fd = Some p" and p: "ch p = Some c"
    and i: "ch_index c = int i" and q: "tab (last fds) = Some q" and e: "ch q = Some e"
  shows "poll_table (tab(fd := None)) (ch(q := Some (Channel_set_index (int i) e)))
           (butlast (fds[i := last fds]))"
proof -
  have i2: "i < length fds" "fds ! i = fd"
    using poll_tableD[OF T tab] p i by (metis of_nat_eq_iff option.inject)+
  define n where "n = length fds - 1"
  have "fds \<noteq> []"
    using i2 by auto
  then have n: "length fds = Suc n" "last fds = fds ! n"
    by (simp_all add: n_def last_conv_nth)
  have D: "distinct fds"
    using T by (rule poll_table_distinct)
  have e2: "ch_index e = int n" "ch_fd e = fds ! n" "0 \<le> fds ! n"
    using poll_tableD[OF T q] e n D
    by (metis (no_types, lifting) lessI nth_eq_iff_index_eq option.inject)+
  have nth: "butlast (fds[i := last fds]) ! k = (if k = i then fds ! n else fds ! k)" if "k < n" for k
    using that n by (auto simp: nth_butlast nth_list_update)
  have "\<exists>c j. (ch(q := Some (Channel_set_index (int i) e))) r = Some c \<and> ch_fd c = g \<and> 0 \<le> g \<and>
      ch_index c = int j \<and> j < n \<and> butlast (fds[i := last fds]) ! j = g"
    if "(tab(fd := None)) g = Some r" for g r
  proof -
    have g: "g \<noteq> fd" "tab g = Some r"
      using that by (auto split: if_splits)
    obtain d k where k: "ch r = Some d" "ch_fd d = g" "0 \<le> g" "ch_index d = int k"
        "k < length fds" "fds ! k = g"
      using poll_tableD[OF T g(2)] by metis
    show ?thesis
    proof (cases "k = n")
      case True
      then have "r = q" "i < n"
        using g q n k i2 by (auto intro: ccontr simp: less_Suc_eq)
      then show ?thesis
        using e2 k True nth by auto
    next
      case False
      then have "r \<noteq> q" "k \<noteq> i"
        using k e e2 i2 g by auto
      then show ?thesis
        using k nth[of k] False n by auto
    qed
  qed
  moreover have "\<exists>r d. (tab(fd := None)) (butlast (fds[i := last fds]) ! k) = Some r \<and>
      (ch(q := Some (Channel_set_index (int i) e))) r = Some d \<and> ch_index d = int k"
    if k: "k < n" for k
  proof (cases "k = i")
    case True
    then have "fds ! n \<noteq> fd"
      using i2 k D n by (auto simp: nth_eq_iff_index_eq)
    then show ?thesis
      using True nth[OF k] q n by auto
  next
    case False
    then have "fds ! k \<noteq> fd"
      using i2 k D n by (auto simp: nth_eq_iff_index_eq)
    moreover obtain r d where "tab (fds ! k) = Some r" "ch r = Some d" "ch_index d = int k"
      using poll_table_nth[OF T, of k] k n by (metis less_SucI)
    ultimately show ?thesis
      using False nth[OF k] e e2 k by (intro exI[of _ r] exI[of _ d]) auto
  qed
  ultimately show ?thesis
    using n(1) unfolding poll_table_def by simp
qed


section \<open>The array and the kernel's view of it\<close>

lemma set_swap_pop:
  assumes D: "distinct xs" and i: "i < length xs"
  shows "set (butlast (xs[i := last xs])) = set xs - {xs ! i}"
proof -
  obtain ys z where xs: "xs = ys @ [z]"
    using i by (cases xs rule: rev_cases) auto
  show ?thesis
  proof (cases "i = length ys")
    case True
    then show ?thesis
      using D by (auto simp: xs nth_append)
  next
    case False
    then have "i < length ys"
      using i xs by simp
    then show ?thesis
      using D by (auto simp: xs nth_append list_update_append set_update_distinct)
  qed
qed

lemma distinct_pollfds:
  assumes "distinct (map real_fd fds)"
  shows "distinct fds" and "distinct (map pf_fd fds)"
    and "f \<in> set fds \<Longrightarrow> f' \<in> set fds \<Longrightarrow> real_fd f = real_fd f' \<Longrightarrow> f = f'"
  using assms by (auto simp: distinct_map inj_on_def real_fd_def)

lemma poll_mask_eq:
  assumes D: "distinct (map real_fd fds)" and g: "0 \<le> g" and fds: "pp_pollfds pp = fds"
  shows "f \<in> set fds \<Longrightarrow> pf_fd f = g \<Longrightarrow> poll_mask (pp, w) g = ucast (pf_events f)"
    and "\<forall>f \<in> set fds. pf_fd f \<noteq> g \<Longrightarrow> poll_mask (pp, w) g = 0"
proof -
  have D': "distinct (map fst (map (\<lambda>f. (pf_fd f, pf_events f)) fds))"
    using distinct_pollfds(2)[OF D] by (simp add: comp_def)
  assume "f \<in> set fds" and "pf_fd f = g"
  then have "(g, pf_events f) \<in> set (map (\<lambda>f. (pf_fd f, pf_events f)) fds)"
    by auto
  then show "poll_mask (pp, w) g = ucast (pf_events f)"
    using D' g fds by (simp add: poll_mask_def)
next
  assume "\<forall>f \<in> set fds. pf_fd f \<noteq> g"
  then have "map_of (map (\<lambda>f. (pf_fd f, pf_events f)) fds) g = None"
    by (auto simp: map_of_eq_None_iff)
  then show "poll_mask (pp, w) g = 0"
    using g fds by (simp add: poll_mask_def)
qed

lemma poll_mask_entry:
  assumes D: "distinct (map real_fd (pp_pollfds pp))" and f: "f \<in> set (pp_pollfds pp)"
  shows "poll_mask (pp, w) (real_fd f) = (if pf_fd f < 0 then 0 else ucast (pf_events f))"
proof (cases "pf_fd f < 0")
  case True
  then have g: "0 \<le> real_fd f"
    by (simp add: real_fd_def)
  have "\<forall>h \<in> set (pp_pollfds pp). pf_fd h \<noteq> real_fd f"
  proof
    fix h
    assume "h \<in> set (pp_pollfds pp)"
    then have "h = f \<or> real_fd h \<noteq> real_fd f"
      using distinct_pollfds(3)[OF D _ f] by blast
    then show "pf_fd h \<noteq> real_fd f"
      using True g real_fd_def[of h] by (metis not_less)
  qed
  then show ?thesis
    using poll_mask_eq(2)[OF D g refl] True by simp
next
  case False
  then have "pf_fd f = real_fd f" and "0 \<le> real_fd f"
    by (simp_all add: real_fd_def)
  then show ?thesis
    using poll_mask_eq(1)[OF D _ refl f] False by metis
qed

lemma poll_mask_frame:
  assumes D: "distinct (map real_fd (pp_pollfds pp))" and D': "distinct (map real_fd (pp_pollfds pp'))"
    and same: "{f \<in> set (pp_pollfds pp'). real_fd f \<noteq> fd} = {f \<in> set (pp_pollfds pp). real_fd f \<noteq> fd}"
    and g: "g \<noteq> fd"
  shows "poll_mask (pp', w') g = poll_mask (pp, w) g"
    and "poll_parked (pp', w') g = poll_parked (pp, w) g"
proof -
  have iff: "f \<in> set (pp_pollfds pp') \<longleftrightarrow> f \<in> set (pp_pollfds pp)" if "real_fd f = g" for f
    using same g that by blast
  show "poll_mask (pp', w') g = poll_mask (pp, w) g"
  proof (cases "0 \<le> g \<and> (\<exists>f \<in> set (pp_pollfds pp). pf_fd f = g)")
    case True
    then obtain f where f: "f \<in> set (pp_pollfds pp)" "pf_fd f = g" "0 \<le> g" by blast
    then have "f \<in> set (pp_pollfds pp')"
      using iff[of f] by (simp add: real_fd_def)
    then show ?thesis
      using f poll_mask_eq(1)[OF D _ refl] poll_mask_eq(1)[OF D' _ refl] by metis
  next
    case False
    then have "\<forall>f \<in> set (pp_pollfds pp'). pf_fd f \<noteq> g" if "0 \<le> g"
      using iff that by (auto simp: real_fd_def)
    then show ?thesis
      using False poll_mask_eq(2)[OF D _ refl] poll_mask_eq(2)[OF D' _ refl]
      by (cases "0 \<le> g") (auto simp: poll_mask_def)
  qed
  show "poll_parked (pp', w') g = poll_parked (pp, w) g"
    using iff by (auto simp: poll_parked_def real_fd_def)
qed


section \<open>PollPoller fulfils the contract\<close>

lemma poll_invD:
  assumes "poll_inv (pp, w)"
  shows "kNoneEvent (statics w) = 0"
    and "poll_table (pp_channels pp) (chans w) (map real_fd (pp_pollfds pp))"
    and "distinct (map real_fd (pp_pollfds pp))"
  using assms poll_table_distinct by (auto simp: poll_inv_def)

lemma poll_entry:
  assumes "poll_inv (pp, w)" and "pp_channels pp fd = Some p" and "chans w p = Some c"
  obtains i where "ch_index c = int i" and "i < length (pp_pollfds pp)"
    and "real_fd (pp_pollfds pp ! i) = fd" and "ch_fd c = fd" and "0 \<le> fd"
    and "pf_fd (pp_pollfds pp ! i) = fd \<or> pf_fd (pp_pollfds pp ! i) = - fd - 1"
proof -
  obtain d i where d: "chans w p = Some d" "ch_fd d = fd" "0 \<le> fd" "ch_index d = int i"
      "i < length (map real_fd (pp_pollfds pp))" "map real_fd (pp_pollfds pp) ! i = fd"
    using poll_tableD[OF poll_invD(2)[OF assms(1)] assms(2)] by metis
  moreover from this have "pf_fd (pp_pollfds pp ! i) = fd \<or> pf_fd (pp_pollfds pp ! i) = - fd - 1"
    by (auto simp: real_fd_def split: if_splits)
  ultimately show ?thesis
    using assms(3) that by auto
qed

lemma poll_update_new:
  assumes inv: "poll_inv (pp, w)" and c: "chans w p = Some c"
    and free: "pp_channels pp (ch_fd c) = None" and i: "ch_index c = -1" and fd: "0 \<le> ch_fd c"
    and run: "PollPoller_updateChannel True p (pp, w) = Inr (pp', w')"
  shows "poll_inv (pp', w') \<and> same_chans w w' \<and>
     pp_channels pp' = (pp_channels pp)(ch_fd c := Some p) \<and>
     poll_mask (pp', w') = (poll_mask (pp, w))(ch_fd c := poll_view (ch_events c)) \<and>
     (\<forall>fd. fd \<noteq> ch_fd c \<longrightarrow> poll_parked (pp', w') fd = poll_parked (pp, w) fd)"
proof -
  define f where "f = \<lparr>pf_fd = ch_fd c, pf_events = ucast (ch_events c), pf_revents = 0\<rparr>"
  have w': "w' = chan_put p (Channel_set_index (int (length (pp_pollfds pp))) c) w"
    and pp': "pp' = pp\<lparr>pp_pollfds := pp_pollfds pp @ [f],
                      pp_channels := (pp_channels pp)(ch_fd c := Some p)\<rparr>"
    using run c free i by (auto simp: PollPoller_updateChannel_def Let_def f_def)
  have rf: "real_fd f = ch_fd c"
    using fd by (simp add: real_fd_def f_def)
  have inv': "poll_inv (pp', w')"
    using poll_table_push[OF poll_invD(2)[OF inv] c refl fd free] poll_invD(1)[OF inv]
    by (simp add: poll_inv_def pp' w' rf)
  have same: "{h \<in> set (pp_pollfds pp'). real_fd h \<noteq> ch_fd c} =
              {h \<in> set (pp_pollfds pp). real_fd h \<noteq> ch_fd c}"
    using rf by (auto simp: pp')
  note F = poll_mask_frame[OF poll_invD(3)[OF inv] poll_invD(3)[OF inv'] same]
  have "poll_mask (pp', w') (ch_fd c) = poll_view (ch_events c)"
    using poll_mask_entry[OF poll_invD(3)[OF inv'], of f w'] rf fd
    by (simp add: pp' f_def poll_view_def)
  then have "poll_mask (pp', w') = (poll_mask (pp, w))(ch_fd c := poll_view (ch_events c))"
    using F(1)[where w = w and w' = w'] by auto
  moreover have "same_chans w w'"
    by (rule same_chans_set_index[OF c]) (simp_all add: w')
  ultimately show ?thesis
    using inv' F(2)[where w = w and w' = w'] by (auto simp: pp')
qed

lemma poll_update_old:
  assumes inv: "poll_inv (pp, w)" and c: "chans w p = Some c"
    and reg: "pp_channels pp (ch_fd c) = Some p"
  shows "\<exists>pp'. PollPoller_updateChannel True p (pp, w) = Inr (pp', w) \<and>
     poll_inv (pp', w) \<and> pp_channels pp' = pp_channels pp \<and>
     poll_mask (pp', w) = (poll_mask (pp, w))(ch_fd c := poll_view (ch_events c)) \<and>
     (\<forall>fd. fd \<noteq> ch_fd c \<longrightarrow> poll_parked (pp', w) fd = poll_parked (pp, w) fd) \<and>
     (ch_events c = 0 \<longrightarrow> poll_parked (pp', w) (ch_fd c))"
proof -
  obtain i where i: "ch_index c = int i" "i < length (pp_pollfds pp)"
      "real_fd (pp_pollfds pp ! i) = ch_fd c" "0 \<le> ch_fd c"
      "pf_fd (pp_pollfds pp ! i) = ch_fd c \<or> pf_fd (pp_pollfds pp ! i) = - ch_fd c - 1"
    using poll_entry[OF inv reg c] by metis
  define f where "f = \<lparr>pf_fd = (if ch_events c = 0 then - ch_fd c - 1 else ch_fd c),
                       pf_events = ucast (ch_events c), pf_revents = 0\<rparr>"
  define pp' where "pp' = pp\<lparr>pp_pollfds := (pp_pollfds pp)[i := f]\<rparr>"
  have run: "PollPoller_updateChannel True p (pp, w) = Inr (pp', w)"
    using c reg i poll_invD(1)[OF inv]
    by (auto simp: PollPoller_updateChannel_def Let_def pp'_def f_def Channel_isNoneEvent_def
        intro!: arg_cong[of _ _ "\<lambda>x. pp\<lparr>pp_pollfds := (pp_pollfds pp)[i := x]\<rparr>"])
  have rf: "real_fd f = ch_fd c"
    using i by (simp add: real_fd_def f_def)
  have "map real_fd (pp_pollfds pp') = map real_fd (pp_pollfds pp)"
    using i rf by (simp add: pp'_def map_update list_update_same_conv)
  then have inv': "poll_inv (pp', w)"
    using inv by (simp add: poll_inv_def pp'_def)
  have set': "set (pp_pollfds pp') = insert f (set (pp_pollfds pp) - {pp_pollfds pp ! i})"
    using i distinct_pollfds(1)[OF poll_invD(3)[OF inv]]
    by (simp add: pp'_def set_update_distinct)
  have same: "{h \<in> set (pp_pollfds pp'). real_fd h \<noteq> ch_fd c} =
              {h \<in> set (pp_pollfds pp). real_fd h \<noteq> ch_fd c}"
    using rf i(3) by (auto simp: set')
  note F = poll_mask_frame[OF poll_invD(3)[OF inv] poll_invD(3)[OF inv'] same]
  have "poll_mask (pp', w) (ch_fd c) = poll_view (ch_events c)"
    using poll_mask_entry[OF poll_invD(3)[OF inv'], of f w] rf set' i(4)
    by (auto simp: f_def poll_view_def)
  then have "poll_mask (pp', w) = (poll_mask (pp, w))(ch_fd c := poll_view (ch_events c))"
    using F(1)[where w = w and w' = w] by auto
  moreover have "ch_events c = 0 \<longrightarrow> poll_parked (pp', w) (ch_fd c)"
    using i(4) set' by (auto simp: poll_parked_def f_def)
  ultimately show ?thesis
    using run inv' F(2)[where w = w and w' = w] by (auto simp: pp'_def)
qed

text \<open>Removal of a parked channel: both branches of the code give the table of \<open>poll_table_remove\<close>.\<close>

lemma poll_remove_outcome:
  assumes inv: "poll_inv (pp, w)" and c: "chans w p = Some c"
    and reg: "pp_channels pp (ch_fd c) = Some p" and z: "ch_events c = 0"
    and parked: "poll_parked (pp, w) (ch_fd c)"
  shows "\<exists>i q e. ch_index c = int i \<and> i < length (pp_pollfds pp) \<and>
     real_fd (pp_pollfds pp ! i) = ch_fd c \<and>
     pp_channels pp (last (map real_fd (pp_pollfds pp))) = Some q \<and> chans w q = Some e \<and>
     PollPoller_removeChannel True p (pp, w) =
       Inr (pp\<lparr>pp_channels := (pp_channels pp)(ch_fd c := None),
              pp_pollfds := butlast ((pp_pollfds pp)[i := last (pp_pollfds pp)])\<rparr>,
            chan_put q (Channel_set_index (int i) e) w)"
proof -
  let ?fds = "pp_pollfds pp"
  obtain i where i: "ch_index c = int i" "i < length ?fds" "real_fd (?fds ! i) = ch_fd c" "0 \<le> ch_fd c"
    using poll_entry[OF inv reg c] by metis
  have ne: "?fds \<noteq> []"
    using i by auto
  obtain f where f: "f \<in> set ?fds" "pf_fd f = - ch_fd c - 1" "pf_events f = 0"
    using parked by (auto simp: poll_parked_def)
  have "f = ?fds ! i"
    using distinct_pollfds(3)[OF poll_invD(3)[OF inv] f(1), of "?fds ! i"] i f(2)
    by (simp add: real_fd_def)
  then have pf: "pf_fd (?fds ! i) = - ch_fd c - 1" "pf_events (?fds ! i) = 0"
    using f by auto
  have lst: "map real_fd ?fds ! (length ?fds - 1) = last (map real_fd ?fds)"
    using ne by (simp add: last_map last_conv_nth)
  obtain q e where q: "pp_channels pp (last (map real_fd ?fds)) = Some q" "chans w q = Some e"
      "ch_index e = int (length ?fds - 1)"
    using poll_table_nth[OF poll_invD(2)[OF inv], of "length ?fds - 1"] ne lst
    by (metis diff_less length_greater_0_conv length_map zero_less_one)
  have last: "last (map real_fd ?fds) = real_fd (last ?fds)"
    using ne by (simp add: last_map)
  let ?pp = "pp\<lparr>pp_channels := (pp_channels pp)(ch_fd c := None)\<rparr>"
  have run: "PollPoller_removeChannel True p (pp, w) =
      (if i = length ?fds - 1 then Inr (?pp\<lparr>pp_pollfds := butlast ?fds\<rparr>, w)
       else res_bind (PollPoller_setIndexAt (real_fd (last ?fds)) (int i) ?pp w)
              (\<lambda>w1. Inr (?pp\<lparr>pp_pollfds := butlast (?fds[i := last ?fds])\<rparr>, w1)))"
    using c reg z i pf poll_invD(1)[OF inv]
    by (simp add: PollPoller_removeChannel_def Let_def Channel_isNoneEvent_def real_fd_def
        butlast_list_update)
  have "PollPoller_removeChannel True p (pp, w) =
       Inr (?pp\<lparr>pp_pollfds := butlast (?fds[i := last ?fds])\<rparr>,
            chan_put q (Channel_set_index (int i) e) w)"
  proof (cases "i = length ?fds - 1")
    case True
    then have "last ?fds = ?fds ! i" "last (map real_fd ?fds) = ch_fd c"
      using i last ne by (simp_all add: last_conv_nth)
    moreover from this have "q = p" "e = c"
      using q reg c by auto
    ultimately show ?thesis
      using run True c i(1) by (simp add: chan_put_def Channel_set_index_def fun_upd_idem)
  next
    case False
    have "real_fd (last ?fds) \<noteq> ch_fd c"
      using nth_eq_iff_index_eq[OF poll_invD(3)[OF inv], of i "length ?fds - 1"] i ne False
      by (simp add: last_conv_nth)
    then show ?thesis
      using run False q last by (simp add: PollPoller_setIndexAt_def)
  qed
  then show ?thesis
    using i q by blast
qed

lemma poll_remove_law:
  assumes inv: "poll_inv (pp, w)" and c: "chans w p = Some c"
    and reg: "pp_channels pp (ch_fd c) = Some p" and z: "ch_events c = 0"
    and parked: "poll_parked (pp, w) (ch_fd c)"
  shows "\<exists>pp' w'. PollPoller_removeChannel True p (pp, w) = Inr (pp', w') \<and>
     poll_inv (pp', w') \<and> same_chans w w' \<and>
     pp_channels pp' = (pp_channels pp)(ch_fd c := None) \<and>
     poll_mask (pp', w') = (poll_mask (pp, w))(ch_fd c := 0) \<and>
     (\<forall>fd. fd \<noteq> ch_fd c \<longrightarrow> poll_parked (pp', w') fd = poll_parked (pp, w) fd)"
proof -
  let ?fds = "pp_pollfds pp"
  obtain i q e where i: "ch_index c = int i" "i < length ?fds" "real_fd (?fds ! i) = ch_fd c"
    and q: "pp_channels pp (last (map real_fd ?fds)) = Some q" and e: "chans w q = Some e"
    and run: "PollPoller_removeChannel True p (pp, w) =
       Inr (pp\<lparr>pp_channels := (pp_channels pp)(ch_fd c := None),
              pp_pollfds := butlast (?fds[i := last ?fds])\<rparr>,
            chan_put q (Channel_set_index (int i) e) w)"
    using poll_remove_outcome[OF assms] by blast
  define pp' where "pp' = pp\<lparr>pp_channels := (pp_channels pp)(ch_fd c := None),
              pp_pollfds := butlast (?fds[i := last ?fds])\<rparr>"
  define w' where "w' = chan_put q (Channel_set_index (int i) e) w"
  have "?fds \<noteq> []"
    using i by auto
  then have "map real_fd (butlast (?fds[i := last ?fds])) =
      butlast ((map real_fd ?fds)[i := last (map real_fd ?fds)])"
    by (simp add: map_butlast map_update last_map)
  then have inv': "poll_inv (pp', w')"
    using poll_table_remove[OF poll_invD(2)[OF inv] reg c i(1) q e] poll_invD(1)[OF inv]
    by (simp add: poll_inv_def pp'_def w'_def)
  have set': "set (pp_pollfds pp') = set ?fds - {?fds ! i}"
    using set_swap_pop[OF distinct_pollfds(1)[OF poll_invD(3)[OF inv]] i(2)] by (simp add: pp'_def)
  have "{h \<in> set (pp_pollfds pp'). real_fd h \<noteq> ch_fd c} = {h \<in> set ?fds. real_fd h \<noteq> ch_fd c}"
    using i(3) by (auto simp: set')
  note F = poll_mask_frame[OF poll_invD(3)[OF inv] poll_invD(3)[OF inv'] this,
      where w = w and w' = w']
  have "pf_fd h \<noteq> ch_fd c \<or> ch_fd c < 0" if "h \<in> set (pp_pollfds pp')" for h
  proof -
    have "real_fd h \<noteq> ch_fd c"
      using that distinct_pollfds(3)[OF poll_invD(3)[OF inv], of h "?fds ! i"] i set' by auto
    then show ?thesis
      by (auto simp: real_fd_def split: if_splits)
  qed
  then have "poll_mask (pp', w') (ch_fd c) = 0"
    using poll_mask_eq(2)[OF poll_invD(3)[OF inv'] _ refl, of "ch_fd c" w']
    by (cases "ch_fd c < 0") (auto simp: poll_mask_def)
  then have "poll_mask (pp', w') = (poll_mask (pp, w))(ch_fd c := 0)"
    using F(1) by auto
  moreover have "same_chans w w'"
    by (rule same_chans_set_index[OF e]) (simp_all add: w'_def)
  ultimately show ?thesis
    using run inv' F(2) by (auto simp: pp'_def w'_def)
qed

lemma poll_update_error:
  assumes "chans w p = Some c" and "pp_channels pp (ch_fd c) = None" and "ch_index c = -1"
  shows "PollPoller_updateChannel True p (pp, w) \<noteq> Inl e"
  using assms by (simp add: PollPoller_updateChannel_def Let_def)

interpretation pp: poller_contract poll_inv pp_channels poll_mask poll_parked "\<lambda>_. poll_view"
  "PollPoller_updateChannel True" "PollPoller_removeChannel True"
proof (unfold_locales, goal_cases)
  case 1
  then show ?case by (rule poll_invD)
next
  case 2
  then show ?case by (metis poll_invD(2) poll_tableD)
next
  case (3 po w fd)
  then have "fd \<notin> set (map real_fd (pp_pollfds po))"
    using poll_table_nth[OF poll_invD(2)[OF 3(1)]] by (metis in_set_conv_nth option.distinct(1))
  then show ?case
    using poll_mask_eq(2)[OF poll_invD(3)[OF 3(1)] _ refl, of fd w]
    by (cases "fd < 0") (auto simp: poll_mask_def real_fd_def)
next
  case (4 po w p c c')
  then show ?case
    using poll_table_put[of "pp_channels po" "chans w"]
    by (auto simp: poll_inv_def poll_mask_def poll_parked_def)
next
  case (5 po w p c po' w')
  then show ?case
    using poll_update_new[OF 5(1,2)] poll_update_old[OF 5(1,2)] same_chans_refl
    by (auto simp: fun_upd_idem)
next
  case (6 po w p c e)
  then show ?case
    using poll_update_error[OF 6(2), of po e] poll_update_old[OF 6(1,2)] by auto
next
  case (7 po w p c po' w')
  then show ?case
    using poll_remove_law[OF 7(1-5)] by auto
next
  case (8 po w p c e)
  then show ?case
    using poll_remove_law[OF 8(1-5)] by auto
qed


section \<open>The poller the event loop sees\<close>

fun Poller_inv :: "poller \<times> 'z hworld_scheme \<Rightarrow> bool" where
  "Poller_inv (Epoll ep, w) = epoll_inv (ep, w)"
| "Poller_inv (Poll pp, w) = poll_inv (pp, w)"

fun Poller_mask :: "poller \<times> 'z hworld_scheme \<Rightarrow> int \<Rightarrow> 32 word" where
  "Poller_mask (Epoll ep, w) = epoll_mask (ep, w)"
| "Poller_mask (Poll pp, w) = poll_mask (pp, w)"

fun Poller_parked :: "poller \<times> 'z hworld_scheme \<Rightarrow> int \<Rightarrow> bool" where
  "Poller_parked (Epoll ep, w) = (\<lambda>_. True)"
| "Poller_parked (Poll pp, w) = poll_parked (pp, w)"

fun Poller_view :: "poller \<Rightarrow> 32 word \<Rightarrow> 32 word" where
  "Poller_view (Epoll ep) = (\<lambda>m. m)"
| "Poller_view (Poll pp) = poll_view"

definition Poller_consistent :: "poller \<times> 'z hworld_scheme \<Rightarrow> bool" where
  "Poller_consistent s \<longleftrightarrow>
     Poller_inv s \<and>
     (\<forall>fd p c. Poller_channels (fst s) fd = Some p \<longrightarrow> chans (snd s) p = Some c \<longrightarrow>
        Poller_mask s fd = Poller_view (fst s) (ch_events c) \<and>
        (ch_events c = 0 \<longrightarrow> Poller_parked s fd))"

abbreviation Poller_run ::
    "reg_op list \<Rightarrow> poller \<times> 'z hworld_scheme \<Rightarrow> (poller \<times> 'z hworld_scheme) res" where
  "Poller_run \<equiv> reg_run (Poller_updateChannel True) (Poller_removeChannel True)"

abbreviation Poller_legal_run :: "reg_op list \<Rightarrow> poller \<times> 'z hworld_scheme \<Rightarrow> bool" where
  "Poller_legal_run \<equiv>
     reg_legal_run Poller_channels (Poller_updateChannel True) (Poller_removeChannel True)"

interpretation po: poller_contract Poller_inv Poller_channels Poller_mask Poller_parked Poller_view
  "Poller_updateChannel True" "Poller_removeChannel True"
proof (unfold_locales, goal_cases)
  case (1 po w)
  then show ?case using ep.none_zero pp.none_zero by (cases po) auto
next
  case (2 po w fd p)
  then show ?case using ep.registered pp.registered by (cases po) auto
next
  case (3 po w fd)
  then show ?case using ep.unregistered pp.unregistered by (cases po) auto
next
  case (4 po w p c c')
  then show ?case using ep.put[of _ w p c c'] pp.put[of _ w p c c'] by (cases po) auto
next
  case (5 po w p c po' w')
  show ?case
  proof (cases po)
    case (Epoll e)
    moreover from this obtain e'
      where "EpollPoller_updateChannel True p (e, w) = Inr (e', w')" and "po' = Epoll e'"
      using 5(4) by (auto simp: res_bind_eq_Inr)
    ultimately show ?thesis using ep.update[of e w p c e' w'] 5 by simp
  next
    case (Poll e)
    moreover from this obtain e'
      where "PollPoller_updateChannel True p (e, w) = Inr (e', w')" and "po' = Poll e'"
      using 5(4) by (auto simp: res_bind_eq_Inr)
    ultimately show ?thesis using pp.update[of e w p c e' w'] 5 by simp
  qed
next
  case (6 po w p c e)
  then show ?case using ep.update_error[of _ w p c e] pp.update_error[of _ w p c e]
    by (cases po) (auto simp: res_bind_eq_Inl)
next
  case (7 po w p c po' w')
  show ?case
  proof (cases po)
    case (Epoll e)
    moreover from this obtain e'
      where "EpollPoller_removeChannel True p (e, w) = Inr (e', w')" and "po' = Epoll e'"
      using 7(6) by (auto simp: res_bind_eq_Inr)
    ultimately show ?thesis using ep.remove[of e w p c e' w'] 7 by simp
  next
    case (Poll e)
    moreover from this obtain e'
      where "PollPoller_removeChannel True p (e, w) = Inr (e', w')" and "po' = Poll e'"
      using 7(6) by (auto simp: res_bind_eq_Inr)
    ultimately show ?thesis using pp.remove[of e w p c e' w'] 7 by simp
  qed
next
  case (8 po w p c e)
  then show ?case using ep.remove_error[of _ w p c e] pp.remove_error[of _ w p c e]
    by (cases po) (auto simp: res_bind_eq_Inl)
qed

lemma Poller_consistent_eq: "Poller_consistent = po.consistent"
  by (simp add: fun_eq_iff Poller_consistent_def po.consistent_def)

lemma new_poller_consistent:
  assumes "Poller_newDefaultPoller EPoll w = Inr (po, w')" and "kNoneEvent (statics w) = 0"
    and "\<And>epfd. kernel_interest epfd (trace w) = (\<lambda>_. None)"
  shows "Poller_consistent (po, w')"
proof (cases EPoll)
  case True
  then show ?thesis
    using assms by (auto simp: Poller_newDefaultPoller_def EpollPoller_new_def res_bind_eq_Inr
        sys_int_Inr Poller_consistent_def epoll_inv_def epoll_entry_def epoll_watch_def
        split: if_splits)
next
  case False
  then show ?thesis
    using assms by (auto simp: Poller_newDefaultPoller_def PollPoller_new_def Poller_consistent_def
        poll_inv_def poll_table_def)
qed


section \<open>What poll reports\<close>

text \<open>
  The answers of \<^verbatim>\<open>epoll_wait\<close> and \<^verbatim>\<open>poll\<close> as the manual pages document them, with the ready channels
  and their events. \<^verbatim>\<open>epoll_wait\<close> reports at most as many entries as asked for, each a pointer that is
  registered, no descriptor twice; \<^verbatim>\<open>poll\<close> fills the \<^verbatim>\<open>revents\<close> of the array, leaves those of negative
  descriptors zero and returns the number of nonzero ones.
\<close>

definition poll_ready :: "poll_poller \<Rightarrow> 16 word list \<Rightarrow> (ptr \<times> 32 word) list" where
  "poll_ready pp revs =
     map (\<lambda>(f, rv). (the (pp_channels pp (pf_fd f)), scast rv))
       (filter (\<lambda>(f, rv). rv \<noteq> 0) (zip (pp_pollfds pp) revs))"

fun kernel_ready :: "poller \<times> 'z hworld_scheme \<Rightarrow> sys_ret \<Rightarrow> (ptr \<times> 32 word) list \<Rightarrow> bool" where
  "kernel_ready (Epoll ep, w) r ready \<longleftrightarrow>
     r = SysReady ready \<and> length ready \<le> ep_events_size ep \<and> distinct (map fst ready) \<and>
     (\<forall>p \<in> fst ` set ready. \<exists>fd m. epoll_watch (ep, w) fd = Some (m, p))"
| "kernel_ready (Poll pp, w) r ready \<longleftrightarrow>
     (\<exists>revs. r = SysRevents (int (length ready)) revs \<and> length revs = length (pp_pollfds pp) \<and>
        ready = poll_ready pp revs \<and>
        (\<forall>(f, rv) \<in> set (zip (pp_pollfds pp) revs). 0 \<le> sint rv \<and> (pf_fd f < 0 \<longrightarrow> rv = 0)))"

text \<open>The received events are stored in the channels, one after the other.\<close>

fun deliver :: "(ptr \<times> 32 word) list \<Rightarrow> 'z hworld_scheme \<Rightarrow> 'z hworld_scheme" where
  "deliver [] w = w"
| "deliver ((p, ev) # ready) w =
     deliver ready (chan_put p (Channel_set_revents ev (the (chans w p))) w)"

lemma channel_revents_simps [simp]:
  "ch_fd (Channel_set_revents ev c) = ch_fd c" "ch_index (Channel_set_revents ev c) = ch_index c"
  "ch_events (Channel_set_revents ev c) = ch_events c"
  "ch_revents (Channel_set_revents ev c) = ev"
  by (simp_all add: Channel_set_revents_def)

lemma deliver_other: "q \<notin> fst ` set ready \<Longrightarrow> chans (deliver ready w) q = chans w q"
  by (induction ready w rule: deliver.induct) auto

lemma deliver_ready:
  assumes "distinct (map fst ready)" and "(p, ev) \<in> set ready" and "chans w p = Some c"
  shows "chans (deliver ready w) p = Some (Channel_set_revents ev c)"
  using assms
proof (induction ready w rule: deliver.induct)
  case (2 q e ready w)
  then show ?case
    by (cases "q = p") (auto simp: deliver_other image_iff)
qed simp

lemma deliver_consistent:
  assumes "Poller_consistent (po, w)" and "\<forall>p \<in> fst ` set ready. chans w p \<noteq> None"
  shows "Poller_consistent (po, deliver ready w)"
  using assms
proof (induction ready w rule: deliver.induct)
  case (2 p ev ready w)
  then obtain c where c: "chans w p = Some c"
    by auto
  have "Poller_consistent (po, chan_put p (Channel_set_revents ev c) w)"
    unfolding Poller_consistent_eq
    by (rule po.consistent_put[OF _ c]) (use 2(2) in \<open>simp_all add: Poller_consistent_eq\<close>)
  then show ?case
    using 2 c by auto
qed simp

lemma EpollPoller_fill:
  assumes "\<forall>p \<in> fst ` set ready. chans w p \<noteq> None"
  shows "EpollPoller_fillActiveChannels ready active w = Inr (active @ map fst ready, deliver ready w)"
  using assms
  by (induction ready active w rule: EpollPoller_fillActiveChannels.induct)
    (auto simp: chan_get_def split: option.splits)

definition poll_ready_ok :: "poll_poller \<Rightarrow> 'z hworld_scheme \<Rightarrow> pollfd \<times> 16 word \<Rightarrow> bool" where
  "poll_ready_ok pp w frv \<longleftrightarrow>
     0 \<le> sint (snd frv) \<and>
     (snd frv \<noteq> 0 \<longrightarrow> (\<exists>p c. pp_channels pp (pf_fd (fst frv)) = Some p \<and> chans w p = Some c \<and>
                              ch_fd c = pf_fd (fst frv)))"

lemma poll_ready_ok_put:
  assumes "poll_ready_ok pp w frv" and "chans w p = Some c" and "ch_fd c' = ch_fd c"
  shows "poll_ready_ok pp (chan_put p c' w) frv"
  using assms by (auto simp: poll_ready_ok_def)

lemma sint_pos: "0 \<le> sint (x :: 16 word) \<Longrightarrow> 0 < sint x \<longleftrightarrow> x \<noteq> 0"
  using word_eq_iff_signed[of x 0] by (auto simp: order_less_le)

lemma PollPoller_fill:
  assumes "length fds = length revs" and "\<forall>frv \<in> set (zip fds revs). poll_ready_ok pp w frv"
    and "pp_channels pp' = pp_channels pp"
    and "ready = map (\<lambda>(f, rv). (the (pp_channels pp (pf_fd f)), scast rv))
       (filter (\<lambda>(f, rv). rv \<noteq> 0) (zip fds revs))"
  shows "PollPoller_fillActiveChannels (map2 (\<lambda>f rv. f\<lparr>pf_revents := rv\<rparr>) fds revs)
           (int (length ready)) pp' active w = Inr (active @ map fst ready, deliver ready w)"
  using assms
proof (induction fds revs arbitrary: ready active w rule: list_induct2)
  case (Cons f fds rv revs)
  let ?rest = "map (\<lambda>(f, rv). (the (pp_channels pp (pf_fd f)), scast rv))
       (filter (\<lambda>(f, rv). rv \<noteq> 0) (zip fds revs))"
  have ok: "poll_ready_ok pp w (f, rv)" and rest: "\<forall>frv \<in> set (zip fds revs). poll_ready_ok pp w frv"
    using Cons.prems by auto
  show ?case
  proof (cases "rv = 0")
    case True
    then show ?thesis
      using Cons.IH[OF rest Cons.prems(2), of ready active] Cons.prems
      by (cases ready) auto
  next
    case False
    then obtain p c where p: "pp_channels pp (pf_fd f) = Some p" "chans w p = Some c"
        "ch_fd c = pf_fd f" and pos: "0 < sint rv"
      using ok sint_pos by (auto simp: poll_ready_ok_def)
    let ?w = "chan_put p (Channel_set_revents (scast rv) c) w"
    have "\<forall>frv \<in> set (zip fds revs). poll_ready_ok pp ?w frv"
      using rest poll_ready_ok_put[OF _ p(2)] by auto
    from Cons.IH[OF this Cons.prems(2) refl, of "active @ [p]"] show ?thesis
      using Cons.prems p pos False by auto
  qed
qed simp

lemma epoll_sys_insensitive:
  assumes "kernel_interest (ep_epollfd ep) (trace w') = kernel_interest (ep_epollfd ep) (trace w)"
    and "ep_channels ep' = ep_channels ep" and "ep_epollfd ep' = ep_epollfd ep"
    and "chans w' = chans w" and "statics w' = statics w"
  shows "Poller_consistent (Epoll ep', w') = Poller_consistent (Epoll ep, w)"
  using assms
  by (simp add: Poller_consistent_def epoll_inv_def epoll_entry_def epoll_watch_def epoll_mask_def
      cong: option.case_cong)

lemma poll_parked_iff:
  "poll_parked (pp, w) fd \<longleftrightarrow>
   0 \<le> fd \<and> (- fd - 1, 0) \<in> set (map (\<lambda>f. (pf_fd f, pf_events f)) (pp_pollfds pp))"
  by (force simp: poll_parked_def)

lemma poll_sys_insensitive:
  assumes "map (\<lambda>f. (pf_fd f, pf_events f)) (pp_pollfds pp') =
           map (\<lambda>f. (pf_fd f, pf_events f)) (pp_pollfds pp)"
    and "pp_channels pp' = pp_channels pp" and "chans w' = chans w" and "statics w' = statics w"
  shows "Poller_consistent (Poll pp', w') = Poller_consistent (Poll pp, w)"
proof -
  have real: "real_fd f = (\<lambda>(d, e). if d < 0 then - d - 1 else d) (pf_fd f, pf_events f)" for f
    by (simp add: real_fd_def)
  have "map real_fd (pp_pollfds pp') = map real_fd (pp_pollfds pp)"
    using arg_cong[OF assms(1), of "map (\<lambda>(d, e). if d < 0 then - d - 1 else d)"]
    by (simp add: comp_def real[abs_def])
  moreover have "poll_parked (pp', w') = poll_parked (pp, w)"
    by (simp add: fun_eq_iff poll_parked_iff assms(1) del: set_map)
  ultimately show ?thesis
    using assms by (simp add: Poller_consistent_def poll_inv_def poll_mask_def)
qed

lemma epoll_poll:
  assumes cons: "Poller_consistent (Epoll ep, w)" and ready: "kernel_ready (Epoll ep, w) r ready"
    and tape: "tape w = r # SysNum now # rest"
  shows "\<exists>ep' w1. EpollPoller_poll True t (ep, w) = Inr (now, map fst ready, ep', deliver ready w1) \<and>
     ep_channels ep' = ep_channels ep \<and> chans w1 = chans w \<and> Poller_consistent (Epoll ep', w1) \<and>
     (\<forall>p \<in> fst ` set ready. \<exists>fd. ep_channels ep fd = Some p)"
proof -
  define w1 where "w1 = w\<lparr>tape := rest,
    trace := (trace w @ [CallEpollWait (ep_epollfd ep) (ep_events_size ep) t]) @ [CallNow]\<rparr>"
  define ep' where "ep' = (if length ready = ep_events_size ep \<and> ready \<noteq> []
    then ep\<lparr>ep_events_size := ep_events_size ep * 2\<rparr> else ep)"
  have reg: "\<exists>fd. ep_channels ep fd = Some p" if p: "p \<in> fst ` set ready" for p
  proof -
    obtain fd m where "epoll_watch (ep, w) fd = Some (m, p)"
      using ready p by fastforce
    moreover have "epoll_entry ep w (epoll_watch (ep, w) fd) fd"
      using cons by (simp add: Poller_consistent_def epoll_inv_def)
    ultimately show ?thesis
      by (auto simp: epoll_entry_def split: option.splits)
  qed
  have live: "\<forall>p \<in> fst ` set ready. chans w1 p \<noteq> None"
    using reg ep.registered[of ep w] cons by (fastforce simp: Poller_consistent_def w1_def)
  have "Poller_consistent (Epoll ep', w1)"
    using cons epoll_sys_insensitive[of ep w1 w ep'] by (simp add: w1_def ep'_def split: if_splits)
  moreover have "EpollPoller_poll True t (ep, w) = Inr (now, map fst ready, ep', deliver ready w1)"
    using tape ready EpollPoller_fill[OF live, of "[]"]
    by (auto simp: EpollPoller_poll_def sys_def clock_now_def w1_def ep'_def)
  ultimately show ?thesis
    using reg by (auto simp: w1_def ep'_def)
qed

lemma poll_ready_registered:
  assumes inv: "poll_inv (pp, w)" and frv: "(f, rv) \<in> set (zip (pp_pollfds pp) revs)"
    and f: "0 \<le> pf_fd f"
  obtains p c where "pp_channels pp (pf_fd f) = Some p" and "chans w p = Some c"
    and "ch_fd c = pf_fd f"
proof -
  obtain i where i: "i < length (pp_pollfds pp)" "pp_pollfds pp ! i = f"
    using frv by (metis in_set_conv_nth set_zip_leftD)
  have "map real_fd (pp_pollfds pp) ! i = pf_fd f"
    using i f by (simp add: real_fd_def)
  then show ?thesis
    using poll_table_nth[OF poll_invD(2)[OF inv], of i] i that by (metis length_map)
qed

lemma poll_ready_distinct:
  assumes inv: "poll_inv (pp, w)" and len: "length revs = length (pp_pollfds pp)"
    and neg: "\<forall>(f, rv) \<in> set (zip (pp_pollfds pp) revs). pf_fd f < 0 \<longrightarrow> rv = 0"
  shows "distinct (map fst (poll_ready pp revs))"
proof -
  let ?zs = "filter (\<lambda>(f, rv). rv \<noteq> 0) (zip (pp_pollfds pp) revs)"
  have "distinct (map fst (zip (pp_pollfds pp) revs))"
    using len distinct_pollfds(1)[OF poll_invD(3)[OF inv]] by simp
  then have D: "distinct (map fst ?zs)"
    by (rule distinct_map_filter)
  have "inj_on (\<lambda>f. the (pp_channels pp (pf_fd f))) (fst ` set ?zs)"
  proof (rule inj_onI)
    fix f g
    assume f: "f \<in> fst ` set ?zs" and g: "g \<in> fst ` set ?zs"
      and eq: "the (pp_channels pp (pf_fd f)) = the (pp_channels pp (pf_fd g))"
    obtain rv rv' where fg: "(f, rv) \<in> set (zip (pp_pollfds pp) revs)" "rv \<noteq> 0"
        "(g, rv') \<in> set (zip (pp_pollfds pp) revs)" "rv' \<noteq> 0"
      using f g by auto
    then have pos: "0 \<le> pf_fd f" "0 \<le> pf_fd g"
      using neg by fastforce+
    then have "pf_fd f = pf_fd g"
      using poll_ready_registered[OF inv fg(1)] poll_ready_registered[OF inv fg(3)] eq
      by (metis option.inject option.sel)
    then show "f = g"
      using distinct_pollfds(3)[OF poll_invD(3)[OF inv], of f g] pos set_zip_leftD[OF fg(1)]
        set_zip_leftD[OF fg(3)] by (simp add: real_fd_def)
  qed
  then have "distinct (map (\<lambda>f. the (pp_channels pp (pf_fd f))) (map fst ?zs))"
    using D by (simp add: distinct_map comp_inj_on)
  then show ?thesis
    by (simp add: poll_ready_def comp_def case_prod_unfold)
qed

lemma poll_poll:
  assumes cons: "Poller_consistent (Poll pp, w)" and ready: "kernel_ready (Poll pp, w) r ready"
    and tape: "tape w = r # SysNum now # rest"
  shows "\<exists>pp' w1. PollPoller_poll t (pp, w) = Inr (now, map fst ready, pp', deliver ready w1) \<and>
     pp_channels pp' = pp_channels pp \<and> chans w1 = chans w \<and> Poller_consistent (Poll pp', w1) \<and>
     distinct (map fst ready) \<and> (\<forall>p \<in> fst ` set ready. \<exists>fd. pp_channels pp fd = Some p)"
proof -
  have inv: "poll_inv (pp, w)"
    using cons by (simp add: Poller_consistent_def)
  obtain revs where r: "r = SysRevents (int (length ready)) revs"
    and len: "length revs = length (pp_pollfds pp)" and rdy: "ready = poll_ready pp revs"
    and ok: "\<forall>(f, rv) \<in> set (zip (pp_pollfds pp) revs). 0 \<le> sint rv \<and> (pf_fd f < 0 \<longrightarrow> rv = 0)"
    using ready by auto
  define w1 where "w1 = w\<lparr>tape := rest, trace := (trace w @
    [CallPoll (map (\<lambda>f. (pf_fd f, pf_events f)) (pp_pollfds pp)) t]) @ [CallNow]\<rparr>"
  define fds where "fds = map2 (\<lambda>f rv. f\<lparr>pf_revents := rv\<rparr>) (pp_pollfds pp) revs"
  have reg: "\<exists>p c. pp_channels pp (pf_fd f) = Some p \<and> chans w p = Some c \<and> ch_fd c = pf_fd f"
    if "(f, rv) \<in> set (zip (pp_pollfds pp) revs)" "rv \<noteq> 0" for f rv
    using poll_ready_registered[OF inv that(1)] ok that by (metis (mono_tags, lifting) case_prodD not_le)
  have "\<forall>frv \<in> set (zip (pp_pollfds pp) revs). poll_ready_ok pp w1 frv"
    using ok reg by (auto simp: poll_ready_ok_def w1_def)
  from PollPoller_fill[OF len[symmetric] this, of "pp\<lparr>pp_pollfds := fds\<rparr>" ready "[]"]
  have fill: "PollPoller_fillActiveChannels fds (int (length ready)) (pp\<lparr>pp_pollfds := fds\<rparr>) [] w1 =
      Inr (map fst ready, deliver ready w1)"
    by (simp add: rdy poll_ready_def fds_def)
  have "PollPoller_poll t (pp, w) =
      Inr (now, map fst ready, pp\<lparr>pp_pollfds := fds\<rparr>, deliver ready w1)"
    using tape r len fill
    by (auto simp: PollPoller_poll_def sys_def clock_now_def w1_def fds_def Let_def)
  moreover have "map (\<lambda>f. (pf_fd f, pf_events f)) fds =
      map (\<lambda>f. (pf_fd f, pf_events f)) (pp_pollfds pp)"
    using len by (intro nth_equalityI) (auto simp: fds_def)
  then have "Poller_consistent (Poll (pp\<lparr>pp_pollfds := fds\<rparr>), w1)"
    using cons poll_sys_insensitive[of "pp\<lparr>pp_pollfds := fds\<rparr>" pp w1 w] by (simp add: w1_def)
  moreover have "distinct (map fst ready)"
    unfolding rdy by (rule poll_ready_distinct[OF inv len]) (use ok in auto)
  moreover have "\<exists>fd. pp_channels pp fd = Some p" if "p \<in> fst ` set ready" for p
    using that reg by (fastforce simp: rdy poll_ready_def)
  ultimately show ?thesis
    by (intro exI[of _ "pp\<lparr>pp_pollfds := fds\<rparr>"] exI[of _ w1]) (auto simp: w1_def)
qed

lemma deliver_result:
  assumes cons: "Poller_consistent (po', w1)" and ch: "Poller_channels po' = Poller_channels po"
    and reg: "\<forall>p \<in> fst ` set ready. \<exists>fd. Poller_channels po fd = Some p"
    and D: "distinct (map fst ready)" and w1: "chans w1 = chans w"
  shows "Poller_consistent (po', deliver ready w1) \<and>
     (\<forall>(p, ev) \<in> set ready. \<exists>c. chans (deliver ready w1) p = Some c \<and> ch_revents c = ev \<and>
        Poller_channels po' (ch_fd c) = Some p) \<and>
     (\<forall>p. p \<notin> fst ` set ready \<longrightarrow> chans (deliver ready w1) p = chans w p)"
proof -
  have live: "\<exists>c. chans w1 p = Some c \<and> Poller_channels po' (ch_fd c) = Some p"
    if "p \<in> fst ` set ready" for p
    using reg that cons po.registered[of po' w1] ch by (fastforce simp: Poller_consistent_def)
  have "\<exists>c. chans (deliver ready w1) p = Some c \<and> ch_revents c = ev \<and>
        Poller_channels po' (ch_fd c) = Some p" if p: "(p, ev) \<in> set ready" for p ev
    using live[of p] deliver_ready[OF D p] p by (metis channel_revents_simps(1,4) fst_conv image_eqI)
  moreover have "Poller_consistent (po', deliver ready w1)"
    using live by (intro deliver_consistent[OF cons]) fastforce
  ultimately show ?thesis
    using w1 by (auto simp: deliver_other)
qed


lemma poll_spent:
  assumes "chans w p = Some c" and "0 \<le> ch_index c" and "pp_channels pp (ch_fd c) = None"
  shows "\<exists>what. reg_step (Poller_updateChannel True) (Poller_removeChannel True) (Change i p) (Poll pp, w) =
           Inl (AssertFail what)"
  using assms by (simp add: PollPoller_updateChannel_def Let_def)


section \<open>Properties\<close>

text \<open>
  C16. From the creation of a poller of either kind, after any sequence of interest changes and
  removals that follows the rules for clients, the kernel watches each registered descriptor for
  exactly the events its channel asks for (the low 16 bits of them for \<^verbatim>\<open>PollPoller\<close>) and nothing
  else; and no such sequence ends in a failed assertion or in undefined behaviour, whatever order
  channels come and go in: only the kernel can stop it.
\<close>

theorem poller_tracks_channels:
  assumes new: "Poller_newDefaultPoller EPoll w = Inr (po, w')"
    and statics: "kNoneEvent (statics w) = 0"
    and fresh: "\<And>epfd. kernel_interest epfd (trace w) = (\<lambda>_. None)"
    and legal: "Poller_legal_run ops (po, w')"
  shows "case Poller_run ops (po, w') of
      Inl e \<Rightarrow> external e
    | Inr (po2, w2) \<Rightarrow> \<forall>fd. Poller_mask (po2, w2) fd =
        (case Poller_channels po2 fd of
           None \<Rightarrow> 0
         | Some p \<Rightarrow> (case chans w2 p of None \<Rightarrow> 0 | Some c \<Rightarrow> Poller_view po2 (ch_events c)))"
proof -
  have "po.consistent (po, w')"
    using new_poller_consistent[OF new statics fresh] by (simp add: Poller_consistent_eq)
  from po.run_consistent[OF this legal] show ?thesis
    by (auto simp: po.consistent_mask split: sum.splits)
qed

definition poller_demo :: "hworld" where
  "poller_demo = \<lparr>tape = [], trace = [], os_local = (\<lambda>_. None), os_peer = (\<lambda>_. None),
     chans = (\<lambda>_. None)(1 := Some (Channel_new 0 5), 2 := Some (Channel_new 0 6)),
     statics = lt_statics\<rparr>"

definition poller_demo_ops :: "reg_op list" where
  "poller_demo_ops = [Change EnableReading 1, Change EnableWriting 2, Change DisableAll 1, Drop 1]"

theorem poller_tracks_channels_witness:
  "case Poller_run poller_demo_ops (Poll PollPoller_new, poller_demo) of
      Inl e \<Rightarrow> external e
    | Inr (po2, w2) \<Rightarrow> \<forall>fd. Poller_mask (po2, w2) fd =
        (case Poller_channels po2 fd of
           None \<Rightarrow> 0
         | Some p \<Rightarrow> (case chans w2 p of None \<Rightarrow> 0 | Some c \<Rightarrow> Poller_view po2 (ch_events c)))"
proof (rule poller_tracks_channels[of False poller_demo])
  show "Poller_newDefaultPoller False poller_demo = Inr (Poll PollPoller_new, poller_demo)"
    by (simp add: Poller_newDefaultPoller_def)
  show "kNoneEvent (statics poller_demo) = 0"
    by (simp add: poller_demo_def)
  show "kernel_interest epfd (trace poller_demo) = (\<lambda>_. None)" for epfd
    by (simp add: poller_demo_def kernel_interest_def)
  show "Poller_legal_run poller_demo_ops (Poll PollPoller_new, poller_demo)"
    by (simp add: poller_demo_def poller_demo_ops_def PollPoller_new_def Channel_new_def
        PollPoller_updateChannel_def PollPoller_removeChannel_def PollPoller_setIndexAt_def
        chan_get_def chan_put_def Channel_set_index_def Channel_isNoneEvent_def)
qed

text \<open>
  C17. One call of \<^verbatim>\<open>poll\<close> on a poller in such a state, when the kernel answers as documented, returns
  exactly the ready channels in the kernel's order, leaves the poller's tables consistent, and every
  channel it returns is alive and registered and holds the events the kernel reported for it; no
  other channel is touched.
\<close>

theorem poller_poll_reports:
  assumes cons: "Poller_consistent (po, w)" and ready: "kernel_ready (po, w) r ready"
    and tape: "tape w = r # SysNum now # rest"
  shows "\<exists>po' w'. Poller_poll True t (po, w) = Inr (now, map fst ready, po', w') \<and>
     Poller_consistent (po', w') \<and>
     (\<forall>(p, ev) \<in> set ready. \<exists>c. chans w' p = Some c \<and> ch_revents c = ev \<and>
        Poller_channels po' (ch_fd c) = Some p) \<and>
     (\<forall>p. p \<notin> fst ` set ready \<longrightarrow> chans w' p = chans w p)"
proof (cases po)
  case (Epoll ep)
  then obtain ep' w1 where "EpollPoller_poll True t (ep, w) = Inr (now, map fst ready, ep', deliver ready w1)"
    and "ep_channels ep' = ep_channels ep" "chans w1 = chans w" "Poller_consistent (Epoll ep', w1)"
      "\<forall>p \<in> fst ` set ready. \<exists>fd. ep_channels ep fd = Some p"
    using epoll_poll[of ep w r ready now rest t] assms by auto
  then show ?thesis
    using deliver_result[of "Epoll ep'" w1 po ready w] Epoll ready
    by (intro exI[of _ "Epoll ep'"] exI[of _ "deliver ready w1"]) auto
next
  case (Poll pp)
  then obtain pp' w1 where "PollPoller_poll t (pp, w) = Inr (now, map fst ready, pp', deliver ready w1)"
    and "pp_channels pp' = pp_channels pp" "chans w1 = chans w" "Poller_consistent (Poll pp', w1)"
      "distinct (map fst ready)" "\<forall>p \<in> fst ` set ready. \<exists>fd. pp_channels pp fd = Some p"
    using poll_poll[of pp w r ready now rest t] assms by auto
  then show ?thesis
    using deliver_result[of "Poll pp'" w1 po ready w] Poll
    by (intro exI[of _ "Poll pp'"] exI[of _ "deliver ready w1"]) auto
qed

definition demo_pp :: "int \<Rightarrow> 16 word \<Rightarrow> poll_poller" where
  "demo_pp fd ev = \<lparr>pp_channels = [5 \<mapsto> 1, 6 \<mapsto> 2],
     pp_pollfds = [\<lparr>pf_fd = fd, pf_events = ev, pf_revents = 0\<rparr>,
                   \<lparr>pf_fd = 6, pf_events = 4, pf_revents = 0\<rparr>]\<rparr>"

definition demo_hw :: "32 word \<Rightarrow> hworld" where
  "demo_hw ev = poller_demo\<lparr>tape := [SysRevents 1 [0, 4], SysNum 77],
     chans := [1 \<mapsto> (Channel_new 0 5)\<lparr>ch_index := 0, ch_events := ev\<rparr>,
               2 \<mapsto> (Channel_new 0 6)\<lparr>ch_index := 1, ch_events := 4\<rparr>]\<rparr>"

lemma demo_table: "poll_table [5 \<mapsto> 1, 6 \<mapsto> 2] (chans (demo_hw ev)) [5, 6]"
  by (auto simp: poll_table_def demo_hw_def Channel_new_def nth_Cons' numeral_2_eq_2 less_Suc_eq
      intro: exI[of _ "0::nat"] exI[of _ "1::nat"])

lemma demo_consistent: "Poller_consistent (Poll (demo_pp 5 3), demo_hw 3)"
  using demo_table[of 3]
  by (auto simp: Poller_consistent_def poll_inv_def real_fd_def poll_mask_def demo_pp_def
      demo_hw_def poller_demo_def poll_view_def Channel_new_def split: if_splits)

lemma demo_consistent_parked: "Poller_consistent (Poll (demo_pp (-6) 0), demo_hw 0)"
  using demo_table[of 0]
  by (auto simp: Poller_consistent_def poll_inv_def real_fd_def poll_mask_def demo_pp_def
      demo_hw_def poller_demo_def poll_view_def Channel_new_def poll_parked_def split: if_splits)

theorem poller_poll_reports_witness:
  "\<exists>po' w'. Poller_poll True 10000 (Poll (demo_pp 5 3), demo_hw 3) = Inr (77, [2], po', w') \<and>
     Poller_consistent (po', w')"
proof -
  have "kernel_ready (Poll (demo_pp 5 3), demo_hw 3) (SysRevents 1 [0, 4]) [(2, 4)]"
    by (auto simp: poll_ready_def demo_pp_def intro!: exI[of _ "[0, 4]"])
  moreover have "tape (demo_hw 3) = [SysRevents 1 [0, 4], SysNum 77]"
    by (simp add: demo_hw_def)
  ultimately have "\<exists>po' w'. Poller_poll True 10000 (Poll (demo_pp 5 3), demo_hw 3) =
      Inr (77, map fst [(2 :: ptr, 4 :: 32 word)], po', w') \<and> Poller_consistent (po', w')"
    using poller_poll_reports[OF demo_consistent, of "SysRevents 1 [0, 4]" "[(2, 4)]" 77 "[]" 10000]
    by blast
  then show ?thesis
    by simp
qed

text \<open>
  A channel that was removed cannot be registered again: with either poller the next interest
  change fails an assertion (\<^verbatim>\<open>EpollPoller::removeChannel\<close> leaves the index at \<^verbatim>\<open>kDeleted\<close>, whose
  branch in \<^verbatim>\<open>updateChannel\<close> expects the table entry that was just erased; \<^verbatim>\<open>PollPoller\<close> leaves the
  old index).
\<close>

theorem poller_no_readd:
  assumes cons: "Poller_consistent s" and legal: "reg_legal Poller_channels (Drop p) s"
    and drop: "reg_step (Poller_updateChannel True) (Poller_removeChannel True) (Drop p) s = Inr s'"
  shows "\<exists>what. reg_step (Poller_updateChannel True) (Poller_removeChannel True) (Change i p) s' =
           Inl (AssertFail what)"
proof (cases s)
  case (Pair po w)
  then obtain c where c: "chans w p = Some c" "Poller_channels po (ch_fd c) = Some p" "ch_events c = 0"
    using legal by (auto split: option.splits)
  define d where "d = c\<lparr>ch_addedToLoop := False\<rparr>"
  have inv: "Poller_inv (po, w)"
    using cons Pair by (simp add: Poller_consistent_def)
  have d: "chans (chan_put p d w) p = Some d" "ch_fd d = ch_fd c" "ch_events d = 0"
      "ch_index d = ch_index c"
    by (simp_all add: d_def c)
  have rem: "Poller_removeChannel True p (po, chan_put p d w) = Inr s'"
    using drop c Pair by (simp add: res_bind_eq_Inr d_def)
  show ?thesis
  proof (cases po)
    case (Epoll ep)
    obtain ep' w' where e: "EpollPoller_removeChannel True p (ep, chan_put p d w) = Inr (ep', w')"
      and s': "s' = (Epoll ep', w')"
      using rem Epoll by (auto simp: res_bind_eq_Inr)
    then show ?thesis
      using epoll_remove_outcome[OF d(1) e] d(2)
      by (auto simp: EpollPoller_updateChannel_def Let_def)
  next
    case (Poll pp)
    have inv': "poll_inv (pp, chan_put p d w)"
      using pp.put[of pp w p c d] inv c Poll d by simp
    moreover have "poll_parked (pp, chan_put p d w) (ch_fd d)"
      using cons c Poll Pair d by (auto simp: Poller_consistent_def poll_parked_def)
    ultimately obtain j q e where j: "ch_index d = int j"
      and q: "chans (chan_put p d w) q = Some e"
      and run: "PollPoller_removeChannel True p (pp, chan_put p d w) =
        Inr (pp\<lparr>pp_channels := (pp_channels pp)(ch_fd d := None),
               pp_pollfds := butlast ((pp_pollfds pp)[j := last (pp_pollfds pp)])\<rparr>,
             chan_put q (Channel_set_index (int j) e) (chan_put p d w))"
      using poll_remove_outcome[of pp "chan_put p d w" p d] d c Poll by auto
    let ?pp = "pp\<lparr>pp_channels := (pp_channels pp)(ch_fd d := None),
      pp_pollfds := butlast ((pp_pollfds pp)[j := last (pp_pollfds pp)])\<rparr>"
    let ?w = "chan_put q (Channel_set_index (int j) e) (chan_put p d w)"
    obtain d' where "chans ?w p = Some d'" "ch_fd d' = ch_fd d" "ch_index d' = int j"
      using q j by (cases "q = p") auto
    then show ?thesis
      using poll_spent[of ?w p d' ?pp i] run rem Poll by auto
  qed
qed

theorem poller_no_readd_witness:
  "\<exists>s' what. reg_step (Poller_updateChannel True) (Poller_removeChannel True) (Drop 1)
       (Poll (demo_pp (-6) 0), demo_hw 0) = Inr s' \<and>
     reg_step (Poller_updateChannel True) (Poller_removeChannel True) (Change EnableReading 1) s' =
       Inl (AssertFail what)"
proof -
  have legal: "reg_legal Poller_channels (Drop 1) (Poll (demo_pp (-6) 0), demo_hw 0)"
    by (simp add: demo_hw_def demo_pp_def Channel_new_def)
  have "\<exists>s'. reg_step (Poller_updateChannel True) (Poller_removeChannel True) (Drop 1)
       (Poll (demo_pp (-6) 0), demo_hw 0) = Inr s'"
    by (simp add: demo_hw_def demo_pp_def poller_demo_def Channel_new_def PollPoller_removeChannel_def
        PollPoller_setIndexAt_def chan_get_def Channel_isNoneEvent_def)
  then show ?thesis
    using poller_no_readd[OF demo_consistent_parked legal] by blast
qed

end
