(* ===== verification/Poller_Equiv.thy ===== *)
theory Poller_Equiv
  imports Poller_Laws
begin

text \<open>
  The two pollers against one specification: a registry of descriptors and channels without the
  bookkeeping of either poller. Both refine it, so they agree with each other.
\<close>

section \<open>The registry\<close>

text \<open>
  All a client can tell of a channel's index is whether it is still -1, as in a channel never
  registered.
\<close>

definition plain :: "channel \<Rightarrow> channel" where
  "plain c = c\<lparr>ch_index := (if ch_index c = -1 then -1 else 0)\<rparr>"

type_synonym registry = "(int \<Rightarrow> ptr option) \<times> (ptr \<Rightarrow> channel option)"

definition registry_of :: "('p \<Rightarrow> int \<Rightarrow> ptr option) \<Rightarrow> 'p \<times> 'z hworld_scheme \<Rightarrow> registry" where
  "registry_of lookup s = (lookup (fst s), \<lambda>p. map_option plain (chans (snd s) p))"

fun registry_step :: "chan_statics \<Rightarrow> reg_op \<Rightarrow> registry \<Rightarrow> registry" where
  "registry_step st (Change i p) (R, ch) =
     (case ch p of
        None \<Rightarrow> (R, ch)
      | Some c \<Rightarrow> (R(ch_fd c := Some p),
          ch(p := Some (c\<lparr>ch_events := interest_mask st i (ch_events c), ch_addedToLoop := True, ch_index := 0\<rparr>))))"
| "registry_step st (Drop p) (R, ch) =
     (case ch p of
        None \<Rightarrow> (R, ch)
      | Some c \<Rightarrow> (R(ch_fd c := None), ch(p := Some (c\<lparr>ch_addedToLoop := False, ch_index := 0\<rparr>))))"

fun registry_legal :: "chan_statics \<Rightarrow> reg_op \<Rightarrow> registry \<Rightarrow> bool" where
  "registry_legal st (Change i p) (R, ch) =
     (case ch p of
        None \<Rightarrow> False
      | Some c \<Rightarrow> R (ch_fd c) = Some p \<or>
                  R (ch_fd c) = None \<and> ch_index c = -1 \<and> 0 \<le> ch_fd c \<and> interest_mask st i (ch_events c) \<noteq> 0)"
| "registry_legal st (Drop p) (R, ch) =
     (case ch p of
        None \<Rightarrow> False
      | Some c \<Rightarrow> R (ch_fd c) = Some p \<and> ch_events c = 0)"

fun registry_run :: "chan_statics \<Rightarrow> reg_op list \<Rightarrow> registry \<Rightarrow> registry" where
  "registry_run st [] r = r"
| "registry_run st (op # ops) r = registry_run st ops (registry_step st op r)"

fun registry_legal_run :: "chan_statics \<Rightarrow> reg_op list \<Rightarrow> registry \<Rightarrow> bool" where
  "registry_legal_run st [] r = True"
| "registry_legal_run st (op # ops) r =
     (registry_legal st op r \<and> registry_legal_run st ops (registry_step st op r))"

lemma plain_simps [simp]:
  "ch_fd (plain c) = ch_fd c" "ch_events (plain c) = ch_events c"
  "ch_index (plain c) = -1 \<longleftrightarrow> ch_index c = -1"
  by (simp_all add: plain_def)

lemma registry_legal_of: "registry_legal (statics w) op (registry_of lookup (po, w)) = reg_legal lookup op (po, w)"
  by (cases op) (auto simp: registry_of_def split: option.splits)

text \<open>A heap that keeps the channels up to their index gives the same plain channels.\<close>

lemma plain_same:
  assumes "same_chans w w'"
    and "\<And>d d'. chans w q = Some d \<Longrightarrow> chans w' q = Some d' \<Longrightarrow> ch_index d' = -1 \<longleftrightarrow> ch_index d = -1 \<and> q \<noteq> p"
  shows "map_option plain (chans w' q) =
    (if q = p then map_option (\<lambda>c. c\<lparr>ch_index := 0\<rparr>) (chans w q) else map_option plain (chans w q))"
proof -
  have rel: "rel_option (\<lambda>c c'. c' = c\<lparr>ch_index := ch_index c'\<rparr>) (chans w q) (chans w' q)"
    using assms(1) by (simp add: same_chans_def)
  show ?thesis
  proof (cases "chans w q")
    case None
    then show ?thesis
      using rel by auto
  next
    case (Some c)
    then obtain c' where c': "chans w' q = Some c'" and upd: "c' = c\<lparr>ch_index := ch_index c'\<rparr>"
      using rel by (auto simp: option_rel_Some1)
    have "plain c' = c\<lparr>ch_index := (if ch_index c' = -1 then -1 else 0)\<rparr>"
      by (subst upd) (simp add: plain_def)
    then show ?thesis
      using Some c' assms(2)[OF Some c'] by (auto simp: plain_def)
  qed
qed


section \<open>A poller that keeps the index of strangers\<close>

locale poller_indexed = poller_contract +
  assumes update_index:
      "inv (po, w) \<Longrightarrow> chans w p = Some c \<Longrightarrow>
       lookup po (ch_fd c) = Some p \<or>
         lookup po (ch_fd c) = None \<and> ch_index c = -1 \<and> 0 \<le> ch_fd c \<Longrightarrow>
       upd p (po, w) = Inr (po', w') \<Longrightarrow> chans w q = Some d \<Longrightarrow> chans w' q = Some d' \<Longrightarrow>
       ch_index d' = -1 \<longleftrightarrow> ch_index d = -1 \<and> q \<noteq> p"
    and remove_index:
      "inv (po, w) \<Longrightarrow> chans w p = Some c \<Longrightarrow> lookup po (ch_fd c) = Some p \<Longrightarrow>
       ch_events c = 0 \<Longrightarrow> parked (po, w) (ch_fd c) \<Longrightarrow> rem p (po, w) = Inr (po', w') \<Longrightarrow>
       chans w q = Some d \<Longrightarrow> chans w' q = Some d' \<Longrightarrow>
       ch_index d' = -1 \<longleftrightarrow> ch_index d = -1 \<and> q \<noteq> p"
begin

lemma change_registry:
  assumes cons: "consistent (po, w)" and legal: "reg_legal lookup (Change i p) (po, w)"
    and run: "reg_step upd rem (Change i p) (po, w) = Inr (po', w')"
  shows "registry_of lookup (po', w') = registry_step (statics w) (Change i p) (registry_of lookup (po, w))
    \<and> statics w' = statics w \<and> view po' = view po"
proof -
  obtain c where c: "chans w p = Some c"
      and ok: "lookup po (ch_fd c) = Some p \<or> lookup po (ch_fd c) = None \<and> ch_index c = -1 \<and> 0 \<le> ch_fd c"
    using legal by (auto split: option.splits)
  define d where "d = c\<lparr>ch_events := interest_mask (statics w) i (ch_events c), ch_addedToLoop := True\<rparr>"
  have d: "chans (chan_put p d w) p = Some d" "ch_fd d = ch_fd c" "ch_index d = ch_index c"
    by (simp_all add: chan_put_def d_def)
  have inv': "inv (po, chan_put p d w)"
    using put[of po w p c d] cons c d by (simp add: consistent_def)
  have up: "upd p (po, chan_put p d w) = Inr (po', w')"
    using run c by (simp add: chan_get_def d_def)
  have ok': "lookup po (ch_fd d) = Some p \<or> lookup po (ch_fd d) = None \<and> ch_index d = -1 \<and> 0 \<le> ch_fd d"
    using ok d by simp
  note U = update[OF inv' d(1) ok' up]
  have "map_option plain (chans w' q) = (if q = p then Some (d\<lparr>ch_index := 0\<rparr>) else map_option plain (chans w q))" for q
    using plain_same[of "chan_put p d w" w' q p] U update_index[OF inv' d(1) ok' up] d(1)
    by (auto simp: chan_put_def)
  moreover have "statics w' = statics w"
    using U by (simp add: same_chans_def chan_put_def)
  ultimately show ?thesis
    using U c by (auto simp: registry_of_def d_def plain_def)
qed

lemma drop_registry:
  assumes cons: "consistent (po, w)" and legal: "reg_legal lookup (Drop p) (po, w)"
    and run: "reg_step upd rem (Drop p) (po, w) = Inr (po', w')"
  shows "registry_of lookup (po', w') = registry_step (statics w) (Drop p) (registry_of lookup (po, w))
    \<and> statics w' = statics w \<and> view po' = view po"
proof -
  obtain c where c: "chans w p = Some c" and l: "lookup po (ch_fd c) = Some p" and z: "ch_events c = 0"
    using legal by (auto split: option.splits)
  define d where "d = c\<lparr>ch_addedToLoop := False\<rparr>"
  have inv: "inv (po, w)"
    using cons by (simp add: consistent_def)
  have P: "inv (po, chan_put p d w)" "parked (po, chan_put p d w) = parked (po, w)"
    using put[OF inv c, of d] by (simp_all add: d_def)
  have d: "chans (chan_put p d w) p = Some d" "ch_fd d = ch_fd c" "ch_events d = 0"
    by (simp_all add: chan_put_def d_def z)
  have l': "lookup po (ch_fd d) = Some p" and pk: "parked (po, chan_put p d w) (ch_fd d)"
    using cons l c z d P by (auto simp: consistent_def)
  have up: "rem p (po, chan_put p d w) = Inr (po', w')"
    using run c none_zero[OF inv] z by (simp add: chan_get_def d_def Channel_isNoneEvent_def)
  note R = remove[OF P(1) d(1) l' d(3) pk up]
  have "map_option plain (chans w' q) = (if q = p then Some (d\<lparr>ch_index := 0\<rparr>) else map_option plain (chans w q))" for q
    using plain_same[of "chan_put p d w" w' q p] R remove_index[OF P(1) d(1) l' d(3) pk up] d(1)
    by (auto simp: chan_put_def)
  moreover have "statics w' = statics w"
    using R by (simp add: same_chans_def chan_put_def)
  ultimately show ?thesis
    using R c by (auto simp: registry_of_def d_def plain_def)
qed

text \<open>Every legal sequence: the poller follows the registry, or the kernel stops it.\<close>

lemma run_registry:
  assumes "consistent s" and "registry_legal_run (statics (snd s)) ops (registry_of lookup s)"
  shows "case reg_run upd rem ops s of
      Inl e \<Rightarrow> external e
    | Inr s' \<Rightarrow> consistent s' \<and>
        registry_of lookup s' = registry_run (statics (snd s)) ops (registry_of lookup s) \<and>
        view (fst s') = view (fst s)"
  using assms
proof (induction ops arbitrary: s)
  case (Cons op ops)
  obtain po w where s: "s = (po, w)"
    by (cases s)
  have legal: "reg_legal lookup op (po, w)"
    using Cons.prems(2) registry_legal_of[of w op lookup po] by (simp add: s)
  have out: "case reg_step upd rem op s of Inl e \<Rightarrow> external e | Inr s' \<Rightarrow> consistent s'"
    using Cons.prems(1) legal change_step drop_step by (cases op) (auto simp: s simp del: reg_step.simps)
  show ?case
  proof (cases "reg_step upd rem op s")
    case (Inr s')
    obtain po' w' where s': "s' = (po', w')"
      by (cases s')
    have "registry_of lookup s' = registry_step (statics w) op (registry_of lookup s) \<and>
        statics w' = statics w \<and> view po' = view po"
      using Cons.prems(1) legal change_registry drop_registry Inr
      by (cases op) (auto simp: s s' simp del: reg_step.simps)
    then show ?thesis
      using Cons.IH[of s'] out Inr Cons.prems(2) by (auto simp: s s' split: sum.splits)
  qed (use out in simp)
qed simp

end


section \<open>Both pollers\<close>

lemma epoll_update_index:
  assumes inv: "epoll_inv (ep, w)" and c: "chans w p = Some c"
    and ok: "ep_channels ep (ch_fd c) = Some p \<or>
             ep_channels ep (ch_fd c) = None \<and> ch_index c = -1 \<and> 0 \<le> ch_fd c"
    and run: "EpollPoller_updateChannel True p (ep, w) = Inr (ep', w')"
    and q: "chans w q = Some d" "chans w' q = Some d'"
  shows "ch_index d' = -1 \<longleftrightarrow> ch_index d = -1 \<and> q \<noteq> p"
  using epoll_update_outcome[OF inv c ok run] q by (auto simp: kAdded_def kDeleted_def split: if_splits)

lemma epoll_remove_index:
  assumes c: "chans w p = Some c" and run: "EpollPoller_removeChannel True p (ep, w) = Inr (ep', w')"
    and q: "chans w q = Some d" "chans w' q = Some d'"
  shows "ch_index d' = -1 \<longleftrightarrow> ch_index d = -1 \<and> q \<noteq> p"
  using epoll_remove_outcome[OF c run] q by (auto simp: kDeleted_def split: if_splits)

lemma poll_update_index:
  assumes inv: "poll_inv (pp, w)" and c: "chans w p = Some c"
    and ok: "pp_channels pp (ch_fd c) = Some p \<or>
             pp_channels pp (ch_fd c) = None \<and> ch_index c = -1 \<and> 0 \<le> ch_fd c"
    and run: "PollPoller_updateChannel True p (pp, w) = Inr (pp', w')"
    and q: "chans w q = Some d" "chans w' q = Some d'"
  shows "ch_index d' = -1 \<longleftrightarrow> ch_index d = -1 \<and> q \<noteq> p"
  using ok
proof
  assume reg: "pp_channels pp (ch_fd c) = Some p"
  obtain i where "ch_index c = int i"
    using poll_entry[OF inv reg c] by metis
  moreover have "w' = w"
    using poll_update_old[OF inv c reg] run by auto
  ultimately show ?thesis
    using q c by auto
next
  assume new: "pp_channels pp (ch_fd c) = None \<and> ch_index c = -1 \<and> 0 \<le> ch_fd c"
  then have "w' = chan_put p (Channel_set_index (int (length (pp_pollfds pp))) c) w"
    using run c by (auto simp: PollPoller_updateChannel_def Let_def)
  then show ?thesis
    using q by (auto split: if_splits)
qed

lemma poll_remove_index:
  assumes inv: "poll_inv (pp, w)" and c: "chans w p = Some c"
    and reg: "pp_channels pp (ch_fd c) = Some p" and z: "ch_events c = 0"
    and parked: "poll_parked (pp, w) (ch_fd c)"
    and run: "PollPoller_removeChannel True p (pp, w) = Inr (pp', w')"
    and q: "chans w q = Some d" "chans w' q = Some d'"
  shows "ch_index d' = -1 \<longleftrightarrow> ch_index d = -1 \<and> q \<noteq> p"
proof -
  obtain i r e where i: "ch_index c = int i"
    and r: "pp_channels pp (last (map real_fd (pp_pollfds pp))) = Some r" "chans w r = Some e"
    and w': "w' = chan_put r (Channel_set_index (int i) e) w"
    using poll_remove_outcome[OF inv c reg z parked] run by auto
  obtain j where "ch_index e = int j"
    using poll_entry[OF inv r] by metis
  then show ?thesis
    using q c i r w' by (auto split: if_splits)
qed

interpretation rg: poller_indexed Poller_inv Poller_channels Poller_mask Poller_parked Poller_view
  "Poller_updateChannel True" "Poller_removeChannel True"
proof (unfold_locales, goal_cases)
  case (1 po w p c po' w' q d d')
  then show ?case
    using epoll_update_index[of _ w p c _ w' q d d'] poll_update_index[of _ w p c _ w' q d d']
    by (cases po) (auto simp: res_bind_eq_Inr)
next
  case (2 po w p c po' w' q d d')
  then show ?case
    using epoll_remove_index[of w p c _ _ w' q d d'] poll_remove_index[of _ w p c _ w' q d d']
    by (cases po) (auto simp: res_bind_eq_Inr)
qed

definition registry_interest :: "registry \<Rightarrow> int \<Rightarrow> 32 word" where
  "registry_interest r fd =
     (case fst r fd of
        None \<Rightarrow> 0
      | Some p \<Rightarrow> (case snd r p of None \<Rightarrow> 0 | Some c \<Rightarrow> ch_events c))"

definition registry_start :: "'z hworld_scheme \<Rightarrow> registry" where
  "registry_start w = (\<lambda>_. None, \<lambda>p. map_option plain (chans w p))"

lemma new_poller_registry:
  assumes "Poller_newDefaultPoller EPoll w = Inr (po, w')"
  shows "registry_of Poller_channels (po, w') = registry_start w" and "statics w' = statics w"
    and "Poller_view po = (if EPoll then (\<lambda>m. m) else poll_view)"
  using assms
  by (auto simp: Poller_newDefaultPoller_def EpollPoller_new_def PollPoller_new_def res_bind_eq_Inr sys_int_Inr
      registry_of_def registry_start_def split: if_splits)

lemma poller_follows_registry:
  assumes new: "Poller_newDefaultPoller EPoll w = Inr (po, w')"
    and statics: "kNoneEvent (statics w) = 0"
    and fresh: "\<And>epfd. kernel_interest epfd (trace w) = (\<lambda>_. None)"
    and legal: "registry_legal_run (statics w) ops (registry_start w)"
  shows "case Poller_run ops (po, w') of
      Inl e \<Rightarrow> external e
    | Inr s \<Rightarrow> registry_of Poller_channels s = registry_run (statics w) ops (registry_start w) \<and>
        (\<forall>fd. Poller_mask s fd =
           (if EPoll then (\<lambda>m. m) else poll_view) (registry_interest (registry_of Poller_channels s) fd))"
proof (cases "Poller_run ops (po, w')")
  case (Inl e)
  have "po.consistent (po, w')"
    using new_poller_consistent[OF new statics fresh] by (simp add: Poller_consistent_eq)
  then show ?thesis
    using rg.run_registry[of "(po, w')" ops] new_poller_registry[OF new] legal Inl by simp
next
  case (Inr s)
  have "po.consistent (po, w')"
    using new_poller_consistent[OF new statics fresh] by (simp add: Poller_consistent_eq)
  then have s: "po.consistent s" "registry_of Poller_channels s = registry_run (statics w) ops (registry_start w)"
      "Poller_view (fst s) = (if EPoll then (\<lambda>m. m) else poll_view)"
    using rg.run_registry[of "(po, w')" ops] new_poller_registry[OF new] legal Inr by simp_all
  have "Poller_mask s fd = Poller_view (fst s) (registry_interest (registry_of Poller_channels s) fd)" for fd
    using po.consistent_mask[of "fst s" "snd s" fd] s(1,3)
    by (auto simp: registry_of_def registry_interest_def poll_view_def split: option.splits)
  then show ?thesis
    using Inr s(2,3) by simp
qed

text \<open>
  C10. \<^verbatim>\<open>EpollPoller\<close> and \<^verbatim>\<open>PollPoller\<close> are interchangeable: both start as the same empty registry, and after any
  sequence of interest changes and removals that the rules allow, both hold the same descriptors
  and channels as the registry, and the kernel watches the same events, up to the 16 bits \<^verbatim>\<open>poll\<close> has.
  Neither fails unless the kernel does.
\<close>

theorem pollers_agree:
  assumes epoll: "Poller_newDefaultPoller True w = Inr (e0, we)"
    and poll: "Poller_newDefaultPoller False w = Inr (p0, wp)"
    and statics: "kNoneEvent (statics w) = 0"
    and fresh: "\<And>epfd. kernel_interest epfd (trace w) = (\<lambda>_. None)"
    and legal: "registry_legal_run (statics w) ops (registry_start w)"
  shows "case (Poller_run ops (e0, we), Poller_run ops (p0, wp)) of
      (Inr (e, ve), Inr (p, vp)) \<Rightarrow>
        registry_of Poller_channels (e, ve) = registry_run (statics w) ops (registry_start w) \<and>
        registry_of Poller_channels (p, vp) = registry_of Poller_channels (e, ve) \<and>
        (\<forall>fd. Poller_mask (p, vp) fd = poll_view (Poller_mask (e, ve) fd))
    | (Inl x, Inl y) \<Rightarrow> external x \<and> external y
    | (Inl x, Inr s) \<Rightarrow> external x
    | (Inr s, Inl y) \<Rightarrow> external y"
  using poller_follows_registry[OF epoll statics fresh legal] poller_follows_registry[OF poll statics fresh legal]
  by (auto split: sum.splits)

text \<open>Two channels: one comes, changes its interests and goes, the other stays.\<close>

definition agree_demo :: hworld where
  "agree_demo = poller_demo\<lparr>tape := [SysNum 3, SysNum 0, SysNum 0, SysNum 0]\<rparr>"

theorem pollers_agree_witness:
  "\<exists>e0 we e ve p vp. Poller_newDefaultPoller True agree_demo = Inr (e0, we) \<and>
     Poller_run poller_demo_ops (e0, we) = Inr (e, ve) \<and>
     Poller_run poller_demo_ops (Poll PollPoller_new, agree_demo) = Inr (p, vp) \<and>
     registry_of Poller_channels (p, vp) = registry_of Poller_channels (e, ve) \<and>
     Poller_mask (p, vp) 6 = poll_view (Poller_mask (e, ve) 6)"
proof -
  let ?e0 = "Epoll \<lparr>ep_channels = (\<lambda>_. None), ep_epollfd = 3, ep_events_size = kInitEventListSize\<rparr>"
  let ?we = "agree_demo\<lparr>tape := [SysNum 0, SysNum 0, SysNum 0], trace := [CallEpollCreate]\<rparr>"
  have new: "Poller_newDefaultPoller True agree_demo = Inr (?e0, ?we)"
      "Poller_newDefaultPoller False agree_demo = Inr (Poll PollPoller_new, agree_demo)"
    by (simp_all add: Poller_newDefaultPoller_def EpollPoller_new_def agree_demo_def poller_demo_def sys_int_def sys_def)
  have world: "kNoneEvent (statics agree_demo) = 0" "kernel_interest epfd (trace agree_demo) = (\<lambda>_. None)" for epfd
    by (simp_all add: agree_demo_def poller_demo_def kernel_interest_def)
  have legal: "registry_legal_run (statics agree_demo) poller_demo_ops (registry_start agree_demo)"
    by (simp add: agree_demo_def poller_demo_def poller_demo_ops_def registry_start_def plain_def Channel_new_def)
  obtain e ve where e: "Poller_run poller_demo_ops (?e0, ?we) = Inr (e, ve)"
    by (simp add: agree_demo_def poller_demo_def poller_demo_ops_def Channel_new_def EpollPoller_updateChannel_def
        EpollPoller_removeChannel_def EpollPoller_update_def sys_int_def sys_def kNew_def kAdded_def kDeleted_def
        chan_get_def chan_put_def Channel_set_index_def Channel_isNoneEvent_def)
  obtain p vp where p: "Poller_run poller_demo_ops (Poll PollPoller_new, agree_demo) = Inr (p, vp)"
    by (simp add: agree_demo_def poller_demo_def poller_demo_ops_def PollPoller_new_def Channel_new_def
        PollPoller_updateChannel_def PollPoller_removeChannel_def PollPoller_setIndexAt_def
        chan_get_def chan_put_def Channel_set_index_def Channel_isNoneEvent_def)
  show ?thesis
    using pollers_agree[OF new world legal] new(1) e p by auto
qed

end
