(* ===== verification/Timer.thy ===== *)
theory Timer
  imports Callbacks Os "HOL-Library.Product_Lexorder"
begin

text \<open>
  \<^verbatim>\<open>Timer\<close> (\<^verbatim>\<open>twnl/Timer.h\<close>) and the parts of \<^verbatim>\<open>TimerQueue\<close> (\<^verbatim>\<open>twnl/TimerQueue.cc\<close>) that need no event
  loop: the timer file descriptor and the ordered set of entries. Times and intervals are in
  nanoseconds (64 bit overflow, some 292 years away from the epoch, is not modelled). A
  \<^verbatim>\<open>std::set<std::pair<Timestamp, Timer*>>\<close> is the strictly sorted list of its elements, under the
  lexicographic order of \<^verbatim>\<open>std::pair\<close>; the null pointer is 0.
\<close>

record timer =
  tm_callback :: "timer_cb option"
  tm_when :: int
  tm_interval :: int
  tm_repeat :: bool
  tm_canceled :: bool

definition Timer_new :: "timer_cb option \<Rightarrow> int \<Rightarrow> int \<Rightarrow> timer" where
  "Timer_new callback wh interval =
     \<lparr>tm_callback = callback, tm_when = wh, tm_interval = interval, tm_repeat = (interval > 0),
      tm_canceled = False\<rparr>"

definition Timer_run :: "(timer_cb \<Rightarrow> 'w \<Rightarrow> 'w res) \<Rightarrow> timer \<Rightarrow> 'w \<Rightarrow> 'w res" where
  "Timer_run run t w = (case tm_callback t of None \<Rightarrow> Inr w | Some cb \<Rightarrow> run cb w)"

definition Timer_expired :: "int \<Rightarrow> timer \<Rightarrow> bool" where
  "Timer_expired now t \<longleftrightarrow> now \<ge> tm_when t"

definition Timer_restart :: "timer \<Rightarrow> timer res" where
  "Timer_restart t =
     res_bind (cassert (tm_repeat t) ''repeat_'') (\<lambda>_. Inr (t\<lparr>tm_when := tm_when t + tm_interval t\<rparr>))"

definition Timer_cancel :: "timer \<Rightarrow> timer res" where
  "Timer_cancel t =
     res_bind (cassert (\<not> tm_canceled t) ''!canceled_'') (\<lambda>_. Inr (t\<lparr>tm_canceled := True\<rparr>))"


section \<open>The timer descriptor\<close>

definition timerfdCreate :: "'z os_scheme \<Rightarrow> (int \<times> 'z os_scheme) res" where
  "timerfdCreate w =
     res_bind (sys_int CallTimerfdCreate w) (\<lambda>(fd, e, w').
       if fd = -1 then Inl (Fatal ''timer_create()'') else Inr (fd, w'))"

definition timerfdRead :: "int \<Rightarrow> 'z os_scheme \<Rightarrow> 'z os_scheme res" where
  "timerfdRead fd w = res_bind (sockets_read fd 8 w) (\<lambda>(n, e, w'). Inr w')"

text \<open>The relative time as \<^verbatim>\<open>tv_sec\<close> and \<^verbatim>\<open>tv_nsec\<close>; \<^verbatim>\<open>1ms\<close> is 1000000 and \<^verbatim>\<open>std::nano::den\<close> 1000000000
  nanoseconds.\<close>

definition durationFromNow :: "int \<Rightarrow> 'z os_scheme \<Rightarrow> ((int \<times> int) \<times> 'z os_scheme) res" where
  "durationFromNow wh w =
     res_bind (clock_now w) (\<lambda>(now, w').
       let ns = wh - now;
           ns = (if ns < 1000000 then 1000000 else ns)
       in Inr ((ns div 1000000000, ns mod 1000000000), w'))"

definition timerfdSet :: "int \<Rightarrow> int \<Rightarrow> 'z os_scheme \<Rightarrow> 'z os_scheme res" where
  "timerfdSet fd wh w =
     res_bind (durationFromNow wh w) (\<lambda>((sec, nsec), w1).
     res_bind (sys_int (CallTimerfdSettime fd sec nsec) w1) (\<lambda>(ret, e, w2).
       if ret = -1 then Inl (Fatal ''timerfd_settime()'') else Inr w2))"


section \<open>The ordered set\<close>

type_synonym entry = "int \<times> ptr"

definition set_insert :: "entry \<Rightarrow> entry list \<Rightarrow> bool \<times> entry list" where
  "set_insert e es = (e \<notin> set es, if e \<in> set es then es else insort e es)"

definition set_erase :: "entry \<Rightarrow> entry list \<Rightarrow> entry list" where
  "set_erase e es = filter (\<lambda>x. x \<noteq> e) es"

text \<open>
  \<^verbatim>\<open>lower_bound\<close> is the position of the first element not less than the key; the entries before
  it are returned and erased.
\<close>

definition lower_bound :: "entry \<Rightarrow> entry list \<Rightarrow> nat" where
  "lower_bound e es = length (takeWhile (\<lambda>x. x < e) es)"

definition getExpired :: "int \<Rightarrow> entry list \<Rightarrow> entry list \<times> entry list" where
  "getExpired now es = (let n = lower_bound (now + 1, 0) es in (take n es, drop n es))"


section \<open>Lemmas\<close>

lemma timerfdRead_os_step: "timerfdRead fd w = Inr w' \<Longrightarrow> os_step w w'"
  by (auto simp: timerfdRead_def res_bind_eq_Inr dest: sockets_read_os_step)

lemma timerfdSet_os_step: "timerfdSet fd wh w = Inr w' \<Longrightarrow> os_step w w'"
  by (auto simp: timerfdSet_def durationFromNow_def res_bind_eq_Inr Let_def split: if_splits
      dest!: clock_now_os_step sys_int_os_step elim: os_step_trans)

lemma set_insert_sorted:
  "sorted es \<Longrightarrow> distinct es \<Longrightarrow> sorted (snd (set_insert e es)) \<and> distinct (snd (set_insert e es))"
  by (simp add: set_insert_def sorted_insort distinct_insort)

lemma set_set_insert [simp]: "set (snd (set_insert e es)) = insert e (set es)"
  by (auto simp: set_insert_def set_insort_key)

lemma set_erase_sorted:
  "sorted es \<Longrightarrow> distinct es \<Longrightarrow> sorted (set_erase e es) \<and> distinct (set_erase e es)"
  by (simp add: set_erase_def sorted_wrt_filter)

lemma set_set_erase [simp]: "set (set_erase e es) = set es - {e}"
  by (auto simp: set_erase_def)

lemma hd_sorted_le: "sorted es \<Longrightarrow> x \<in> set es \<Longrightarrow> hd es \<le> x"
  by (cases es) auto

lemma entry_le: "(x :: entry) \<le> y \<Longrightarrow> fst x \<le> fst y"
  by (auto simp: less_eq_prod_def)

lemma entry_less_iff: "(e :: entry) < (now + 1, 0) \<longleftrightarrow> fst e \<le> now"
  by (cases e) (auto simp: less_prod_def)

lemma expired_prefix:
  assumes "sorted es"
  shows "takeWhile (\<lambda>x :: entry. fst x \<le> now) es = filter (\<lambda>x. fst x \<le> now) es \<and>
         dropWhile (\<lambda>x :: entry. fst x \<le> now) es = filter (\<lambda>x. now < fst x) es"
  using assms
proof (induction es)
  case (Cons e es)
  have le: "fst e \<le> fst x" if "x \<in> set es" for x
    using Cons.prems that entry_le by auto
  show ?case
  proof (cases "fst e \<le> now")
    case True
    then show ?thesis
      using Cons by simp
  next
    case False
    then have later: "\<forall>x \<in> set es. now < fst x"
      using le by force
    then have "filter (\<lambda>x. fst x \<le> now) es = []" "filter (\<lambda>x. now < fst x) es = es"
      by (auto simp: filter_empty_conv filter_id_conv)
    then show ?thesis
      using False by simp
  qed
qed simp

text \<open>The expired entries are those at or before \<open>now\<close>, in order; the others stay.\<close>

lemma getExpired_eq:
  assumes "sorted es"
  shows "getExpired now es = (filter (\<lambda>e. fst e \<le> now) es, filter (\<lambda>e. now < fst e) es)"
proof -
  have "getExpired now es =
      (takeWhile (\<lambda>e. fst e \<le> now) es, dropWhile (\<lambda>e. fst e \<le> now) es)"
    by (simp add: getExpired_def lower_bound_def entry_less_iff takeWhile_eq_take[symmetric]
        dropWhile_eq_drop[symmetric] Let_def)
  then show ?thesis
    using expired_prefix[OF assms] by simp
qed


section \<open>Properties\<close>

text \<open>
  Arming the timer descriptor for an absolute time asks the kernel for the distance from the
  clock reading, at least one millisecond, split into seconds and nanoseconds the kernel accepts
  (\<^verbatim>\<open>0 <= tv_nsec < 1000000000\<close>, not both zero, which would disarm it); the call is made once and
  any refusal aborts.
\<close>

theorem timerfd_duration:
  assumes tape: "tape w = SysNum now # r # rest"
  shows "\<exists>sec nsec. sec * 1000000000 + nsec = max 1000000 (wh - now) \<and>
     0 \<le> sec \<and> 0 \<le> nsec \<and> nsec < 1000000000 \<and> (sec, nsec) \<noteq> (0, 0) \<and>
     (case timerfdSet fd wh w of
        Inr w' \<Rightarrow> r \<in> range SysNum \<and> tape w' = rest \<and>
                  trace w' = trace w @ [CallNow, CallTimerfdSettime fd sec nsec]
      | Inl e \<Rightarrow> e = Fatal ''timerfd_settime()'' \<or> e = Kernel)"
proof -
  define ns where "ns = max 1000000 (wh - now)"
  have ns: "1000000 \<le> ns" "(if wh - now < 1000000 then 1000000 else wh - now) = ns"
    by (auto simp: ns_def)
  have "ns div 1000000000 * 1000000000 + ns mod 1000000000 = ns"
    by simp
  moreover have "0 \<le> ns div 1000000000" "0 \<le> ns mod 1000000000" "ns mod 1000000000 < 1000000000"
    using ns(1) by auto
  moreover from this have "(ns div 1000000000, ns mod 1000000000) \<noteq> (0, 0)"
    using ns(1) by auto
  moreover have "case timerfdSet fd wh w of
        Inr w' \<Rightarrow> r \<in> range SysNum \<and> tape w' = rest \<and>
          trace w' = trace w @ [CallNow, CallTimerfdSettime fd (ns div 1000000000) (ns mod 1000000000)]
      | Inl e \<Rightarrow> e = Fatal ''timerfd_settime()'' \<or> e = Kernel"
    using tape ns(2)
    by (auto simp: timerfdSet_def durationFromNow_def clock_now_def sys_def sys_int_def Let_def
        split: sys_ret.splits)
  ultimately show ?thesis
    unfolding ns_def by blast
qed

theorem timerfd_duration_witness:
  "\<exists>sec nsec. sec * 1000000000 + nsec = (3500000000 :: int) \<and>
     (case timerfdSet 7 4000000000 \<lparr>tape = [SysNum 500000000, SysNum 0], trace = [],
             os_local = (\<lambda>_. None), os_peer = (\<lambda>_. None)\<rparr> of
        Inr w' \<Rightarrow> trace w' = [CallNow, CallTimerfdSettime 7 sec nsec] | Inl e \<Rightarrow> False)"
  using timerfd_duration[of "\<lparr>tape = [SysNum 500000000, SysNum 0], trace = [],
             os_local = (\<lambda>_. None), os_peer = (\<lambda>_. None)\<rparr>" 500000000 "SysNum 0" "[]" 4000000000 7]
  by (auto simp: timerfdSet_def durationFromNow_def clock_now_def sys_def sys_int_def)

end
