(* ===== verification/Event_Loop.thy ===== *)
theory Event_Loop
  imports Poller_Laws Timer
begin

text \<open>
  \<^verbatim>\<open>EventLoop\<close> (\<^verbatim>\<open>twnl/EventLoop.h\<close>, \<^verbatim>\<open>twnl/EventLoop.cc\<close>), the members of \<^verbatim>\<open>Channel\<close> that go through it and
  the construction of its \<^verbatim>\<open>TimerQueue\<close>. A state extends \<open>world\<close>: the operating system, the channels
  and the static masks of \<open>hworld\<close>, the event loops and the timers on the heap, and the
  thread-local \<^verbatim>\<open>t_loopInThisThread\<close>. The argument \<open>me\<close> is the calling thread, \<open>L\<close> the loop.

  What a stored callable does is an argument: \<open>run_cb\<close> for the callbacks of channels, \<open>run_f\<close> for
  the functors of \<^verbatim>\<open>runInLoop\<close>. The field \<open>el_armedFor\<close> is not in the code: it records the time the
  timer descriptor was last armed for. A call of \<^verbatim>\<open>runInLoop\<close> in the loop's own thread runs the functor at
  once, so it is given its name and its body. The unbounded \<^verbatim>\<open>while (!quit_)\<close> has a bound on the
  number of iterations as its argument.
\<close>

record evloop =
  el_looping :: bool
  el_quit :: bool
  el_callingPendingFunctors :: bool
  el_threadId :: nat
  el_pollReturnTime :: int
  el_poller :: poller
  el_timerfd :: int
  el_timerChannel :: ptr
  el_timers :: "entry list"
  el_armedFor :: "int option"
  el_wakeupFd :: int
  el_wakeupChannel :: ptr
  el_activeChannels :: "ptr list"
  el_pendingFunctors :: "loop_functor list"

record world = hworld +
  loops :: "ptr \<Rightarrow> evloop option"
  timers :: "ptr \<Rightarrow> timer option"
  t_loopInThisThread :: "nat \<Rightarrow> ptr option"

definition kPollTimeMs :: int where "kPollTimeMs = 10000"

definition loop_get :: "ptr \<Rightarrow> 'z world_scheme \<Rightarrow> evloop res" where
  "loop_get L w =
     (case loops w L of None \<Rightarrow> Inl (Undefined ''use of a destroyed EventLoop'') | Some el \<Rightarrow> Inr el)"

definition loop_put :: "ptr \<Rightarrow> evloop \<Rightarrow> 'z world_scheme \<Rightarrow> 'z world_scheme" where
  "loop_put L el w = w\<lparr>loops := (loops w)(L := Some el)\<rparr>"

definition loop_mod :: "ptr \<Rightarrow> (evloop \<Rightarrow> evloop) \<Rightarrow> 'z world_scheme \<Rightarrow> 'z world_scheme res" where
  "loop_mod L f w = res_bind (loop_get L w) (\<lambda>el. Inr (loop_put L (f el) w))"

definition EventLoop_isInLoopThread :: "nat \<Rightarrow> evloop \<Rightarrow> bool" where
  "EventLoop_isInLoopThread me el \<longleftrightarrow> el_threadId el = me"

definition EventLoop_assertInLoopThread :: "nat \<Rightarrow> ptr \<Rightarrow> 'z world_scheme \<Rightarrow> unit res" where
  "EventLoop_assertInLoopThread me L w =
     res_bind (loop_get L w) (\<lambda>el. assertInLoopThread (EventLoop_isInLoopThread me el))"

definition EventLoop_updateChannel ::
    "nat \<Rightarrow> ptr \<Rightarrow> ptr \<Rightarrow> 'z world_scheme \<Rightarrow> 'z world_scheme res" where
  "EventLoop_updateChannel me L channel w =
     res_bind (chan_get channel w) (\<lambda>c.
     res_bind (cassert (ch_loop c = L) ''channel->ownerloop() == this'') (\<lambda>_.
     res_bind (EventLoop_assertInLoopThread me L w) (\<lambda>_.
     res_bind (loop_get L w) (\<lambda>el.
     res_bind (Poller_updateChannel (EventLoop_isInLoopThread me el) channel (el_poller el, w))
       (\<lambda>(po, w'). Inr (loop_put L (el\<lparr>el_poller := po\<rparr>) w'))))))"

definition EventLoop_removeChannel ::
    "nat \<Rightarrow> ptr \<Rightarrow> ptr \<Rightarrow> 'z world_scheme \<Rightarrow> 'z world_scheme res" where
  "EventLoop_removeChannel me L channel w =
     res_bind (chan_get channel w) (\<lambda>c.
     res_bind (cassert (ch_loop c = L) ''channel->ownerloop() == this'') (\<lambda>_.
     res_bind (EventLoop_assertInLoopThread me L w) (\<lambda>_.
     res_bind (loop_get L w) (\<lambda>el.
     res_bind (Poller_removeChannel (EventLoop_isInLoopThread me el) channel (el_poller el, w))
       (\<lambda>(po, w'). Inr (loop_put L (el\<lparr>el_poller := po\<rparr>) w'))))))"


section \<open>Channel\<close>

definition Channel_update :: "nat \<Rightarrow> ptr \<Rightarrow> 'z world_scheme \<Rightarrow> 'z world_scheme res" where
  "Channel_update me p w =
     res_bind (chan_get p w) (\<lambda>c.
       EventLoop_updateChannel me (ch_loop c) p (chan_put p (c\<lparr>ch_addedToLoop := True\<rparr>) w))"

definition Channel_remove :: "nat \<Rightarrow> ptr \<Rightarrow> 'z world_scheme \<Rightarrow> 'z world_scheme res" where
  "Channel_remove me p w =
     res_bind (chan_get p w) (\<lambda>c.
     res_bind (cassert (Channel_isNoneEvent (statics w) c) ''isNoneEvent()'') (\<lambda>_.
       EventLoop_removeChannel me (ch_loop c) p (chan_put p (c\<lparr>ch_addedToLoop := False\<rparr>) w)))"

text \<open>\<^verbatim>\<open>enableReading\<close>, \<^verbatim>\<open>disableReading\<close>, \<^verbatim>\<open>enableWriting\<close>, \<^verbatim>\<open>disableWriting\<close> and \<^verbatim>\<open>disableAll\<close>.\<close>

definition Channel_interest :: "nat \<Rightarrow> interest \<Rightarrow> ptr \<Rightarrow> 'z world_scheme \<Rightarrow> 'z world_scheme res" where
  "Channel_interest me i p w =
     res_bind (chan_get p w) (\<lambda>c.
       Channel_update me p
         (chan_put p (c\<lparr>ch_events := interest_mask (statics w) i (ch_events c)\<rparr>) w))"

text \<open>
  \<^verbatim>\<open>handleEvent\<close>: the four tests, each on the members of the channel at that moment, since a
  callback may change them or destroy the channel.
\<close>

definition revents_close :: "channel \<Rightarrow> bool" where
  "revents_close c \<longleftrightarrow> ch_revents c AND EPOLLHUP \<noteq> 0 \<and> ch_revents c AND EPOLLIN = 0"

definition revents_error :: "channel \<Rightarrow> bool" where
  "revents_error c \<longleftrightarrow> ch_revents c AND EPOLLERR \<noteq> 0"

definition revents_read :: "channel \<Rightarrow> bool" where
  "revents_read c \<longleftrightarrow> ch_revents c AND (EPOLLIN OR EPOLLPRI OR EPOLLRDHUP) \<noteq> 0"

definition revents_write :: "channel \<Rightarrow> bool" where
  "revents_write c \<longleftrightarrow> ch_revents c AND EPOLLOUT \<noteq> 0"

definition Channel_callback ::
    "(channel_cb \<Rightarrow> int \<Rightarrow> 'z world_scheme \<Rightarrow> 'z world_scheme res) \<Rightarrow> int \<Rightarrow> ptr \<Rightarrow> (channel \<Rightarrow> bool) \<Rightarrow>
     (channel \<Rightarrow> channel_cb option) \<Rightarrow> 'z world_scheme \<Rightarrow> 'z world_scheme res" where
  "Channel_callback run_cb receiveTime p test callback w =
     res_bind (chan_get p w) (\<lambda>c.
       if test c
       then (case callback c of None \<Rightarrow> Inr w | Some cb \<Rightarrow> run_cb cb receiveTime w)
       else Inr w)"

definition Channel_handleEvent ::
    "(channel_cb \<Rightarrow> int \<Rightarrow> 'z world_scheme \<Rightarrow> 'z world_scheme res) \<Rightarrow> int \<Rightarrow> ptr \<Rightarrow>
     'z world_scheme \<Rightarrow> 'z world_scheme res" where
  "Channel_handleEvent run_cb receiveTime p w =
     res_bind (chan_get p w) (\<lambda>c.
     res_bind (Channel_callback run_cb receiveTime p revents_close ch_closeCallback
                (chan_put p (c\<lparr>ch_eventHanding := True\<rparr>) w)) (\<lambda>w1.
     res_bind (Channel_callback run_cb receiveTime p revents_error ch_errorCallback w1) (\<lambda>w2.
     res_bind (Channel_callback run_cb receiveTime p revents_read ch_readCallback w2) (\<lambda>w3.
     res_bind (Channel_callback run_cb receiveTime p revents_write ch_writeCallback w3) (\<lambda>w4.
     res_bind (chan_get p w4) (\<lambda>c4.
       Inr (chan_put p (c4\<lparr>ch_eventHanding := False\<rparr>) w4)))))))"


section \<open>Waking the loop\<close>

definition one_bytes :: "char list" where
  "one_bytes = CHR 0x01 # replicate 7 (CHR 0x00)"

definition EventLoop_wakeup :: "ptr \<Rightarrow> 'z world_scheme \<Rightarrow> 'z world_scheme res" where
  "EventLoop_wakeup L w =
     res_bind (loop_get L w) (\<lambda>el.
     res_bind (sockets_write (el_wakeupFd el) one_bytes w) (\<lambda>(n, e, w'). Inr w'))"

definition EventLoop_handleRead :: "ptr \<Rightarrow> 'z world_scheme \<Rightarrow> 'z world_scheme res" where
  "EventLoop_handleRead L w =
     res_bind (loop_get L w) (\<lambda>el.
     res_bind (sockets_read (el_wakeupFd el) 8 w) (\<lambda>(n, e, w'). Inr w'))"

text \<open>\<^verbatim>\<open>queueInLoop\<close> in its two parts: the push under the mutex, and the wakeup.\<close>

definition queue_push :: "loop_functor \<Rightarrow> evloop \<Rightarrow> evloop" where
  "queue_push f el = el\<lparr>el_pendingFunctors := el_pendingFunctors el @ [f]\<rparr>"

definition queue_must_wake :: "nat \<Rightarrow> evloop \<Rightarrow> bool" where
  "queue_must_wake me el \<longleftrightarrow> \<not> EventLoop_isInLoopThread me el \<or> el_callingPendingFunctors el"

definition EventLoop_queueInLoop ::
    "nat \<Rightarrow> ptr \<Rightarrow> loop_functor \<Rightarrow> 'z world_scheme \<Rightarrow> 'z world_scheme res" where
  "EventLoop_queueInLoop me L f w =
     res_bind (loop_mod L (queue_push f) w) (\<lambda>w1.
     res_bind (loop_get L w1) (\<lambda>el.
       if queue_must_wake me el then EventLoop_wakeup L w1 else Inr w1))"

definition EventLoop_runInLoop ::
    "nat \<Rightarrow> ptr \<Rightarrow> loop_functor \<Rightarrow> ('z world_scheme \<Rightarrow> 'z world_scheme res) \<Rightarrow>
     'z world_scheme \<Rightarrow> 'z world_scheme res" where
  "EventLoop_runInLoop me L f body w =
     res_bind (loop_get L w) (\<lambda>el.
       if EventLoop_isInLoopThread me el then body w else EventLoop_queueInLoop me L f w)"

definition EventLoop_quit :: "nat \<Rightarrow> ptr \<Rightarrow> 'z world_scheme \<Rightarrow> 'z world_scheme res" where
  "EventLoop_quit me L w =
     res_bind (loop_mod L (\<lambda>el. el\<lparr>el_quit := True\<rparr>) w) (\<lambda>w1.
     res_bind (loop_get L w1) (\<lambda>el.
       if \<not> EventLoop_isInLoopThread me el then EventLoop_wakeup L w1 else Inr w1))"


section \<open>The loop\<close>

fun run_all :: "('a \<Rightarrow> 'w \<Rightarrow> 'w res) \<Rightarrow> 'a list \<Rightarrow> 'w \<Rightarrow> 'w res" where
  "run_all f [] w = Inr w"
| "run_all f (x # xs) w = res_bind (f x w) (run_all f xs)"

text \<open>The start of \<^verbatim>\<open>doPendingFunctors\<close>: the flag, then the swap under the mutex.\<close>

definition pending_swap :: "evloop \<Rightarrow> loop_functor list \<times> evloop" where
  "pending_swap el =
     (el_pendingFunctors el, el\<lparr>el_callingPendingFunctors := True, el_pendingFunctors := []\<rparr>)"

text \<open>
  At the end of \<^verbatim>\<open>doPendingFunctors\<close> the local vector of functors is destroyed, and with it the references
  the functors hold; what that does is the argument \<open>drop_f\<close>.
\<close>

definition EventLoop_doPendingFunctors ::
    "(loop_functor \<Rightarrow> 'z world_scheme \<Rightarrow> 'z world_scheme res) \<Rightarrow>
     (loop_functor list \<Rightarrow> 'z world_scheme \<Rightarrow> 'z world_scheme res) \<Rightarrow> ptr \<Rightarrow>
     'z world_scheme \<Rightarrow> 'z world_scheme res" where
  "EventLoop_doPendingFunctors run_f drop_f L w =
     res_bind (loop_get L w) (\<lambda>el.
     let (functors, el1) = pending_swap el in
     res_bind (run_all run_f functors (loop_put L el1 w)) (\<lambda>w2.
     res_bind (loop_mod L (\<lambda>el2. el2\<lparr>el_callingPendingFunctors := False\<rparr>) w2) (\<lambda>w3.
       drop_f functors w3)))"

definition EventLoop_iterate ::
    "nat \<Rightarrow> (channel_cb \<Rightarrow> int \<Rightarrow> 'z world_scheme \<Rightarrow> 'z world_scheme res) \<Rightarrow>
     (loop_functor \<Rightarrow> 'z world_scheme \<Rightarrow> 'z world_scheme res) \<Rightarrow>
     (loop_functor list \<Rightarrow> 'z world_scheme \<Rightarrow> 'z world_scheme res) \<Rightarrow> ptr \<Rightarrow>
     'z world_scheme \<Rightarrow> 'z world_scheme res" where
  "EventLoop_iterate me run_cb run_f drop_f L w =
     res_bind (loop_get L w) (\<lambda>el.
     res_bind (Poller_poll (EventLoop_isInLoopThread me el) kPollTimeMs (el_poller el, w))
       (\<lambda>(t, active, po, w1).
     let w2 = loop_put L (el\<lparr>el_poller := po, el_pollReturnTime := t, el_activeChannels := active\<rparr>) w1
     in res_bind (run_all (Channel_handleEvent run_cb t) active w2) (\<lambda>w3.
          EventLoop_doPendingFunctors run_f drop_f L w3)))"

fun EventLoop_while ::
    "nat \<Rightarrow> nat \<Rightarrow> (channel_cb \<Rightarrow> int \<Rightarrow> 'z world_scheme \<Rightarrow> 'z world_scheme res) \<Rightarrow>
     (loop_functor \<Rightarrow> 'z world_scheme \<Rightarrow> 'z world_scheme res) \<Rightarrow>
     (loop_functor list \<Rightarrow> 'z world_scheme \<Rightarrow> 'z world_scheme res) \<Rightarrow> ptr \<Rightarrow>
     'z world_scheme \<Rightarrow> (bool \<times> 'z world_scheme) res" where
  "EventLoop_while 0 me run_cb run_f drop_f L w = Inr (False, w)"
| "EventLoop_while (Suc n) me run_cb run_f drop_f L w =
     res_bind (loop_get L w) (\<lambda>el.
       if el_quit el then Inr (True, w)
       else res_bind (EventLoop_iterate me run_cb run_f drop_f L w)
              (EventLoop_while n me run_cb run_f drop_f L))"

definition EventLoop_loop ::
    "nat \<Rightarrow> nat \<Rightarrow> (channel_cb \<Rightarrow> int \<Rightarrow> 'z world_scheme \<Rightarrow> 'z world_scheme res) \<Rightarrow>
     (loop_functor \<Rightarrow> 'z world_scheme \<Rightarrow> 'z world_scheme res) \<Rightarrow>
     (loop_functor list \<Rightarrow> 'z world_scheme \<Rightarrow> 'z world_scheme res) \<Rightarrow> ptr \<Rightarrow>
     'z world_scheme \<Rightarrow> (bool \<times> 'z world_scheme) res" where
  "EventLoop_loop n me run_cb run_f drop_f L w =
     res_bind (loop_get L w) (\<lambda>el.
     res_bind (cassert (\<not> el_looping el) ''!looping_'') (\<lambda>_.
     res_bind (EventLoop_assertInLoopThread me L w) (\<lambda>_.
     res_bind (EventLoop_while n me run_cb run_f drop_f L
                (loop_put L (el\<lparr>el_looping := True, el_quit := False\<rparr>) w)) (\<lambda>(ended, w1).
       if ended
       then res_bind (loop_mod L (\<lambda>el. el\<lparr>el_looping := False\<rparr>) w1) (\<lambda>w2. Inr (True, w2))
       else Inr (False, w1)))))"


section \<open>Construction\<close>

definition createEventfd :: "'z os_scheme \<Rightarrow> (int \<times> 'z os_scheme) res" where
  "createEventfd w =
     res_bind (sys_int CallEventfd w) (\<lambda>(fd, e, w').
       if fd < 0 then Inl (Fatal ''Failed in eventfd'') else Inr (fd, w'))"

text \<open>
  The constructor of \<^verbatim>\<open>TimerQueue\<close>, a member of the loop; \<open>tc\<close> is the address of its channel. The
  members of the loop before it (\<^verbatim>\<open>threadId_\<close>, \<^verbatim>\<open>poller_\<close>) are set when it runs.
\<close>

definition TimerQueue_new :: "nat \<Rightarrow> ptr \<Rightarrow> ptr \<Rightarrow> 'z world_scheme \<Rightarrow> 'z world_scheme res" where
  "TimerQueue_new me L tc w =
     res_bind (timerfdCreate w) (\<lambda>(fd, w1).
     let w2 = chan_put tc (Channel_new L fd) w1 in
     res_bind (loop_mod L (\<lambda>el. el\<lparr>el_timerfd := fd, el_timerChannel := tc, el_timers := []\<rparr>) w2) (\<lambda>w3.
     res_bind (EventLoop_assertInLoopThread me L w3) (\<lambda>_.
     res_bind (chan_get tc w3) (\<lambda>c.
       Channel_interest me EnableReading tc
         (chan_put tc (Channel_setReadCallback (CbTimerQueueRead L) c) w3)))))"

datatype loop_mode = POLL | EPOLL

text \<open>
  The constructor: the members in the order of their declaration, then the body. \<open>tc\<close> and \<open>wc\<close> are
  the addresses of the two channels. Members that a later initialiser sets hold 0 until then.
\<close>

definition EventLoop_new ::
    "nat \<Rightarrow> loop_mode \<Rightarrow> trig_mode \<Rightarrow> ptr \<Rightarrow> ptr \<Rightarrow> ptr \<Rightarrow> 'z world_scheme \<Rightarrow> 'z world_scheme res" where
  "EventLoop_new me mode emode L tc wc w =
     res_bind (Poller_newDefaultPoller (mode = EPOLL) w) (\<lambda>(po, w1).
     let el = \<lparr>el_looping = False, el_quit = False, el_callingPendingFunctors = False,
               el_threadId = me, el_pollReturnTime = 0, el_poller = po, el_timerfd = 0,
               el_timerChannel = 0, el_timers = [], el_armedFor = None, el_wakeupFd = 0, el_wakeupChannel = 0,
               el_activeChannels = [], el_pendingFunctors = []\<rparr> in
     res_bind (TimerQueue_new me L tc (loop_put L el w1)) (\<lambda>w2.
     res_bind (createEventfd w2) (\<lambda>(wfd, w3).
     let w4 = chan_put wc (Channel_new L wfd) w3 in
     res_bind (loop_mod L (\<lambda>el. el\<lparr>el_wakeupFd := wfd, el_wakeupChannel := wc\<rparr>) w4) (\<lambda>w5.
     let w6 = (if mode = EPOLL then w5\<lparr>statics := Channel_initDefaultEvent emode\<rparr> else w5) in
     if t_loopInThisThread w6 me \<noteq> None then Inl (Fatal ''Another EventLoop'')
     else let w7 = w6\<lparr>t_loopInThisThread := (t_loopInThisThread w6)(me := Some L)\<rparr> in
     res_bind (chan_get wc w7) (\<lambda>c.
       Channel_interest me EnableReading wc
         (chan_put wc (Channel_setReadCallback (CbWakeupRead L) c) w7))))))"

text \<open>
  Destruction: \<^verbatim>\<open>~EventLoop\<close>, then the members in reverse order: the wakeup channel, the timer
  queue (its timers, its descriptor, its channel) and the poller. The wakeup descriptor is not
  closed by any of them.
\<close>

definition chan_delete :: "ptr \<Rightarrow> 'z hworld_scheme \<Rightarrow> 'z hworld_scheme res" where
  "chan_delete p w =
     res_bind (chan_get p w) (\<lambda>c.
     res_bind (Channel_dtor c) (\<lambda>_. Inr (w\<lparr>chans := (chans w)(p := None)\<rparr>)))"

definition timer_delete :: "entry \<Rightarrow> 'z world_scheme \<Rightarrow> 'z world_scheme res" where
  "timer_delete e w =
     (case timers w (snd e) of
        None \<Rightarrow> Inl (Undefined ''delete of a destroyed Timer'')
      | Some t \<Rightarrow> Inr (w\<lparr>timers := (timers w)(snd e := None)\<rparr>))"

definition TimerQueue_dtor :: "evloop \<Rightarrow> 'z world_scheme \<Rightarrow> 'z world_scheme res" where
  "TimerQueue_dtor el w =
     res_bind (run_all timer_delete (el_timers el) w) (\<lambda>w1.
     res_bind (sys_int (CallClose (el_timerfd el)) w1) (\<lambda>(r, e, w2).
       chan_delete (el_timerChannel el) w2))"

fun Poller_dtor :: "poller \<Rightarrow> 'z os_scheme \<Rightarrow> 'z os_scheme res" where
  "Poller_dtor (Epoll ep) w = EpollPoller_dtor ep w"
| "Poller_dtor (Poll pp) w = Inr w"

definition EventLoop_dtor :: "nat \<Rightarrow> ptr \<Rightarrow> 'z world_scheme \<Rightarrow> 'z world_scheme res" where
  "EventLoop_dtor me L w =
     res_bind (loop_get L w) (\<lambda>el.
     res_bind (cassert (\<not> el_looping el) ''!looping_'') (\<lambda>_.
     let w1 = w\<lparr>t_loopInThisThread := (t_loopInThisThread w)(me := None)\<rparr> in
     res_bind (chan_delete (el_wakeupChannel el) w1) (\<lambda>w2.
     res_bind (TimerQueue_dtor el w2) (\<lambda>w3.
     res_bind (Poller_dtor (el_poller el) w3) (\<lambda>w4.
       Inr (w4\<lparr>loops := (loops w4)(L := None)\<rparr>))))))"

end
