(* ===== verification/Timer_Queue.thy ===== *)
theory Timer_Queue
  imports Event_Loop "HOL-Library.Multiset"
begin

text \<open>
  \<^verbatim>\<open>TimerQueue\<close> (\<^verbatim>\<open>twnl/TimerQueue.cc\<close>) on top of the event loop, and the timer functions of \<^verbatim>\<open>EventLoop\<close>.
  Timers live on the heap \<^verbatim>\<open>timers\<close>; the address \<^verbatim>\<open>new\<close> returns is an argument, and using a deleted
  timer is \<open>Undefined\<close>. The functors that \<^verbatim>\<open>addTimer\<close> and \<^verbatim>\<open>cancelTimer\<close> give to \<^verbatim>\<open>runInLoop\<close> are
  \<open>TimerQueue_addInLoop\<close> and \<open>TimerQueue_cancelInLoop\<close>. What an application's callback does is the
  argument \<open>run_t\<close>.
\<close>

definition timer_get :: "ptr \<Rightarrow> 'z world_scheme \<Rightarrow> timer res" where
  "timer_get p w =
     (case timers w p of None \<Rightarrow> Inl (Undefined ''use of a destroyed Timer'') | Some t \<Rightarrow> Inr t)"

definition timer_put :: "ptr \<Rightarrow> timer \<Rightarrow> 'z world_scheme \<Rightarrow> 'z world_scheme" where
  "timer_put p t w = w\<lparr>timers := (timers w)(p := Some t)\<rparr>"

text \<open>\<^verbatim>\<open>timerfdSet(timerfd_, when)\<close>, with the record of the time it was armed for.\<close>

definition TimerQueue_arm :: "ptr \<Rightarrow> int \<Rightarrow> 'z world_scheme \<Rightarrow> 'z world_scheme res" where
  "TimerQueue_arm L wh w =
     res_bind (loop_get L w) (\<lambda>el.
     res_bind (timerfdSet (el_timerfd el) wh w) (\<lambda>w'.
       loop_mod L (\<lambda>el. el\<lparr>el_armedFor := Some wh\<rparr>) w'))"

definition TimerQueue_addInLoop :: "ptr \<Rightarrow> int \<Rightarrow> ptr \<Rightarrow> 'z world_scheme \<Rightarrow> 'z world_scheme res" where
  "TimerQueue_addInLoop L wh timer w =
     res_bind (loop_get L w) (\<lambda>el.
     let (inserted, ts) = set_insert (wh, timer) (el_timers el) in
     res_bind (cassert inserted ''ret.second'') (\<lambda>_.
     let w1 = loop_put L (el\<lparr>el_timers := ts\<rparr>) w in
     if hd ts = (wh, timer) then TimerQueue_arm L wh w1 else Inr w1))"

definition TimerQueue_addTimer ::
    "nat \<Rightarrow> ptr \<Rightarrow> ptr \<Rightarrow> timer_cb option \<Rightarrow> int \<Rightarrow> int \<Rightarrow> 'z world_scheme \<Rightarrow> (ptr \<times> 'z world_scheme) res" where
  "TimerQueue_addTimer me L addr cb wh interval w =
     (if addr = 0 \<or> timers w addr \<noteq> None then Inl Kernel
      else res_bind (EventLoop_runInLoop me L (FAddTimer L wh addr) (TimerQueue_addInLoop L wh addr)
                      (timer_put addr (Timer_new cb wh interval) w))
             (\<lambda>w'. Inr (addr, w')))"

definition TimerQueue_cancelInLoop :: "ptr \<Rightarrow> ptr \<Rightarrow> 'z world_scheme \<Rightarrow> 'z world_scheme res" where
  "TimerQueue_cancelInLoop L timer w =
     res_bind (timer_get timer w) (\<lambda>t.
     res_bind (Timer_cancel t) (\<lambda>t1.
     res_bind (loop_mod L (\<lambda>el. el\<lparr>el_timers := set_erase (tm_when t1, timer) (el_timers el)\<rparr>) w) (\<lambda>w1.
       Inr (w1\<lparr>timers := (timers w1)(timer := None)\<rparr>))))"

definition TimerQueue_cancelTimer :: "nat \<Rightarrow> ptr \<Rightarrow> ptr \<Rightarrow> 'z world_scheme \<Rightarrow> 'z world_scheme res" where
  "TimerQueue_cancelTimer me L timer w =
     EventLoop_runInLoop me L (FCancelTimer L timer) (TimerQueue_cancelInLoop L timer) w"

text \<open>One pass of the loop in \<^verbatim>\<open>handleRead\<close>, for the expired entry \<open>e\<close>.\<close>

definition TimerQueue_fire ::
    "(timer_cb \<Rightarrow> 'z world_scheme \<Rightarrow> 'z world_scheme res) \<Rightarrow> int \<Rightarrow> ptr \<Rightarrow> entry \<Rightarrow>
     'z world_scheme \<Rightarrow> 'z world_scheme res" where
  "TimerQueue_fire run_t now L e w =
     (let timer = snd e in
      res_bind (timer_get timer w) (\<lambda>t.
      res_bind (cassert (Timer_expired now t) ''timer->expired(now)'') (\<lambda>_.
      res_bind (if \<not> tm_canceled t then Timer_run run_t t w else Inr w) (\<lambda>w1.
      res_bind (timer_get timer w1) (\<lambda>t1.
      if \<not> tm_canceled t1 \<and> tm_repeat t1
      then res_bind (Timer_restart t1) (\<lambda>t2.
             loop_mod L (\<lambda>el. el\<lparr>el_timers := snd (set_insert (tm_when t2, timer) (el_timers el))\<rparr>)
               (timer_put timer t2 w1))
      else Inr (w1\<lparr>timers := (timers w1)(timer := None)\<rparr>))))))"

definition TimerQueue_handleRead ::
    "(timer_cb \<Rightarrow> 'z world_scheme \<Rightarrow> 'z world_scheme res) \<Rightarrow> nat \<Rightarrow> ptr \<Rightarrow>
     'z world_scheme \<Rightarrow> 'z world_scheme res" where
  "TimerQueue_handleRead run_t me L w =
     res_bind (EventLoop_assertInLoopThread me L w) (\<lambda>_.
     res_bind (loop_get L w) (\<lambda>el.
     res_bind (timerfdRead (el_timerfd el) w) (\<lambda>w1.
     res_bind (clock_now w1) (\<lambda>(now, w2).
     res_bind (loop_get L w2) (\<lambda>el2.
     let (entries, rest) = getExpired now (el_timers el2) in
     res_bind (run_all (TimerQueue_fire run_t now L) entries
                (loop_put L (el2\<lparr>el_timers := rest\<rparr>) w2)) (\<lambda>w3.
     res_bind (loop_get L w3) (\<lambda>el3.
       if el_timers el3 \<noteq> [] then TimerQueue_arm L (fst (hd (el_timers el3))) w3
       else Inr w3)))))))"

definition EventLoop_runAt ::
    "nat \<Rightarrow> ptr \<Rightarrow> ptr \<Rightarrow> int \<Rightarrow> timer_cb option \<Rightarrow> 'z world_scheme \<Rightarrow> (ptr \<times> 'z world_scheme) res" where
  "EventLoop_runAt me L addr wh cb w = TimerQueue_addTimer me L addr cb wh 0 w"

definition EventLoop_runAfter ::
    "nat \<Rightarrow> ptr \<Rightarrow> ptr \<Rightarrow> int \<Rightarrow> timer_cb option \<Rightarrow> 'z world_scheme \<Rightarrow> (ptr \<times> 'z world_scheme) res" where
  "EventLoop_runAfter me L addr interval cb w =
     res_bind (clock_now w) (\<lambda>(now, w1). EventLoop_runAt me L addr (now + interval) cb w1)"

definition EventLoop_runEvery ::
    "nat \<Rightarrow> ptr \<Rightarrow> ptr \<Rightarrow> int \<Rightarrow> timer_cb option \<Rightarrow> 'z world_scheme \<Rightarrow> (ptr \<times> 'z world_scheme) res" where
  "EventLoop_runEvery me L addr interval cb w =
     res_bind (clock_now w) (\<lambda>(now, w1). TimerQueue_addTimer me L addr cb (now + interval) interval w1)"

definition EventLoop_cancelTimer :: "nat \<Rightarrow> ptr \<Rightarrow> ptr \<Rightarrow> 'z world_scheme \<Rightarrow> 'z world_scheme res" where
  "EventLoop_cancelTimer me L timer w = TimerQueue_cancelTimer me L timer w"


section \<open>Specification\<close>

text \<open>
  The invariant of the queue: the set is ordered, each of its entries is a live timer that is not
  cancelled and is filed under its own time, no timer is filed twice, and the descriptor is armed
  for the first entry or for an earlier time. \<open>live_in\<close> is the part about entries.
\<close>

definition live_in :: "(ptr \<Rightarrow> timer option) \<Rightarrow> entry \<Rightarrow> bool" where
  "live_in tm e \<longleftrightarrow>
     (case tm (snd e) of None \<Rightarrow> False | Some t \<Rightarrow> tm_when t = fst e \<and> \<not> tm_canceled t)"

definition queue_ok :: "entry list \<Rightarrow> (ptr \<Rightarrow> timer option) \<Rightarrow> bool" where
  "queue_ok ts tm \<longleftrightarrow> sorted ts \<and> distinct (map snd ts) \<and> (\<forall>e \<in> set ts. live_in tm e)"

definition armed_ok :: "evloop \<Rightarrow> bool" where
  "armed_ok el \<longleftrightarrow>
     (el_timers el \<noteq> [] \<longrightarrow>
        (case el_armedFor el of None \<Rightarrow> False | Some a \<Rightarrow> a \<le> fst (hd (el_timers el))))"

definition timers_ok :: "ptr \<Rightarrow> 'z world_scheme \<Rightarrow> bool" where
  "timers_ok L w \<longleftrightarrow>
     (case loops w L of
        None \<Rightarrow> False
      | Some el \<Rightarrow> queue_ok (el_timers el) (timers w) \<and> armed_ok el)"

text \<open>What one round of expired entries does, when the callbacks leave the queue alone.\<close>

definition fired_cbs :: "(ptr \<Rightarrow> timer option) \<Rightarrow> entry list \<Rightarrow> timer_cb list" where
  "fired_cbs tm es = List.map_filter (\<lambda>e. tm_callback (the (tm (snd e)))) es"

definition requeued :: "(ptr \<Rightarrow> timer option) \<Rightarrow> entry list \<Rightarrow> entry list" where
  "requeued tm es =
     map (\<lambda>e. (fst e + tm_interval (the (tm (snd e))), snd e))
       (filter (\<lambda>e. tm_repeat (the (tm (snd e)))) es)"

definition after_fire :: "(ptr \<Rightarrow> timer option) \<Rightarrow> entry list \<Rightarrow> ptr \<Rightarrow> timer option" where
  "after_fire tm es p =
     (if p \<in> snd ` set es
      then let t = the (tm p) in
           if tm_repeat t then Some (t\<lparr>tm_when := tm_when t + tm_interval t\<rparr>) else None
      else tm p)"

record tlog_world = world +
  tlog :: "timer_cb list"

definition log_timer :: "timer_cb \<Rightarrow> tlog_world \<Rightarrow> tlog_world res" where
  "log_timer cb w = Inr (w\<lparr>tlog := tlog w @ [cb]\<rparr>)"


section \<open>Lemmas\<close>

lemma loop_put_simps [simp]:
  "loops (loop_put L el w) = (loops w)(L := Some el)" "timers (loop_put L el w) = timers w"
  "chans (loop_put L el w) = chans w" "statics (loop_put L el w) = statics w"
  "tape (loop_put L el w) = tape w" "trace (loop_put L el w) = trace w"
  "t_loopInThisThread (loop_put L el w) = t_loopInThisThread w"
  "world.more (loop_put L el w) = world.more w"
  by (simp_all add: loop_put_def)

lemma chan_put_world [simp]:
  "loops (chan_put p c w) = loops w" "timers (chan_put p c w) = timers w"
  "t_loopInThisThread (chan_put p c w) = t_loopInThisThread w"
  "world.more (chan_put p c w) = world.more w"
  by (simp_all add: chan_put_def)

lemma timer_put_simps [simp]:
  "loops (timer_put p t w) = loops w" "timers (timer_put p t w) = (timers w)(p := Some t)"
  "chans (timer_put p t w) = chans w" "world.more (timer_put p t w) = world.more w"
  by (simp_all add: timer_put_def)

lemma loop_get_Some [simp]: "loops w L = Some el \<Longrightarrow> loop_get L w = Inr el"
  by (simp add: loop_get_def)

lemma loop_mod_Some [simp]: "loops w L = Some el \<Longrightarrow> loop_mod L f w = Inr (loop_put L (f el) w)"
  by (simp add: loop_mod_def)

lemma timer_get_Some [simp]: "timers w p = Some t \<Longrightarrow> timer_get p w = Inr t"
  by (simp add: timer_get_def)

lemma os_step_world:
  assumes "os_step w w'"
  shows "loops w' = loops w" "timers w' = timers w" "chans w' = chans w" "statics w' = statics w"
    "t_loopInThisThread w' = t_loopInThisThread w" "world.more w' = world.more w"
  using assms by (auto elim!: os_stepE)

lemma TimerQueue_arm_Inr:
  assumes "TimerQueue_arm L wh w = Inr w'" and "loops w L = Some el"
  shows "loops w' = (loops w)(L := Some (el\<lparr>el_armedFor := Some wh\<rparr>)) \<and> timers w' = timers w \<and>
         world.more w' = world.more w"
proof -
  obtain w1 where "timerfdSet (el_timerfd el) wh w = Inr w1"
      and w': "loop_mod L (\<lambda>el. el\<lparr>el_armedFor := Some wh\<rparr>) w1 = Inr w'"
    using assms by (auto simp: TimerQueue_arm_def res_bind_eq_Inr)
  then have "os_step w w1"
    by (simp add: timerfdSet_os_step)
  from os_step_world[OF this] show ?thesis
    using w' assms(2) by (auto simp: loop_mod_def loop_get_def)
qed

lemma live_in_cong: "tm' (snd e) = tm (snd e) \<Longrightarrow> live_in tm' e = live_in tm e"
  by (simp add: live_in_def)

lemma queue_ok_distinct: "queue_ok ts tm \<Longrightarrow> distinct ts"
  by (auto simp: queue_ok_def distinct_map)

lemma queue_ok_insert:
  assumes "queue_ok ts tm" and "live_in tm e" and "snd e \<notin> snd ` set ts"
  shows "queue_ok (snd (set_insert e ts)) tm" and "fst (set_insert e ts)"
proof -
  have "e \<notin> set ts"
    using assms(3) by auto
  moreover have "mset (insort e ts) = mset (e # ts)"
    by simp
  then have "mset (map snd (insort e ts)) = mset (map snd (e # ts))"
    by (metis mset_map)
  then have "distinct (map snd (insort e ts)) = distinct (map snd (e # ts))"
    by (rule mset_eq_imp_distinct_iff)
  ultimately show "queue_ok (snd (set_insert e ts)) tm" and "fst (set_insert e ts)"
    using assms by (auto simp: queue_ok_def set_insert_def sorted_insort set_insort_key)
qed

lemma queue_ok_erase: "queue_ok ts tm \<Longrightarrow> queue_ok (set_erase e ts) tm"
  by (auto simp: queue_ok_def set_erase_def sorted_wrt_filter distinct_map_filter)

lemma queue_ok_frame:
  "queue_ok ts tm \<Longrightarrow> (\<And>p. p \<in> snd ` set ts \<Longrightarrow> tm' p = tm p) \<Longrightarrow> queue_ok ts tm'"
  by (auto simp: queue_ok_def live_in_def)

lemma armed_after:
  assumes "sorted ts'" and "ts' \<noteq> []" and "set ts' \<subseteq> set ts" and "armed_ok (el\<lparr>el_timers := ts\<rparr>)"
    and "sorted ts"
  shows "armed_ok (el\<lparr>el_timers := ts'\<rparr>)"
proof -
  have "hd ts' \<in> set ts" and "ts \<noteq> []"
    using assms by auto
  then have "fst (hd ts) \<le> fst (hd ts')"
    using hd_sorted_le[OF assms(5)] entry_le by blast
  then show ?thesis
    using assms(4) \<open>ts \<noteq> []\<close> by (auto simp: armed_ok_def split: option.splits)
qed

lemma add_in_loop_ok:
  assumes ok: "timers_ok L w" and el: "loops w L = Some el" and t: "live_in (timers w) (wh, p)"
    and new: "p \<notin> snd ` set (el_timers el)" and run: "TimerQueue_addInLoop L wh p w = Inr w'"
  shows "timers_ok L w' \<and> timers w' = timers w \<and>
     (\<exists>el'. loops w' L = Some el' \<and> el_threadId el' = el_threadId el \<and>
        set (el_timers el') = insert (wh, p) (set (el_timers el)))"
proof -
  let ?ts = "snd (set_insert (wh, p) (el_timers el))"
  let ?w = "loop_put L (el\<lparr>el_timers := ?ts\<rparr>) w"
  have q: "queue_ok (el_timers el) (timers w)" and arm: "armed_ok el"
    using ok el by (auto simp: timers_ok_def)
  have Q: "queue_ok ?ts (timers w)" and ins: "fst (set_insert (wh, p) (el_timers el))"
    using queue_ok_insert[OF q t] new by auto
  have set: "set ?ts = insert (wh, p) (set (el_timers el))"
    by (rule set_set_insert)
  then have ne: "?ts \<noteq> []"
    by (metis empty_set insert_not_empty)
  show ?thesis
  proof (cases "hd ?ts = (wh, p)")
    case True
    then have "TimerQueue_arm L wh ?w = Inr w'"
      using run el ins by (simp add: TimerQueue_addInLoop_def Let_def case_prod_beta)
    from TimerQueue_arm_Inr[OF this] show ?thesis
      using Q True set by (auto simp: timers_ok_def armed_ok_def)
  next
    case False
    then have w': "w' = ?w"
      using run el ins by (auto simp: TimerQueue_addInLoop_def Let_def case_prod_beta)
    have "hd ?ts \<in> set (el_timers el)"
      using False ne set by (metis hd_in_set insertE)
    then have "fst (hd (el_timers el)) \<le> fst (hd ?ts)" "el_timers el \<noteq> []"
      using q by (auto simp: queue_ok_def intro!: entry_le hd_sorted_le simp del: less_eq_prod_simp)
    then show ?thesis
      using Q arm set w' by (auto simp: timers_ok_def armed_ok_def split: option.splits)
  qed
qed

lemma cancel_in_loop_ok:
  assumes ok: "timers_ok L w" and el: "loops w L = Some el" and p: "(wh, p) \<in> set (el_timers el)"
  shows "\<exists>w' el'. TimerQueue_cancelInLoop L p w = Inr w' \<and> timers_ok L w' \<and>
     timers w' = (timers w)(p := None) \<and> loops w' L = Some el' \<and> el_threadId el' = el_threadId el \<and>
     set (el_timers el') = set (el_timers el) - {(wh, p)}"
proof -
  have q: "queue_ok (el_timers el) (timers w)" and arm: "armed_ok el"
    using ok el by (auto simp: timers_ok_def)
  obtain t where t: "timers w p = Some t" "tm_when t = wh" "\<not> tm_canceled t"
    using q p by (fastforce simp: queue_ok_def live_in_def split: option.splits)
  let ?ts = "set_erase (wh, p) (el_timers el)"
  define w' where "w' = (loop_put L (el\<lparr>el_timers := ?ts\<rparr>) w)\<lparr>timers := (timers w)(p := None)\<rparr>"
  have run: "TimerQueue_cancelInLoop L p w = Inr w'"
    using t el by (simp add: TimerQueue_cancelInLoop_def Timer_cancel_def w'_def)
  have "inj_on snd (set (el_timers el))"
    using q by (simp add: queue_ok_def distinct_map)
  then have "e = (wh, p)" if "e \<in> set (el_timers el)" "snd e = p" for e
    using p that by (metis inj_onD snd_conv)
  then have "p \<notin> snd ` set ?ts"
    by auto
  then have Q: "queue_ok ?ts ((timers w)(p := None))"
    by (intro queue_ok_frame[OF queue_ok_erase[OF q]]) auto
  have "armed_ok (el\<lparr>el_timers := ?ts\<rparr>)"
  proof (cases "?ts = []")
    case False
    then show ?thesis
      using armed_after[of ?ts "el_timers el" el] Q q arm by (auto simp: queue_ok_def)
  qed (simp add: armed_ok_def)
  then have "timers_ok L w'"
    using Q by (simp add: timers_ok_def w'_def)
  then show ?thesis
    using run by (auto simp: w'_def)
qed

lemma after_fire_one:
  "tm (snd e) = Some t \<Longrightarrow> after_fire tm [e] = tm(snd e :=
     (if tm_repeat t then Some (t\<lparr>tm_when := tm_when t + tm_interval t\<rparr>) else None))"
  by (auto simp: after_fire_def)

lemma fire_one:
  assumes el: "loops w L = Some el" and live: "live_in (timers w) e" and now: "fst e \<le> now"
  shows "TimerQueue_fire log_timer now L e w =
     Inr ((loop_put L (el\<lparr>el_timers :=
              (if tm_repeat (the (timers w (snd e)))
               then snd (set_insert (fst e + tm_interval (the (timers w (snd e))), snd e) (el_timers el))
               else el_timers el)\<rparr>) w)
            \<lparr>timers := after_fire (timers w) [e], tlog := tlog w @ fired_cbs (timers w) [e]\<rparr>)"
proof -
  obtain t where t: "timers w (snd e) = Some t" "tm_when t = fst e" "\<not> tm_canceled t"
    using live by (auto simp: live_in_def split: option.splits)
  have put: "loop_put L el w = w"
    using el by (cases w) (auto simp: loop_put_def)
  show ?thesis
    using el t now put
    by (cases w; cases "tm_callback t")
      (auto simp: TimerQueue_fire_def Timer_expired_def Timer_run_def Timer_restart_def Let_def
        log_timer_def after_fire_one fired_cbs_def map_filter_simps loop_put_def timer_put_def loop_mod_def
        loop_get_def timer_get_def)
qed

lemma after_fire_other: "p \<notin> snd ` set es \<Longrightarrow> after_fire tm es p = tm p"
  by (simp add: after_fire_def)

lemma fire_cong:
  assumes "snd e \<notin> snd ` set es"
  shows "fired_cbs tm (e # es) = fired_cbs tm [e] @ fired_cbs (after_fire tm [e]) es"
    and "requeued tm (e # es) = requeued tm [e] @ requeued (after_fire tm [e]) es"
    and "after_fire tm (e # es) = after_fire (after_fire tm [e]) es"
proof -
  have same: "after_fire tm [e] (snd x) = tm (snd x)" if "x \<in> set es" for x
    using assms that by (intro after_fire_other) force
  show "fired_cbs tm (e # es) = fired_cbs tm [e] @ fired_cbs (after_fire tm [e]) es"
    using same by (auto simp: fired_cbs_def map_filter_def intro!: map_cong filter_cong)
  show "requeued tm (e # es) = requeued tm [e] @ requeued (after_fire tm [e]) es"
    using same by (auto simp: requeued_def intro!: map_cong filter_cong)
  show "after_fire tm (e # es) = after_fire (after_fire tm [e]) es"
    using assms by (auto simp: after_fire_def fun_eq_iff Let_def image_iff)
qed

lemma requeued_one:
  "requeued tm [e] =
     (if tm_repeat (the (tm (snd e))) then [(fst e + tm_interval (the (tm (snd e))), snd e)] else [])"
  by (simp add: requeued_def)

lemma disjoint_insert_sub: "B \<subseteq> insert x C \<Longrightarrow> A \<inter> C = {} \<Longrightarrow> x \<notin> A \<Longrightarrow> A \<inter> B = {}"
  by blast

lemma fire_all:
  assumes "loops w L = Some el" and "queue_ok (el_timers el) (timers w)"
    and "\<forall>e \<in> set es. live_in (timers w) e \<and> fst e \<le> now"
    and "distinct (map snd (es @ el_timers el))"
  shows "\<exists>w' ts. run_all (TimerQueue_fire log_timer now L) es w = Inr w' \<and>
     loops w' = (loops w)(L := Some (el\<lparr>el_timers := ts\<rparr>)) \<and>
     set ts = set (el_timers el) \<union> set (requeued (timers w) es) \<and> queue_ok ts (timers w') \<and>
     timers w' = after_fire (timers w) es \<and> tlog w' = tlog w @ fired_cbs (timers w) es"
  using assms
proof (induction es arbitrary: w el)
  case Nil
  then show ?case
    by (auto simp: requeued_def after_fire_def fired_cbs_def map_filter_simps fun_eq_iff
        intro!: exI[of _ w] exI[of _ "el_timers el"])
next
  case (Cons e es)
  let ?tm = "timers w" and ?ts = "el_timers el"
  let ?tm1 = "after_fire ?tm [e]"
  let ?e1 = "(fst e + tm_interval (the (?tm (snd e))), snd e)"
  define ts1 where
    "ts1 = (if tm_repeat (the (?tm (snd e))) then snd (set_insert ?e1 ?ts) else ?ts)"
  define w1 where "w1 = (loop_put L (el\<lparr>el_timers := ts1\<rparr>) w)
    \<lparr>timers := ?tm1, tlog := tlog w @ fired_cbs ?tm [e]\<rparr>"
  have w1: "loops w1 = (loops w)(L := Some (el\<lparr>el_timers := ts1\<rparr>))" "timers w1 = ?tm1"
      "tlog w1 = tlog w @ fired_cbs ?tm [e]"
    by (simp_all add: w1_def)
  have fresh: "snd e \<notin> snd ` set es" "snd e \<notin> snd ` set ?ts"
    using Cons.prems(4) by auto
  have live: "live_in ?tm e"
    using Cons.prems(3) by simp
  have Q0: "queue_ok ?ts ?tm1"
    by (rule queue_ok_frame[OF Cons.prems(2)], rule after_fire_other) (use fresh in force)
  have "queue_ok (snd (set_insert ?e1 ?ts)) ?tm1" if "tm_repeat (the (?tm (snd e)))"
  proof (rule queue_ok_insert(1)[OF Q0])
    show "live_in ?tm1 ?e1"
      using live that by (auto simp: live_in_def after_fire_def split: option.splits)
  qed (use fresh in simp)
  then have Q1: "queue_ok ts1 ?tm1"
    using Q0 by (simp add: ts1_def)
  have "snd ` set ts1 \<subseteq> insert (snd e) (snd ` set ?ts)"
    by (auto simp: ts1_def)
  moreover have "snd ` set es \<inter> snd ` set ?ts = {}"
    using Cons.prems(4) by auto
  ultimately have "snd ` set es \<inter> snd ` set ts1 = {}"
    using fresh(1) by (rule disjoint_insert_sub)
  then have D: "distinct (map snd (es @ ts1))"
    using Q1 Cons.prems(4) by (simp add: queue_ok_def)
  have L1: "\<forall>x \<in> set es. live_in ?tm1 x \<and> fst x \<le> now"
  proof
    fix x
    assume x: "x \<in> set es"
    then have "snd x \<notin> snd ` set [e]"
      using fresh(1) by force
    then have "live_in ?tm1 x = live_in ?tm x"
      by (intro live_in_cong after_fire_other)
    then show "live_in ?tm1 x \<and> fst x \<le> now"
      using Cons.prems(3) x by simp
  qed
  have "\<exists>w' ts. run_all (TimerQueue_fire log_timer now L) es w1 = Inr w' \<and>
     loops w' = (loops w1)(L := Some (el\<lparr>el_timers := ts1, el_timers := ts\<rparr>)) \<and>
     set ts = set (el_timers (el\<lparr>el_timers := ts1\<rparr>)) \<union> set (requeued (timers w1) es) \<and>
     queue_ok ts (timers w') \<and> timers w' = after_fire (timers w1) es \<and>
     tlog w' = tlog w1 @ fired_cbs (timers w1) es"
    by (rule Cons.IH) (use Q1 L1 D w1 in simp_all)
  then obtain w' ts where run: "run_all (TimerQueue_fire log_timer now L) es w1 = Inr w'"
    and ts: "loops w' = (loops w1)(L := Some (el\<lparr>el_timers := ts1, el_timers := ts\<rparr>))"
      "set ts = set (el_timers (el\<lparr>el_timers := ts1\<rparr>)) \<union> set (requeued (timers w1) es)"
      "queue_ok ts (timers w')" "timers w' = after_fire (timers w1) es"
      "tlog w' = tlog w1 @ fired_cbs (timers w1) es"
    by blast
  have "TimerQueue_fire log_timer now L e w = Inr w1"
    using fire_one[OF Cons.prems(1) live] Cons.prems(3) by (simp add: w1_def ts1_def)
  moreover have "set ts1 = set ?ts \<union> set (requeued ?tm [e])"
    by (auto simp: requeued_one ts1_def)
  ultimately show ?case
    using fire_cong[OF fresh(1), of ?tm] run ts w1
    by (intro exI[of _ w'] exI[of _ ts]) (simp add: Un_assoc)
qed

lemma timer_queue_round:
  assumes sorted: "sorted (el_timers el)" and el: "loops w L = Some el" and me: "el_threadId el = me"
    and now: "tape w = r # SysNum now # rest"
    and run: "TimerQueue_handleRead run_t me L w = Inr w'"
  shows "\<exists>w2 w3 el3. os_step w w2 \<and>
     run_all (TimerQueue_fire run_t now L) (filter (\<lambda>e. fst e \<le> now) (el_timers el))
       (loop_put L (el\<lparr>el_timers := filter (\<lambda>e. now < fst e) (el_timers el)\<rparr>) w2) = Inr w3 \<and>
     loops w3 L = Some el3 \<and>
     (if el_timers el3 = [] then w' = w3 else TimerQueue_arm L (fst (hd (el_timers el3))) w3 = Inr w')"
proof -
  obtain w1 n where "timerfdRead (el_timerfd el) w = Inr w1"
      and rest: "res_bind (clock_now w1) (\<lambda>(now, w2). res_bind (loop_get L w2) (\<lambda>el2.
     let (entries, rest) = getExpired now (el_timers el2) in
     res_bind (run_all (TimerQueue_fire run_t now L) entries
                (loop_put L (el2\<lparr>el_timers := rest\<rparr>) w2)) (\<lambda>w3.
     res_bind (loop_get L w3) (\<lambda>el3.
       if el_timers el3 \<noteq> [] then TimerQueue_arm L (fst (hd (el_timers el3))) w3
       else Inr w3)))) = Inr w'"
    using run el me
    by (auto simp: TimerQueue_handleRead_def EventLoop_assertInLoopThread_def
        EventLoop_isInLoopThread_def res_bind_eq_Inr)
  then have w1: "os_step w w1" "tape w1 = SysNum now # rest"
    using now by (auto simp: timerfdRead_def sockets_read_def res_bind_eq_Inr sys_int_Inr os_step_def
        split: if_splits)
  define w2 where "w2 = w1\<lparr>tape := rest, trace := trace w1 @ [CallNow]\<rparr>"
  have cn: "clock_now w1 = Inr (now, w2)"
    using w1(2) by (simp add: clock_now_def sys_def w2_def)
  then have step: "os_step w w2"
    using w1(1) by (blast intro: os_step_trans clock_now_os_step)
  have el2: "loops w2 L = Some el"
    using os_step_world(1)[OF step] el by simp
  obtain w3 el3 where
    "run_all (TimerQueue_fire run_t now L) (filter (\<lambda>e. fst e \<le> now) (el_timers el))
       (loop_put L (el\<lparr>el_timers := filter (\<lambda>e. now < fst e) (el_timers el)\<rparr>) w2) = Inr w3"
    and "loop_get L w3 = Inr el3"
    and "(if el_timers el3 \<noteq> [] then TimerQueue_arm L (fst (hd (el_timers el3))) w3 else Inr w3) = Inr w'"
    using rest cn el2 getExpired_eq[OF sorted, of now] by (auto simp: res_bind_eq_Inr)
  moreover from this have "loops w3 L = Some el3"
    by (simp add: loop_get_def split: option.splits)
  ultimately show ?thesis
    using step by (intro exI[of _ w2] exI[of _ w3] exI[of _ el3]) (auto split: if_splits)
qed


lemma tlog_more: "world.more w' = world.more w \<Longrightarrow> tlog w' = tlog w"
  by (cases w; cases w') simp

text \<open>Sequences of additions and cancellations in the loop's thread, and what they mean for the set.\<close>

datatype timer_op = AddTimer ptr "timer_cb option" int int | CancelTimer ptr

fun timer_op_run :: "nat \<Rightarrow> ptr \<Rightarrow> timer_op \<Rightarrow> 'z world_scheme \<Rightarrow> 'z world_scheme res" where
  "timer_op_run me L (AddTimer a cb wh interval) w =
     res_bind (TimerQueue_addTimer me L a cb wh interval w) (\<lambda>(p, w'). Inr w')"
| "timer_op_run me L (CancelTimer a) w = TimerQueue_cancelTimer me L a w"

fun timer_op_spec :: "timer_op \<Rightarrow> entry set \<Rightarrow> entry set" where
  "timer_op_spec (AddTimer a cb wh interval) S = insert (wh, a) S"
| "timer_op_spec (CancelTimer a) S = {e \<in> S. snd e \<noteq> a}"

text \<open>A client cancels only timers that are in the set.\<close>

fun timer_ops_legal :: "timer_op list \<Rightarrow> entry set \<Rightarrow> bool" where
  "timer_ops_legal [] S = True"
| "timer_ops_legal (op # ops) S =
     ((case op of AddTimer a cb wh i \<Rightarrow> True | CancelTimer a \<Rightarrow> a \<in> snd ` S) \<and>
      timer_ops_legal ops (timer_op_spec op S))"

lemma TimerQueue_arm_Inl: "loops w L = Some el \<Longrightarrow> TimerQueue_arm L wh w = Inl e \<Longrightarrow> external e"
proof -
  assume el: "loops w L = Some el" and arm: "TimerQueue_arm L wh w = Inl e"
  have ok: "loop_mod L f w' \<noteq> Inl e" if "timerfdSet (el_timerfd el) wh w = Inr w'" for f w'
    using os_step_world(1)[OF timerfdSet_os_step[OF that]] el by (simp add: loop_mod_def loop_get_def)
  have "timerfdSet (el_timerfd el) wh w = Inl e"
    using arm el ok by (auto simp: TimerQueue_arm_def res_bind_eq_Inl)
  then show "external e"
    by (auto simp: timerfdSet_def durationFromNow_def clock_now_def sys_def res_bind_eq_Inl Let_def
        split: if_splits list.splits sys_ret.splits dest!: sys_int_Inl)
qed

lemma add_in_loop_error:
  assumes "loops w L = Some el" and "p \<notin> snd ` set (el_timers el)"
    and "TimerQueue_addInLoop L wh p w = Inl e"
  shows "external e"
proof -
  have "(wh, p) \<notin> set (el_timers el)"
    using assms(2) by force
  then show ?thesis
    using assms(1,3) TimerQueue_arm_Inl[of "loop_put L _ w" L _ wh e]
    by (auto simp: TimerQueue_addInLoop_def set_insert_def Let_def split: if_splits)
qed

lemma timer_op_ok:
  assumes ok: "timers_ok L w" and el: "loops w L = Some el" and me: "el_threadId el = me"
    and legal: "timer_ops_legal [op] (set (el_timers el))"
  shows "case timer_op_run me L op w of
      Inl e \<Rightarrow> external e
    | Inr w' \<Rightarrow> timers_ok L w' \<and> (\<exists>el'. loops w' L = Some el' \<and> el_threadId el' = me \<and>
        set (el_timers el') = timer_op_spec op (set (el_timers el)))"
proof (cases op)
  case (AddTimer a cb wh iv)
  show ?thesis
  proof (cases "a = 0 \<or> timers w a \<noteq> None")
    case True
    then show ?thesis
      by (simp add: AddTimer TimerQueue_addTimer_def)
  next
    case False
    let ?w = "timer_put a (Timer_new cb wh iv) w"
    have q: "queue_ok (el_timers el) (timers w)"
      using ok el by (simp add: timers_ok_def)
    have new: "a \<notin> snd ` set (el_timers el)"
      using q False by (auto simp: queue_ok_def live_in_def split: option.splits)
    have "queue_ok (el_timers el) (timers ?w)"
    proof (rule queue_ok_frame[OF q])
      fix p
      assume "p \<in> snd ` set (el_timers el)"
      then have "p \<noteq> a"
        using new by blast
      then show "timers ?w p = timers w p"
        by simp
    qed
    then have ok1: "timers_ok L ?w"
      using ok el by (simp add: timers_ok_def)
    have live: "live_in (timers ?w) (wh, a)"
      by (simp add: live_in_def Timer_new_def)
    have run: "timer_op_run me L op w = TimerQueue_addInLoop L wh a ?w"
      using False el me
      by (simp add: AddTimer TimerQueue_addTimer_def EventLoop_runInLoop_def
          EventLoop_isInLoopThread_def res_bind_assoc)
    show ?thesis
    proof (cases "TimerQueue_addInLoop L wh a ?w")
      case (Inl e)
      then have "external e"
        using add_in_loop_error[OF _ new, of ?w L wh e] el by simp
      then show ?thesis
        using run Inl by simp
    next
      case (Inr w')
      then show ?thesis
        using add_in_loop_ok[OF ok1 _ live _ Inr] el new run me AddTimer by auto
    qed
  qed
next
  case (CancelTimer a)
  obtain wh where e: "(wh, a) \<in> set (el_timers el)"
    using legal CancelTimer by auto
  have "inj_on snd (set (el_timers el))"
    using ok el by (simp add: timers_ok_def queue_ok_def distinct_map)
  then have iff: "x = (wh, a) \<longleftrightarrow> snd x = a" if "x \<in> set (el_timers el)" for x
    using e that by (metis inj_onD snd_conv)
  have "set (el_timers el) - {(wh, a)} = {x \<in> set (el_timers el). snd x \<noteq> a}"
    by (simp add: set_diff_eq iff cong: conj_cong)
  moreover have "timer_op_run me L op w = TimerQueue_cancelInLoop L a w"
    using el me by (simp add: CancelTimer TimerQueue_cancelTimer_def EventLoop_runInLoop_def
        EventLoop_isInLoopThread_def)
  moreover obtain w' el' where "TimerQueue_cancelInLoop L a w = Inr w'" "timers_ok L w'"
      "loops w' L = Some el'" "el_threadId el' = el_threadId el"
      "set (el_timers el') = set (el_timers el) - {(wh, a)}"
    using cancel_in_loop_ok[OF ok el e] by blast
  ultimately show ?thesis
    using me CancelTimer by simp
qed

lemma timer_ops_ok:
  assumes "timers_ok L w" and "loops w L = Some el" and "el_threadId el = me"
    and "timer_ops_legal ops (set (el_timers el))"
  shows "case run_all (timer_op_run me L) ops w of
      Inl e \<Rightarrow> external e
    | Inr w' \<Rightarrow> timers_ok L w' \<and> (\<exists>el'. loops w' L = Some el' \<and>
        set (el_timers el') = fold timer_op_spec ops (set (el_timers el)))"
  using assms
proof (induction ops arbitrary: w el)
  case (Cons op ops)
  have "timer_ops_legal [op] (set (el_timers el))"
    using Cons.prems(4) by simp
  note step = timer_op_ok[OF Cons.prems(1-3) this]
  show ?case
  proof (cases "timer_op_run me L op w")
    case (Inr w1)
    then obtain el1 where "timers_ok L w1" "loops w1 L = Some el1" "el_threadId el1 = me"
        "set (el_timers el1) = timer_op_spec op (set (el_timers el))"
      using step by auto
    then show ?thesis
      using Cons.IH[of w1 el1] Cons.prems(4) Inr
      by (cases "run_all (timer_op_run me L) ops w1") auto
  qed (use step in simp)
qed simp


section \<open>Properties\<close>


definition timer_demo :: "timer option \<Rightarrow> timer option \<Rightarrow> entry list \<Rightarrow> sys_ret list \<Rightarrow> tlog_world" where
  "timer_demo t1 t2 es answers =
     \<lparr>tape = answers, trace = [], os_local = (\<lambda>_. None), os_peer = (\<lambda>_. None),
      chans = (\<lambda>_. None), statics = lt_statics,
      loops = [1 \<mapsto> \<lparr>el_looping = True, el_quit = False, el_callingPendingFunctors = False,
        el_threadId = 9, el_pollReturnTime = 0, el_poller = Poll PollPoller_new, el_timerfd = 4,
        el_timerChannel = 10, el_timers = es, el_armedFor = Some 5, el_wakeupFd = 5,
        el_wakeupChannel = 11, el_activeChannels = [], el_pendingFunctors = []\<rparr>],
      timers = (\<lambda>_. None)(20 := t1, 21 := t2), t_loopInThisThread = [9 \<mapsto> 1], tlog = []\<rparr>"

lemma timer_demo_ok:
  "timers_ok 1 (timer_demo (Some (Timer_new (Some (TmUser 1)) 5 0)) (Some (Timer_new (Some (TmUser 2)) 7 3))
     [(5, 20), (7, 21)] answers)"
  by (simp add: timers_ok_def timer_demo_def queue_ok_def live_in_def armed_ok_def Timer_new_def)


text \<open>
  C23. Any sequence of \<^verbatim>\<open>addTimer\<close> and \<^verbatim>\<open>cancelTimer\<close> calls in the loop's thread, in which only timers in
  the queue are cancelled, keeps the queue well formed and the descriptor armed early enough; the
  queue holds exactly the timers added and not cancelled; no assertion fails.
\<close>

theorem timer_queue_tracks:
  assumes "timers_ok L w" and "loops w L = Some el" and "el_threadId el = me"
    and "timer_ops_legal ops (set (el_timers el))"
  shows "case run_all (timer_op_run me L) ops w of
      Inl e \<Rightarrow> external e
    | Inr w' \<Rightarrow> timers_ok L w' \<and> (\<exists>el'. loops w' L = Some el' \<and>
        set (el_timers el') = fold timer_op_spec ops (set (el_timers el)))"
  using assms by (rule timer_ops_ok)

theorem timer_queue_tracks_witness:
  "case run_all (timer_op_run 9 1) [AddTimer 22 None 3 0, CancelTimer 20]
      (timer_demo (Some (Timer_new (Some (TmUser 1)) 5 0)) (Some (Timer_new (Some (TmUser 2)) 7 3))
          [(5, 20), (7, 21)] [SysNum 1, SysNum 0]) of
      Inl e \<Rightarrow> external e
    | Inr w' \<Rightarrow> timers_ok 1 w' \<and> (\<exists>el'. loops w' 1 = Some el' \<and>
        set (el_timers el') = {(3, 22), (7, 21)})"
  using timer_queue_tracks[OF timer_demo_ok, where me = 9 and
      ops = "[AddTimer 22 None 3 0, CancelTimer 20]" and answers1 = "[SysNum 1, SysNum 0]"]
  by (simp add: timer_demo_def insert_commute Collect_conv_if conj_disj_distribR Collect_disj_eq
      split: sum.splits)

text \<open>
  A callback that cancels its own timer makes \<^verbatim>\<open>handleRead\<close> use the timer after it was deleted:
  \<^verbatim>\<open>cancelTimer\<close> deletes it at once, since the callback runs in the loop's thread, and \<^verbatim>\<open>handleRead\<close> goes
  on to ask it whether it was cancelled.
\<close>

theorem timer_self_cancel_undefined:
  assumes ok: "timers_ok L w" and el: "loops w L = Some el" and me: "el_threadId el = me"
    and first: "el_timers el = (wh, p) # es" and due: "wh \<le> now"
    and tape: "tape w = SysNum 8 # SysNum now # rest"
    and cb: "timers w p = Some t" "tm_callback t = Some cb"
    and run_t: "run_t cb = TimerQueue_cancelTimer me L p"
  shows "TimerQueue_handleRead run_t me L w = Inl (Undefined ''use of a destroyed Timer'')"
proof -
  define w2 where "w2 = w\<lparr>tape := rest, trace := trace w @ [CallRead (el_timerfd el) 8, CallNow]\<rparr>"
  have sorted: "sorted (el_timers el)" and t: "tm_when t = wh" "\<not> tm_canceled t"
    using ok el first cb by (auto simp: timers_ok_def queue_ok_def live_in_def)
  define w3 where "w3 = loop_put L (el\<lparr>el_timers := filter (\<lambda>e. now < fst e) (el_timers el)\<rparr>) w2"
  have w3: "timers w3 p = Some t" "loops w3 L = Some (el\<lparr>el_timers := filter (\<lambda>e. now < fst e) (el_timers el)\<rparr>)"
    using cb by (simp_all add: w3_def w2_def)
  have "TimerQueue_fire run_t now L (wh, p) w3 = Inl (Undefined ''use of a destroyed Timer'')"
    using w3 t due cb(2) run_t me
    by (simp add: TimerQueue_fire_def Timer_expired_def Timer_run_def TimerQueue_cancelTimer_def
        EventLoop_runInLoop_def EventLoop_isInLoopThread_def TimerQueue_cancelInLoop_def
        Timer_cancel_def timer_get_def)
  moreover have "TimerQueue_handleRead run_t me L w =
      res_bind (res_bind (TimerQueue_fire run_t now L (wh, p) w3)
                  (run_all (TimerQueue_fire run_t now L) (filter (\<lambda>e. fst e \<le> now) es)))
        (\<lambda>w4. res_bind (loop_get L w4) (\<lambda>el3.
           if el_timers el3 \<noteq> [] then TimerQueue_arm L (fst (hd (el_timers el3))) w4 else Inr w4))"
    using el me tape due first getExpired_eq[OF sorted, of now]
    by (simp add: TimerQueue_handleRead_def EventLoop_assertInLoopThread_def loop_get_def
        EventLoop_isInLoopThread_def timerfdRead_def sockets_read_def sys_int_def sys_def clock_now_def
        w3_def w2_def)
  ultimately show ?thesis
    by simp
qed

theorem timer_self_cancel_undefined_witness:
  "TimerQueue_handleRead (\<lambda>cb. TimerQueue_cancelTimer 9 1 20) 9 1
     (timer_demo (Some (Timer_new (Some (TmUser 1)) 5 0)) (Some (Timer_new (Some (TmUser 2)) 7 3))
          [(5, 20), (7, 21)] [SysNum 8, SysNum 5]) = Inl (Undefined ''use of a destroyed Timer'')"
  by (rule timer_self_cancel_undefined[OF timer_demo_ok, where now = 5 and rest = "[]"])
    (auto simp: timer_demo_def Timer_new_def)

end
