(* ===== verification/Loop_Concurrency.thy ===== *)
theory Loop_Concurrency
  imports Event_Loop
begin

text \<open>
  The hand-over of functors between threads: \<^verbatim>\<open>EventLoop::queueInLoop\<close>, \<^verbatim>\<open>quit\<close>, \<^verbatim>\<open>wakeup\<close>, \<^verbatim>\<open>handleRead\<close>
  and \<^verbatim>\<open>doPendingFunctors\<close> as a transition system. The loop thread and any number of other threads
  interleave; a step is what one thread does atomically: a push or a swap under \<^verbatim>\<open>mutex_\<close>, one system
  call on the eventfd, one functor. The steps are made of the pieces \<open>queue_push\<close>,
  \<open>queue_must_wake\<close> and \<open>pending_swap\<close> that the sequential model of \<open>Event_Loop\<close> is made of.

  The eventfd is its counter: a write adds one (and fails with \<^verbatim>\<open>EAGAIN\<close>, which \<^verbatim>\<open>wakeup\<close> ignores, when
  it is full), a read sets it to zero, and it is readable when it is not zero. \<open>sc_queued\<close> and
  \<open>sc_executed\<close> record the functors in the order they were queued and run.
\<close>

datatype loop_pc =
    Checking
  | Polling
  | Handling bool
  | Running "loop_functor list"
  | Stopped

record sched =
  sc_el :: evloop
  sc_counter :: nat
  sc_pc :: loop_pc
  sc_wakers :: nat
  sc_queued :: "loop_functor list"
  sc_executed :: "loop_functor list"

definition eventfd_add :: "nat \<Rightarrow> nat" where
  "eventfd_add n = (if n < 2 ^ 64 - 2 then n + 1 else n)"

text \<open>A thread that queues pushes and, if it must, goes on to write to the eventfd.\<close>

definition sched_push :: "loop_functor \<Rightarrow> sched \<Rightarrow> sched" where
  "sched_push f s = s\<lparr>sc_el := queue_push f (sc_el s), sc_queued := sc_queued s @ [f]\<rparr>"

inductive sched_step :: "sched \<Rightarrow> sched \<Rightarrow> bool" where
  other_push:
    "t \<noteq> el_threadId (sc_el s) \<Longrightarrow>
     sched_step s ((sched_push f s)\<lparr>sc_wakers :=
       (if queue_must_wake t (sc_el s) then sc_wakers s + 1 else sc_wakers s)\<rparr>)"
| other_quit:
    "sched_step s (s\<lparr>sc_el := (sc_el s)\<lparr>el_quit := True\<rparr>, sc_wakers := sc_wakers s + 1\<rparr>)"
| other_wake:
    "sc_wakers s = Suc n \<Longrightarrow>
     sched_step s (s\<lparr>sc_wakers := n, sc_counter := eventfd_add (sc_counter s)\<rparr>)"
| loop_check:
    "sc_pc s = Checking \<Longrightarrow>
     sched_step s (s\<lparr>sc_pc := (if el_quit (sc_el s) then Stopped else Polling)\<rparr>)"
| loop_poll:
    "sc_pc s = Polling \<Longrightarrow> sched_step s (s\<lparr>sc_pc := Handling (0 < sc_counter s)\<rparr>)"
| loop_handleRead:
    "sc_pc s = Handling True \<Longrightarrow> sched_step s (s\<lparr>sc_pc := Handling False, sc_counter := 0\<rparr>)"
| loop_push:
    "sc_pc s = Handling b \<or> sc_pc s = Running fs \<Longrightarrow>
     sched_step s ((sched_push f s)\<lparr>sc_counter :=
       (if queue_must_wake (el_threadId (sc_el s)) (sc_el s) then eventfd_add (sc_counter s)
        else sc_counter s)\<rparr>)"
| loop_quit:
    "sc_pc s = Handling b \<or> sc_pc s = Running fs \<Longrightarrow>
     sched_step s (s\<lparr>sc_el := (sc_el s)\<lparr>el_quit := True\<rparr>\<rparr>)"
| loop_swap:
    "sc_pc s = Handling False \<Longrightarrow>
     sched_step s (s\<lparr>sc_pc := Running (fst (pending_swap (sc_el s))),
                     sc_el := snd (pending_swap (sc_el s))\<rparr>)"
| loop_run:
    "sc_pc s = Running (f # fs) \<Longrightarrow>
     sched_step s (s\<lparr>sc_pc := Running fs, sc_executed := sc_executed s @ [f]\<rparr>)"
| loop_done:
    "sc_pc s = Running [] \<Longrightarrow>
     sched_step s (s\<lparr>sc_pc := Checking, sc_el := (sc_el s)\<lparr>el_callingPendingFunctors := False\<rparr>\<rparr>)"

text \<open>The loop starts after \<^verbatim>\<open>loop()\<close> has cleared \<^verbatim>\<open>quit_\<close>; functors may have been queued before.\<close>

definition sched_start :: "sched \<Rightarrow> bool" where
  "sched_start s \<longleftrightarrow>
     sc_pc s = Checking \<and> \<not> el_quit (sc_el s) \<and> \<not> el_callingPendingFunctors (sc_el s) \<and>
     sc_executed s = [] \<and> sc_queued s = el_pendingFunctors (sc_el s) \<and>
     (el_pendingFunctors (sc_el s) \<noteq> [] \<longrightarrow> 0 < sc_counter s + sc_wakers s)"

inductive sched_reach :: "sched \<Rightarrow> bool" where
  start: "sched_start s \<Longrightarrow> sched_reach s"
| step: "sched_reach s \<Longrightarrow> sched_step s s' \<Longrightarrow> sched_reach s'"

fun batch :: "loop_pc \<Rightarrow> loop_functor list" where
  "batch (Running fs) = fs"
| "batch _ = []"

definition functors_kept :: "sched \<Rightarrow> bool" where
  "functors_kept s \<longleftrightarrow>
     sc_executed s @ batch (sc_pc s) @ el_pendingFunctors (sc_el s) = sc_queued s"

definition calling_flag :: "sched \<Rightarrow> bool" where
  "calling_flag s \<longleftrightarrow> (el_callingPendingFunctors (sc_el s) \<longleftrightarrow> (\<exists>fs. sc_pc s = Running fs))"

text \<open>Someone has written, or is about to write, to the eventfd.\<close>

definition awake :: "sched \<Rightarrow> bool" where
  "awake s \<longleftrightarrow> 0 < sc_counter s + sc_wakers s"

definition wakeup_due :: "sched \<Rightarrow> bool" where
  "wakeup_due s \<longleftrightarrow>
     ((sc_pc s = Checking \<or> sc_pc s = Polling \<or> (\<exists>fs. sc_pc s = Running fs)) \<longrightarrow>
        el_pendingFunctors (sc_el s) \<noteq> [] \<longrightarrow> awake s) \<and>
     (sc_pc s = Polling \<longrightarrow> el_quit (sc_el s) \<longrightarrow> awake s)"

lemma eventfd_add_pos [simp]: "0 < eventfd_add n"
  by (simp add: eventfd_add_def)

lemmas sched_defs = functors_kept_def calling_flag_def wakeup_due_def awake_def sched_push_def
  queue_push_def pending_swap_def queue_must_wake_def EventLoop_isInLoopThread_def

lemma functors_kept_step: "sched_step s s' \<Longrightarrow> functors_kept s \<Longrightarrow> functors_kept s'"
  by (induction rule: sched_step.induct) (auto simp: sched_defs)

lemma calling_flag_step: "sched_step s s' \<Longrightarrow> calling_flag s \<Longrightarrow> calling_flag s'"
  by (induction rule: sched_step.induct) (auto simp: sched_defs)

lemma wakeup_due_step: "sched_step s s' \<Longrightarrow> calling_flag s \<Longrightarrow> wakeup_due s \<Longrightarrow> wakeup_due s'"
  by (induction rule: sched_step.induct) (auto simp: sched_defs)

lemma sched_invariant:
  assumes "sched_reach s"
  shows "functors_kept s \<and> calling_flag s \<and> wakeup_due s"
  using assms
proof (induction rule: sched_reach.induct)
  case (start s)
  then show ?case
    by (auto simp: sched_start_def sched_defs)
next
  case (step s s')
  then show ?case
    using functors_kept_step calling_flag_step wakeup_due_step by blast
qed

text \<open>The loop thread alone, from a poll that returns to the end of the round.\<close>

lemma run_batch:
  assumes "sc_pc s = Running fs"
  shows "\<exists>s'. sched_step\<^sup>*\<^sup>* s s' \<and> sc_pc s' = Running [] \<and>
           sc_executed s' = sc_executed s @ fs \<and> sc_queued s' = sc_queued s"
  using assms
proof (induction fs arbitrary: s)
  case Nil
  then show ?case
    by auto
next
  case (Cons f fs)
  let ?s = "s\<lparr>sc_pc := Running fs, sc_executed := sc_executed s @ [f]\<rparr>"
  have "sched_step s ?s"
    using Cons.prems by (rule loop_run)
  moreover obtain s' where "sched_step\<^sup>*\<^sup>* ?s s'" "sc_pc s' = Running []"
      "sc_executed s' = (sc_executed s @ [f]) @ fs" "sc_queued s' = sc_queued s"
    using Cons.IH[of ?s] by auto
  ultimately show ?case
    by (intro exI[of _ s']) (auto intro: converse_rtranclp_into_rtranclp)
qed

lemma handling_round:
  assumes "sc_pc s = Handling b"
  shows "\<exists>s'. sched_step\<^sup>*\<^sup>* s s' \<and> sc_pc s' = Running [] \<and>
           sc_executed s' = sc_executed s @ el_pendingFunctors (sc_el s) \<and>
           sc_queued s' = sc_queued s"
proof -
  obtain s1 where s1: "sched_step\<^sup>*\<^sup>* s s1" "sc_pc s1 = Handling False" "sc_el s1 = sc_el s"
      "sc_executed s1 = sc_executed s" "sc_queued s1 = sc_queued s"
  proof (cases b)
    case True
    then show ?thesis
      using loop_handleRead[of s] assms that[of "s\<lparr>sc_pc := Handling False, sc_counter := 0\<rparr>"] by auto
  next
    case False
    then show ?thesis
      using assms that[of s] by simp
  qed
  let ?s2 = "s1\<lparr>sc_pc := Running (fst (pending_swap (sc_el s1))),
                sc_el := snd (pending_swap (sc_el s1))\<rparr>"
  have "sched_step s1 ?s2"
    using s1(2) by (rule loop_swap)
  moreover obtain s' where "sched_step\<^sup>*\<^sup>* ?s2 s'" "sc_pc s' = Running []"
      "sc_executed s' = sc_executed ?s2 @ fst (pending_swap (sc_el s1))"
      "sc_queued s' = sc_queued s1"
    using run_batch[of ?s2] by auto
  ultimately show ?thesis
    using s1 by (intro exI[of _ s']) (auto simp: pending_swap_def)
qed


section \<open>Properties\<close>

text \<open>
  C13. Under every interleaving of the loop thread with other threads, the functors run so far, those
  of the current batch that are still to run, and those pending, in this order, are exactly the
  functors that were queued, in the order they were queued: none is lost, run twice or overtaken.
\<close>

theorem loop_functors_fifo:
  assumes "sched_reach s"
  shows "sc_executed s @ batch (sc_pc s) @ el_pendingFunctors (sc_el s) = sc_queued s"
  using sched_invariant[OF assms] by (simp add: functors_kept_def)

definition sched_demo :: sched where
  "sched_demo =
     \<lparr>sc_el = \<lparr>el_looping = True, el_quit = False, el_callingPendingFunctors = False,
        el_threadId = 1, el_pollReturnTime = 0, el_poller = Poll PollPoller_new, el_timerfd = 4,
        el_timerChannel = 10, el_timers = [], el_armedFor = None, el_wakeupFd = 5, el_wakeupChannel = 11,
        el_activeChannels = [], el_pendingFunctors = []\<rparr>,
      sc_counter = 0, sc_pc = Checking, sc_wakers = 0, sc_queued = [], sc_executed = []\<rparr>"

definition sched_demo_pushed :: sched where
  "sched_demo_pushed =
     (let s = sched_demo\<lparr>sc_pc := Polling\<rparr> in (sched_push (FUser 7) s)\<lparr>sc_wakers := 1\<rparr>)"

lemma sched_demo_reach: "sched_reach sched_demo_pushed"
proof -
  have "sched_reach sched_demo"
    by (rule sched_reach.start) (simp add: sched_demo_def sched_start_def)
  moreover have "sched_step sched_demo (sched_demo\<lparr>sc_pc := Polling\<rparr>)"
    using loop_check[of sched_demo] by (simp add: sched_demo_def)
  moreover have "sched_step (sched_demo\<lparr>sc_pc := Polling\<rparr>) sched_demo_pushed"
    using other_push[of 2 "sched_demo\<lparr>sc_pc := Polling\<rparr>" "FUser 7"]
    by (simp add: sched_demo_def sched_demo_pushed_def queue_must_wake_def Let_def sched_push_def
        EventLoop_isInLoopThread_def)
  ultimately show ?thesis
    by (blast intro: sched_reach.step)
qed

theorem loop_functors_fifo_witness:
  "sc_executed sched_demo_pushed @ batch (sc_pc sched_demo_pushed) @
     el_pendingFunctors (sc_el sched_demo_pushed) = [FUser 7]"
  using loop_functors_fifo[OF sched_demo_reach]
  by (simp add: sched_demo_pushed_def sched_demo_def sched_push_def Let_def)



text \<open>
  C15. Progress: from any reachable state in which the loop thread is in the poll there is a
  continuation, the round of the loop thread by itself, to a state in which every functor queued so
  far has been run and nothing more was queued.
\<close>

theorem loop_runs_everything:
  assumes "sched_reach s" and "sc_pc s = Polling"
  shows "\<exists>s'. sched_step\<^sup>*\<^sup>* s s' \<and> sc_pc s' = Running [] \<and> sc_executed s' = sc_queued s \<and>
    sc_queued s' = sc_queued s"
proof -
  let ?s = "s\<lparr>sc_pc := Handling (0 < sc_counter s)\<rparr>"
  obtain s' where "sched_step\<^sup>*\<^sup>* ?s s'" "sc_pc s' = Running []"
      "sc_executed s' = sc_executed s @ el_pendingFunctors (sc_el s)" "sc_queued s' = sc_queued s"
    using handling_round[of ?s "0 < sc_counter s"] by auto
  moreover have "sched_step s ?s"
    using assms(2) by (rule loop_poll)
  moreover have "sc_executed s @ el_pendingFunctors (sc_el s) = sc_queued s"
    using sched_invariant[OF assms(1)] assms(2) by (simp add: functors_kept_def)
  ultimately show ?thesis
    by (intro exI[of _ s']) (auto intro: converse_rtranclp_into_rtranclp)
qed

theorem loop_runs_everything_witness:
  "\<exists>s'. sched_step\<^sup>*\<^sup>* sched_demo_pushed s' \<and> sc_executed s' = [FUser 7]"
  using loop_runs_everything[OF sched_demo_reach]
  by (auto simp: sched_demo_pushed_def sched_demo_def sched_push_def queue_push_def Let_def)

end
