(* ===== verification/Loop_Laws.thy ===== *)
theory Loop_Laws
  imports Timer_Queue Loop_Concurrency
begin

text \<open>
  Facts on the event loop that its clients use: what its operations leave alone, which callbacks a
  ready channel runs, and what its construction and \<^verbatim>\<open>quit\<close> do.
\<close>

section \<open>What channel operations leave alone\<close>

lemma same_chans_trans:
  assumes "same_chans w w1" and "same_chans w1 w2"
  shows "same_chans w w2"
proof -
  have "rel_option (\<lambda>c c'. c' = c\<lparr>ch_index := ch_index c'\<rparr>) (chans w q) (chans w2 q)" for q
  proof -
    have "rel_option (\<lambda>c c'. c' = c\<lparr>ch_index := ch_index c'\<rparr>) (chans w q) (chans w1 q)"
      and "rel_option (\<lambda>c c'. c' = c\<lparr>ch_index := ch_index c'\<rparr>) (chans w1 q) (chans w2 q)"
      using assms unfolding same_chans_def by blast+
    then show ?thesis
      by (cases "chans w q"; cases "chans w1 q"; cases "chans w2 q") (auto, metis channel.update_convs(5) channel.surjective)
  qed
  then show ?thesis
    using assms by (simp add: same_chans_def)
qed

lemma same_chans_os_step: "os_step w w' \<Longrightarrow> same_chans w w'"
  by (auto simp: same_chans_def option.rel_refl elim!: os_stepE)

lemma same_chans_put_index: "chans w p = Some c \<Longrightarrow> same_chans w (chan_put p (Channel_set_index i c) w)"
  by (rule same_chans_set_index) simp_all

lemma EpollPoller_ctl_same:
  assumes "EpollPoller_update op p ep w = Inr w'"
  shows "same_chans w w'" and "chans w' = chans w"
proof -
  have "os_step w w'"
    using assms by (auto simp: EpollPoller_update_def res_bind_eq_Inr split: if_splits
        dest: sys_int_os_step)
  then show "same_chans w w'" and "chans w' = chans w"
    by (auto simp: same_chans_os_step elim: os_stepE)
qed

lemma chan_get_Inr [simp]: "chan_get p w = Inr c \<longleftrightarrow> chans w p = Some c"
  by (simp add: chan_get_def split: option.splits)

lemma Poller_update_same:
  assumes "Poller_updateChannel l p (po, w) = Inr (po', w')"
  shows "same_chans w w'"
proof (cases po)
  case (Epoll ep)
  then show ?thesis
    using assms
    by (auto simp: EpollPoller_updateChannel_def res_bind_eq_Inr Let_def split: if_splits
        intro: same_chans_put_index same_chans_trans EpollPoller_ctl_same
        dest: EpollPoller_ctl_same)
next
  case (Poll pp)
  then show ?thesis
    using assms
    by (auto simp: PollPoller_updateChannel_def res_bind_eq_Inr Let_def split: if_splits
        intro: same_chans_put_index same_chans_refl)
qed

lemma Poller_remove_same:
  assumes "Poller_removeChannel l p (po, w) = Inr (po', w')"
  shows "same_chans w w'"
proof (cases po)
  case (Epoll ep)
  then show ?thesis
    using assms
    by (auto simp: EpollPoller_removeChannel_def res_bind_eq_Inr Let_def split: if_splits
        intro: same_chans_put_index same_chans_trans EpollPoller_ctl_same)
next
  case (Poll pp)
  then show ?thesis
    using assms
    by (auto simp: PollPoller_removeChannel_def PollPoller_setIndexAt_def res_bind_eq_Inr Let_def
        split: if_splits option.splits intro: same_chans_put_index same_chans_refl)
qed

lemma hworld_more_world:
  assumes "hworld.more w' = hworld.more w"
  shows "loops w' = loops w" "timers w' = timers w" "t_loopInThisThread w' = t_loopInThisThread w"
    "world.more w' = world.more w"
  using assms by (cases w; cases w'; simp)+

lemma loop_get_Inr [simp]: "loop_get L w = Inr el \<longleftrightarrow> loops w L = Some el"
  by (simp add: loop_get_def split: option.splits)

text \<open>
  An interest change that succeeds happens in the thread of the channel's loop, sets the channel's
  mask, and touches nothing else but indices, the poller of that loop, and the trace.
\<close>

lemma Channel_interest_Inr:
  assumes run: "Channel_interest me i p w = Inr w'" and p: "chans w p = Some c"
  shows "\<exists>el po. loops w (ch_loop c) = Some el \<and> el_threadId el = me \<and>
     loops w' = (loops w)(ch_loop c := Some (el\<lparr>el_poller := po\<rparr>)) \<and>
     timers w' = timers w \<and> statics w' = statics w \<and> world.more w' = world.more w \<and>
     (\<forall>q. rel_option (\<lambda>d d'. d' = d\<lparr>ch_index := ch_index d'\<rparr>)
        (((chans w)(p := Some (c\<lparr>ch_events := interest_mask (statics w) i (ch_events c),
                                ch_addedToLoop := True\<rparr>))) q) (chans w' q))"
proof -
  let ?c = "c\<lparr>ch_events := interest_mask (statics w) i (ch_events c), ch_addedToLoop := True\<rparr>"
  let ?w = "chan_put p ?c (chan_put p (c\<lparr>ch_events := interest_mask (statics w) i (ch_events c)\<rparr>) w)"
  obtain el po w1 where el: "loops w (ch_loop c) = Some el" "el_threadId el = me"
    and up: "Poller_updateChannel True p (el_poller el, ?w) = Inr (po, w1)"
    and w': "w' = loop_put (ch_loop c) (el\<lparr>el_poller := po\<rparr>) w1"
    using run p
    by (auto simp: Channel_interest_def Channel_update_def EventLoop_updateChannel_def
        EventLoop_assertInLoopThread_def EventLoop_isInLoopThread_def res_bind_eq_Inr
        assertInLoopThread_def split: if_splits)
  have same: "same_chans ?w w1"
    using up by (rule Poller_update_same)
  then have "hworld.more w1 = hworld.more ?w"
    by (simp add: same_chans_def)
  note more = hworld_more_world[OF this]
  have "rel_option (\<lambda>d d'. d' = d\<lparr>ch_index := ch_index d'\<rparr>) (chans ?w q) (chans w1 q)" for q
    using same unfolding same_chans_def by blast
  then show ?thesis
    using el more same by (intro exI[of _ el] exI[of _ po]) (simp add: w' same_chans_def)
qed

lemma Channel_interest_live: "Channel_interest me i p w = Inr w' \<Longrightarrow> \<exists>c. chans w p = Some c"
  by (auto simp: Channel_interest_def res_bind_eq_Inr)

lemma Channel_interest_more: "Channel_interest me i p w = Inr w' \<Longrightarrow> world.more w' = world.more w"
  using Channel_interest_live[of me i p w w'] Channel_interest_Inr[of me i p w w'] by auto

lemma Channel_remove_Inr:
  assumes run: "Channel_remove me p w = Inr w'"
  shows "timers w' = timers w \<and> statics w' = statics w \<and> world.more w' = world.more w"
proof -
  obtain c el po w1 where el: "loops w (ch_loop c) = Some el" "el_threadId el = me"
    and up: "Poller_removeChannel True p (el_poller el, chan_put p (c\<lparr>ch_addedToLoop := False\<rparr>) w) = Inr (po, w1)"
    and w': "w' = loop_put (ch_loop c) (el\<lparr>el_poller := po\<rparr>) w1"
    using run
    by (auto simp: Channel_remove_def EventLoop_removeChannel_def
        EventLoop_assertInLoopThread_def EventLoop_isInLoopThread_def res_bind_eq_Inr
        assertInLoopThread_def split: if_splits)
  have same: "same_chans (chan_put p (c\<lparr>ch_addedToLoop := False\<rparr>) w) w1"
    using up by (rule Poller_remove_same)
  then have "hworld.more w1 = hworld.more (chan_put p (c\<lparr>ch_addedToLoop := False\<rparr>) w)"
    by (simp add: same_chans_def)
  from hworld_more_world[OF this] same show ?thesis
    by (simp add: w' same_chans_def)
qed

lemma EventLoop_wakeup_Inr: "EventLoop_wakeup L w = Inr w' \<Longrightarrow> os_step w w'"
  by (auto simp: EventLoop_wakeup_def res_bind_eq_Inr dest: sockets_write_os_step)

lemma EventLoop_queueInLoop_Inr:
  assumes "EventLoop_queueInLoop me L f w = Inr w'"
  shows "\<exists>el. loops w L = Some el \<and> loops w' = (loops w)(L := Some (queue_push f el)) \<and>
     timers w' = timers w \<and> chans w' = chans w \<and> statics w' = statics w \<and> world.more w' = world.more w"
proof -
  obtain el where el: "loops w L = Some el"
    using assms by (auto simp: EventLoop_queueInLoop_def loop_mod_def res_bind_eq_Inr)
  let ?w = "loop_put L (queue_push f el) w"
  have "w' = ?w \<or> os_step ?w w'"
    using assms el EventLoop_wakeup_Inr
    by (auto simp: EventLoop_queueInLoop_def split: if_splits)
  then show ?thesis
    using el os_step_world[of ?w w'] by auto
qed


section \<open>Dispatch\<close>

definition opt_list :: "'a option \<Rightarrow> 'a list" where
  "opt_list x = (case x of None \<Rightarrow> [] | Some y \<Rightarrow> [y])"

text \<open>
  The callbacks a channel runs for the events it received, in order: close for a hangup with no
  input left, error, read for input, urgent data or a half-closed peer, write.
\<close>

definition event_calls :: "channel \<Rightarrow> channel_cb list" where
  "event_calls c =
     (if ch_revents c AND EPOLLHUP \<noteq> 0 \<and> ch_revents c AND EPOLLIN = 0
      then opt_list (ch_closeCallback c) else []) @
     (if ch_revents c AND EPOLLERR \<noteq> 0 then opt_list (ch_errorCallback c) else []) @
     (if ch_revents c AND (EPOLLIN OR EPOLLPRI OR EPOLLRDHUP) \<noteq> 0
      then opt_list (ch_readCallback c) else []) @
     (if ch_revents c AND EPOLLOUT \<noteq> 0 then opt_list (ch_writeCallback c) else [])"

lemma res_bind_cong:
  "(\<And>x. m = Inr x \<Longrightarrow> f x = g x) \<Longrightarrow> res_bind m f = res_bind m g"
  by (cases m) simp_all

lemma run_all_Nil [simp]: "run_all f [] = Inr"
  by (rule ext) simp

lemma run_all_append: "run_all f (xs @ ys) w = res_bind (run_all f xs w) (run_all f ys)"
  by (induction xs arbitrary: w) (auto simp: res_bind_assoc intro!: res_bind_cong)

lemma run_all_keeps:
  assumes "\<And>x v v'. f x v = Inr v' \<Longrightarrow> g v' = g v" and "run_all f xs w = Inr w'"
  shows "g w' = g w"
  using assms(2)
proof (induction xs arbitrary: w)
  case (Cons x xs)
  then obtain v where v: "f x w = Inr v" and "run_all f xs v = Inr w'"
    by (auto simp: res_bind_eq_Inr)
  then show ?case
    using Cons.IH[of v] assms(1)[OF v] by simp
qed simp

lemma Channel_callback_run:
  "chans w p = Some c \<Longrightarrow>
   Channel_callback run_cb t p test callback w =
     run_all (\<lambda>cb. run_cb cb t) (if test c then opt_list (callback c) else []) w"
  by (auto simp: Channel_callback_def opt_list_def split: option.splits)

lemma callback_then:
  assumes p: "chans w p = Some c"
    and frame: "\<And>cb v v'. run_cb cb t v = Inr v' \<Longrightarrow> chans v' p = chans v p"
    and k: "\<And>v. chans v p = Some c \<Longrightarrow> k v = res_bind (run_all (\<lambda>cb. run_cb cb t) cbs v) h"
  shows "res_bind (Channel_callback run_cb t p test callback w) k =
     res_bind (run_all (\<lambda>cb. run_cb cb t) ((if test c then opt_list (callback c) else []) @ cbs) w) h"
proof -
  let ?r = "\<lambda>cb. run_cb cb t"
  have "chans v p = Some c" if "run_all ?r xs w = Inr v" for v xs
    using run_all_keeps[where f = ?r and g = "\<lambda>v. chans v p", OF _ that] frame p by simp
  then show ?thesis
    unfolding Channel_callback_run[OF p] run_all_append res_bind_assoc
    by (intro res_bind_cong) (simp add: k)
qed


definition dispatch_demo :: "world" where
  "dispatch_demo =
     \<lparr>tape = [], trace = [], os_local = (\<lambda>_. None), os_peer = (\<lambda>_. None),
      chans = [3 \<mapsto> (Channel_new 1 8)\<lparr>ch_revents := EPOLLIN OR EPOLLOUT OR EPOLLHUP,
        ch_closeCallback := Some (CbConnClose 2), ch_readCallback := Some (CbConnRead 2),
        ch_writeCallback := Some (CbConnWrite 2)\<rparr>],
      statics = lt_statics, loops = (\<lambda>_. None), timers = (\<lambda>_. None),
      t_loopInThisThread = (\<lambda>_. None)\<rparr>"



section \<open>Construction and quit\<close>

text \<open>
  What the kernel watches after the constructor of an \<^verbatim>\<open>EventLoop\<close> with epoll: the wakeup
  descriptor with the read mask of the requested mode, but the timer descriptor with the read mask
  that was in force \<^emph>\<open>before\<close> the constructor, because \<^verbatim>\<open>timerQueue_\<close> is constructed before the body
  calls \<^verbatim>\<open>Channel::initDefaultEvent\<close>. For the first loop of a program that mask is zero: its timers
  never make the poll return.
\<close>

theorem eventloop_ctor_watches:
  assumes tape: "tape w = SysNum epfd # SysNum tfd # SysNum 0 # SysNum wfd # SysNum 0 # rest"
    and fds: "0 \<le> epfd" "0 \<le> tfd" "0 \<le> wfd" "tfd \<noteq> wfd"
    and first: "t_loopInThisThread w me = None" and addr: "tc \<noteq> wc"
  shows "\<exists>w' el. EventLoop_new me EPOLL emode L tc wc w = Inr w' \<and> loops w' L = Some el \<and>
     el_timerfd el = tfd \<and> el_wakeupFd el = wfd \<and>
     Poller_mask (el_poller el, w') wfd = kReadEvent (Channel_initDefaultEvent emode) \<and>
     Poller_mask (el_poller el, w') tfd = kReadEvent (statics w)"
  using assms
  by (simp add: EventLoop_new_def Poller_newDefaultPoller_def EpollPoller_new_def sys_int_def sys_def
      TimerQueue_new_def timerfdCreate_def createEventfd_def loop_mod_def loop_get_def
      EventLoop_assertInLoopThread_def EventLoop_isInLoopThread_def Channel_interest_def
      Channel_update_def EventLoop_updateChannel_def Channel_setReadCallback_def Channel_new_def
      EpollPoller_updateChannel_def EpollPoller_update_def Let_def kNew_def Channel_set_index_def
      epoll_mask_def epoll_watch_def)

theorem eventloop_ctor_watches_witness:
  "\<exists>w' el. EventLoop_new 7 EPOLL LT 1 2 3
       (dispatch_demo\<lparr>tape := [SysNum 3, SysNum 4, SysNum 0, SysNum 5, SysNum 0],
          statics := Channel_statics_zero\<rparr>) = Inr w' \<and> loops w' 1 = Some el \<and>
     Poller_mask (el_poller el, w') 5 = 3 \<and> Poller_mask (el_poller el, w') 4 = 0"
  using eventloop_ctor_watches[of "dispatch_demo\<lparr>tape := [SysNum 3, SysNum 4, SysNum 0, SysNum 5, SysNum 0],
          statics := Channel_statics_zero\<rparr>" 3 4 5 "[]" 7 2 3 LT 1]
  by (auto simp: dispatch_demo_def Channel_statics_zero_def)

text \<open>
  With \<^verbatim>\<open>poll\<close> the constructor never calls \<^verbatim>\<open>initDefaultEvent\<close>: in a program whose loops all use
  \<^verbatim>\<open>poll\<close> both descriptors are watched for nothing, so neither a timer nor \<^verbatim>\<open>wakeup\<close> ends the poll.
\<close>

theorem eventloop_poll_ctor_deaf:
  assumes tape: "tape w = SysNum tfd # SysNum wfd # rest"
    and fds: "0 \<le> tfd" "0 \<le> wfd" "tfd \<noteq> wfd"
    and first: "t_loopInThisThread w me = None" and addr: "tc \<noteq> wc"
    and zero: "statics w = Channel_statics_zero"
  shows "\<exists>w' el. EventLoop_new me POLL emode L tc wc w = Inr w' \<and> loops w' L = Some el \<and>
     (\<forall>fd. Poller_mask (el_poller el, w') fd = 0)"
  using assms
  by (simp add: EventLoop_new_def Poller_newDefaultPoller_def PollPoller_new_def sys_int_def sys_def
      TimerQueue_new_def timerfdCreate_def createEventfd_def loop_mod_def loop_get_def
      EventLoop_assertInLoopThread_def EventLoop_isInLoopThread_def Channel_interest_def
      Channel_update_def EventLoop_updateChannel_def Channel_setReadCallback_def Channel_new_def
      PollPoller_updateChannel_def Let_def Channel_statics_zero_def poll_mask_def)

theorem eventloop_poll_ctor_deaf_witness:
  "\<exists>w' el. EventLoop_new 7 POLL LT 1 2 3
       (dispatch_demo\<lparr>tape := [SysNum 4, SysNum 5], statics := Channel_statics_zero\<rparr>) = Inr w' \<and>
     loops w' 1 = Some el \<and> (\<forall>fd. Poller_mask (el_poller el, w') fd = 0)"
  using eventloop_poll_ctor_deaf[of "dispatch_demo\<lparr>tape := [SysNum 4, SysNum 5],
          statics := Channel_statics_zero\<rparr>" 4 5 "[]" 7 2 3 LT 1]
  by (auto simp: dispatch_demo_def)

text \<open>
  A \<^verbatim>\<open>quit\<close> that comes before \<^verbatim>\<open>loop\<close> is lost: \<^verbatim>\<open>loop\<close> clears the flag, so it runs exactly as if \<^verbatim>\<open>quit\<close>
  had not been called, for any number of iterations.
\<close>

theorem eventloop_quit_before_loop:
  assumes "loops w L = Some el" and "\<not> el_quit el" and "EventLoop_quit me L w = Inr w'"
    and "el_threadId el = me"
  shows "EventLoop_loop n me run_cb run_f drop_f L w' = EventLoop_loop n me run_cb run_f drop_f L w"
proof -
  have "w' = loop_put L (el\<lparr>el_quit := True\<rparr>) w"
    using assms by (simp add: EventLoop_quit_def EventLoop_isInLoopThread_def)
  then show ?thesis
    using assms(1) by (simp add: EventLoop_loop_def EventLoop_assertInLoopThread_def
        EventLoop_isInLoopThread_def loop_put_def)
qed

theorem eventloop_quit_before_loop_witness:
  "\<exists>w'. EventLoop_quit 9 1 (timer_demo None None [] []) = Inr w' \<and>
     EventLoop_loop 5 9 (\<lambda>cb t. Inr) (\<lambda>f. Inr) (\<lambda>fs. Inr) 1 w' =
     EventLoop_loop 5 9 (\<lambda>cb t. Inr) (\<lambda>f. Inr) (\<lambda>fs. Inr) 1 (timer_demo None None [] [])"
proof -
  obtain w' where "EventLoop_quit 9 1 (timer_demo None None [] []) = Inr w'"
    by (simp add: EventLoop_quit_def EventLoop_isInLoopThread_def timer_demo_def)
  moreover from this have "EventLoop_loop 5 9 (\<lambda>cb t. Inr) (\<lambda>f. Inr) (\<lambda>fs. Inr) 1 w' =
     EventLoop_loop 5 9 (\<lambda>cb t. Inr) (\<lambda>f. Inr) (\<lambda>fs. Inr) 1 (timer_demo None None [] [])"
    by (intro eventloop_quit_before_loop[where me = 9]) (auto simp: timer_demo_def)
  ultimately show ?thesis
    by blast
qed

end
