(* ===== verification/Tcp_Connection.thy ===== *)
theory Tcp_Connection
  imports Loop_Laws Byte_Buffer
begin

text \<open>
  \<^verbatim>\<open>TcpConnection\<close> (\<^verbatim>\<open>twnl/TcpConnection.h\<close>, \<^verbatim>\<open>twnl/TcpConnection.cc\<close>). A state extends \<open>conn_world\<close>, the world
  of the event loop with the connections on the heap. The callbacks a connection stores are
  numbers of functions of the application (or of the server or client that owns it); what they do
  is the argument \<open>run_ev\<close>, which is given the event and the connection. Calling a callback that is
  not set is the exception \<open>BadFunctionCall\<close>. \<^verbatim>\<open>context_\<close>, which the library only stores, is left
  out, and so is the reference count behind \<^verbatim>\<open>shared_from_this\<close>: a connection is on the heap until
  \<^verbatim>\<open>TcpConnection_dtor\<close> takes it away.
\<close>

datatype conn_state = kConnecting | kConnected | kDisconnected | kDisconnecting

datatype close_cb = CloseServer ptr | CloseClient ptr | CloseDetached ptr

record tcp_connection =
  tc_loop :: ptr
  tc_name :: string
  tc_state :: conn_state
  tc_reading :: bool
  tc_socket :: int
  tc_channel :: ptr
  tc_localAddr :: inet_address
  tc_peerAddr :: inet_address
  tc_connectionCallback :: "nat option"
  tc_messageCallback :: "nat option"
  tc_writeCompleteCallback :: "nat option"
  tc_highWaterMarkCallback :: "nat option"
  tc_closeCallback :: "close_cb option"
  tc_highWaterMark :: nat
  tc_inputBuffer :: buffer
  tc_outputBuffer :: buffer
  tc_context :: "nat option"

record conn_world = world +
  conns :: "ptr \<Rightarrow> tcp_connection option"

datatype conn_event =
    EvConnection nat
  | EvMessage nat int
  | EvClose close_cb

definition conn_get :: "ptr \<Rightarrow> 'z conn_world_scheme \<Rightarrow> tcp_connection res" where
  "conn_get C w =
     (case conns w C of
        None \<Rightarrow> Inl (Undefined ''use of a destroyed TcpConnection'')
      | Some tc \<Rightarrow> Inr tc)"

definition conn_put :: "ptr \<Rightarrow> tcp_connection \<Rightarrow> 'z conn_world_scheme \<Rightarrow> 'z conn_world_scheme" where
  "conn_put C tc w = w\<lparr>conns := (conns w)(C := Some tc)\<rparr>"

definition conn_mod ::
    "ptr \<Rightarrow> (tcp_connection \<Rightarrow> tcp_connection) \<Rightarrow> 'z conn_world_scheme \<Rightarrow> 'z conn_world_scheme res" where
  "conn_mod C f w = res_bind (conn_get C w) (\<lambda>tc. Inr (conn_put C (f tc) w))"

definition TcpConnection_connected :: "tcp_connection \<Rightarrow> bool" where
  "TcpConnection_connected tc \<longleftrightarrow> tc_state tc = kConnected"

definition TcpConnection_disconnected :: "tcp_connection \<Rightarrow> bool" where
  "TcpConnection_disconnected tc \<longleftrightarrow> tc_state tc = kDisconnected"

definition TcpConnection_setState ::
    "conn_state \<Rightarrow> ptr \<Rightarrow> 'z conn_world_scheme \<Rightarrow> 'z conn_world_scheme res" where
  "TcpConnection_setState s C w = conn_mod C (\<lambda>tc. tc\<lparr>tc_state := s\<rparr>) w"

definition TcpConnection_setConnectionCallback :: "nat option \<Rightarrow> tcp_connection \<Rightarrow> tcp_connection" where
  "TcpConnection_setConnectionCallback cb tc = tc\<lparr>tc_connectionCallback := cb\<rparr>"

definition TcpConnection_setMessageCallback :: "nat option \<Rightarrow> tcp_connection \<Rightarrow> tcp_connection" where
  "TcpConnection_setMessageCallback cb tc = tc\<lparr>tc_messageCallback := cb\<rparr>"

definition TcpConnection_setWriteCompleteCallback :: "nat option \<Rightarrow> tcp_connection \<Rightarrow> tcp_connection" where
  "TcpConnection_setWriteCompleteCallback cb tc = tc\<lparr>tc_writeCompleteCallback := cb\<rparr>"

definition TcpConnection_setCloseCallback :: "close_cb option \<Rightarrow> tcp_connection \<Rightarrow> tcp_connection" where
  "TcpConnection_setCloseCallback cb tc = tc\<lparr>tc_closeCallback := cb\<rparr>"

text \<open>The application's own data, a \<^verbatim>\<open>boost::any\<close>: a name, or nothing.\<close>

definition TcpConnection_setContext :: "nat option \<Rightarrow> tcp_connection \<Rightarrow> tcp_connection" where
  "TcpConnection_setContext context tc = tc\<lparr>tc_context := context\<rparr>"

definition TcpConnection_getContext :: "tcp_connection \<Rightarrow> nat option" where
  "TcpConnection_getContext tc = tc_context tc"

definition TcpConnection_setHighWaterMarkCallback ::
    "nat option \<Rightarrow> nat \<Rightarrow> tcp_connection \<Rightarrow> tcp_connection" where
  "TcpConnection_setHighWaterMarkCallback cb mark tc =
     tc\<lparr>tc_highWaterMarkCallback := cb, tc_highWaterMark := mark\<rparr>"

text \<open>\<^verbatim>\<open>defaultMessageCallback\<close> discards the input; \<^verbatim>\<open>defaultConnectionCallback\<close> only logs.\<close>

definition defaultMessageCallback :: "ptr \<Rightarrow> 'z conn_world_scheme \<Rightarrow> 'z conn_world_scheme res" where
  "defaultMessageCallback C w =
     conn_mod C (\<lambda>tc. tc\<lparr>tc_inputBuffer := Buffer_retrieveAll (tc_inputBuffer tc)\<rparr>) w"

definition TcpConnection_new ::
    "ptr \<Rightarrow> ptr \<Rightarrow> ptr \<Rightarrow> string \<Rightarrow> int \<Rightarrow> inet_address \<Rightarrow> inet_address \<Rightarrow>
     'z conn_world_scheme \<Rightarrow> 'z conn_world_scheme res" where
  "TcpConnection_new C ch L nameArg sockfd localAddr peerAddr w =
     res_bind (Buffer_new kInitialSize) (\<lambda>b.
     let c = Channel_setErrorCallback (CbConnError C)
               (Channel_setCloseCallback (CbConnClose C)
                 (Channel_setWriteCallback (CbConnWrite C)
                   (Channel_setReadCallback (CbConnRead C) (Channel_new L sockfd))));
         tc = \<lparr>tc_loop = L, tc_name = nameArg, tc_state = kConnecting, tc_reading = True,
               tc_socket = sockfd, tc_channel = ch, tc_localAddr = localAddr,
               tc_peerAddr = peerAddr, tc_connectionCallback = None, tc_messageCallback = None,
               tc_writeCompleteCallback = None, tc_highWaterMarkCallback = None,
               tc_closeCallback = None, tc_highWaterMark = 64 * 1024 * 1024,
               tc_inputBuffer = b, tc_outputBuffer = b, tc_context = None\<rparr>
     in Socket_setKeepAlive True sockfd (conn_put C tc (chan_put ch c w)))"

text \<open>The members' destructors: the channel, then the socket, which closes the descriptor.\<close>

definition TcpConnection_dtor :: "ptr \<Rightarrow> 'z conn_world_scheme \<Rightarrow> 'z conn_world_scheme res" where
  "TcpConnection_dtor C w =
     res_bind (conn_get C w) (\<lambda>tc.
     res_bind (chan_delete (tc_channel tc) w) (\<lambda>w1.
     res_bind (Socket_dtor (tc_socket tc) w1) (\<lambda>w2.
       Inr (w2\<lparr>conns := (conns w2)(C := None)\<rparr>))))"


section \<open>Callbacks\<close>

definition call_connection ::
    "(conn_event \<Rightarrow> ptr \<Rightarrow> 'z conn_world_scheme \<Rightarrow> 'z conn_world_scheme res) \<Rightarrow> ptr \<Rightarrow>
     'z conn_world_scheme \<Rightarrow> 'z conn_world_scheme res" where
  "call_connection run_ev C w =
     res_bind (conn_get C w) (\<lambda>tc.
       case tc_connectionCallback tc of
         None \<Rightarrow> Inl BadFunctionCall | Some f \<Rightarrow> run_ev (EvConnection f) C w)"

definition call_message ::
    "(conn_event \<Rightarrow> ptr \<Rightarrow> 'z conn_world_scheme \<Rightarrow> 'z conn_world_scheme res) \<Rightarrow> int \<Rightarrow> ptr \<Rightarrow>
     'z conn_world_scheme \<Rightarrow> 'z conn_world_scheme res" where
  "call_message run_ev receiveTime C w =
     res_bind (conn_get C w) (\<lambda>tc.
       case tc_messageCallback tc of
         None \<Rightarrow> Inl BadFunctionCall | Some f \<Rightarrow> run_ev (EvMessage f receiveTime) C w)"

definition call_close ::
    "(conn_event \<Rightarrow> ptr \<Rightarrow> 'z conn_world_scheme \<Rightarrow> 'z conn_world_scheme res) \<Rightarrow> ptr \<Rightarrow>
     'z conn_world_scheme \<Rightarrow> 'z conn_world_scheme res" where
  "call_close run_ev C w =
     res_bind (conn_get C w) (\<lambda>tc.
       case tc_closeCallback tc of
         None \<Rightarrow> Inl BadFunctionCall | Some f \<Rightarrow> run_ev (EvClose f) C w)"


section \<open>Closing\<close>

definition TcpConnection_shutdownInLoop ::
    "nat \<Rightarrow> ptr \<Rightarrow> 'z conn_world_scheme \<Rightarrow> 'z conn_world_scheme res" where
  "TcpConnection_shutdownInLoop me C w =
     res_bind (conn_get C w) (\<lambda>tc.
     res_bind (EventLoop_assertInLoopThread me (tc_loop tc) w) (\<lambda>_.
     res_bind (chan_get (tc_channel tc) w) (\<lambda>c.
       if \<not> Channel_isWriting (statics w) c then Socket_shutdownWrite (tc_socket tc) w
       else Inr w)))"

definition TcpConnection_shutdown :: "nat \<Rightarrow> ptr \<Rightarrow> 'z conn_world_scheme \<Rightarrow> 'z conn_world_scheme res" where
  "TcpConnection_shutdown me C w =
     res_bind (conn_get C w) (\<lambda>tc.
       if tc_state tc = kConnected
       then res_bind (TcpConnection_setState kDisconnecting C w) (\<lambda>w1.
              EventLoop_runInLoop me (tc_loop tc) (FConnShutdown C)
                (TcpConnection_shutdownInLoop me C) w1)
       else Inr w)"

definition TcpConnection_handleClose ::
    "(conn_event \<Rightarrow> ptr \<Rightarrow> 'z conn_world_scheme \<Rightarrow> 'z conn_world_scheme res) \<Rightarrow> nat \<Rightarrow> ptr \<Rightarrow>
     'z conn_world_scheme \<Rightarrow> 'z conn_world_scheme res" where
  "TcpConnection_handleClose run_ev me C w =
     res_bind (conn_get C w) (\<lambda>tc.
     res_bind (EventLoop_assertInLoopThread me (tc_loop tc) w) (\<lambda>_.
     res_bind (cassert (tc_state tc = kConnected \<or> tc_state tc = kDisconnecting)
                ''state_ == kConnected || state_ == kDisconnecting'') (\<lambda>_.
     res_bind (TcpConnection_setState kDisconnected C w) (\<lambda>w1.
     res_bind (Channel_interest me DisableAll (tc_channel tc) w1) (\<lambda>w2.
     res_bind (call_connection run_ev C w2) (\<lambda>w3.
       call_close run_ev C w3))))))"

definition TcpConnection_forceCloseInLoop ::
    "(conn_event \<Rightarrow> ptr \<Rightarrow> 'z conn_world_scheme \<Rightarrow> 'z conn_world_scheme res) \<Rightarrow> nat \<Rightarrow> ptr \<Rightarrow>
     'z conn_world_scheme \<Rightarrow> 'z conn_world_scheme res" where
  "TcpConnection_forceCloseInLoop run_ev me C w =
     res_bind (conn_get C w) (\<lambda>tc.
     res_bind (EventLoop_assertInLoopThread me (tc_loop tc) w) (\<lambda>_.
       if tc_state tc = kDisconnecting \<or> tc_state tc = kConnected
       then TcpConnection_handleClose run_ev me C w else Inr w))"

definition TcpConnection_forceClose :: "nat \<Rightarrow> ptr \<Rightarrow> 'z conn_world_scheme \<Rightarrow> 'z conn_world_scheme res" where
  "TcpConnection_forceClose me C w =
     res_bind (conn_get C w) (\<lambda>tc.
       if tc_state tc = kConnected \<or> tc_state tc = kDisconnecting
       then res_bind (TcpConnection_setState kDisconnecting C w) (\<lambda>w1.
              EventLoop_queueInLoop me (tc_loop tc) (FConnForceClose C) w1)
       else Inr w)"

definition TcpConnection_connectEstablished ::
    "(conn_event \<Rightarrow> ptr \<Rightarrow> 'z conn_world_scheme \<Rightarrow> 'z conn_world_scheme res) \<Rightarrow> nat \<Rightarrow> ptr \<Rightarrow>
     'z conn_world_scheme \<Rightarrow> 'z conn_world_scheme res" where
  "TcpConnection_connectEstablished run_ev me C w =
     res_bind (conn_get C w) (\<lambda>tc.
     res_bind (EventLoop_assertInLoopThread me (tc_loop tc) w) (\<lambda>_.
     res_bind (cassert (tc_state tc = kConnecting) ''state_ == kConnecting'') (\<lambda>_.
     res_bind (TcpConnection_setState kConnected C w) (\<lambda>w1.
     res_bind (Channel_interest me EnableReading (tc_channel tc) w1) (\<lambda>w2.
       call_connection run_ev C w2)))))"

definition TcpConnection_connectDestroyed ::
    "(conn_event \<Rightarrow> ptr \<Rightarrow> 'z conn_world_scheme \<Rightarrow> 'z conn_world_scheme res) \<Rightarrow> nat \<Rightarrow> ptr \<Rightarrow>
     'z conn_world_scheme \<Rightarrow> 'z conn_world_scheme res" where
  "TcpConnection_connectDestroyed run_ev me C w =
     res_bind (conn_get C w) (\<lambda>tc.
     res_bind (EventLoop_assertInLoopThread me (tc_loop tc) w) (\<lambda>_.
     res_bind (if tc_state tc = kConnected
               then res_bind (TcpConnection_setState kDisconnected C w) (\<lambda>w1.
                    res_bind (Channel_interest me DisableAll (tc_channel tc) w1) (\<lambda>w2.
                      call_connection run_ev C w2))
               else Inr w) (\<lambda>w3.
       Channel_remove me (tc_channel tc) w3)))"


section \<open>Reading\<close>

definition TcpConnection_setTcpNoDelay :: "bool \<Rightarrow> ptr \<Rightarrow> 'z conn_world_scheme \<Rightarrow> 'z conn_world_scheme res" where
  "TcpConnection_setTcpNoDelay on C w =
     res_bind (conn_get C w) (\<lambda>tc. Socket_setTcpNoDelay on (tc_socket tc) w)"

definition TcpConnection_startReadInLoop ::
    "nat \<Rightarrow> ptr \<Rightarrow> 'z conn_world_scheme \<Rightarrow> 'z conn_world_scheme res" where
  "TcpConnection_startReadInLoop me C w =
     res_bind (conn_get C w) (\<lambda>tc.
     res_bind (EventLoop_assertInLoopThread me (tc_loop tc) w) (\<lambda>_.
     res_bind (chan_get (tc_channel tc) w) (\<lambda>c.
       if \<not> tc_reading tc \<or> \<not> Channel_isReading (statics w) c
       then res_bind (Channel_interest me EnableReading (tc_channel tc) w) (\<lambda>w1.
              conn_mod C (\<lambda>tc. tc\<lparr>tc_reading := True\<rparr>) w1)
       else Inr w)))"

definition TcpConnection_startRead :: "nat \<Rightarrow> ptr \<Rightarrow> 'z conn_world_scheme \<Rightarrow> 'z conn_world_scheme res" where
  "TcpConnection_startRead me C w =
     res_bind (conn_get C w) (\<lambda>tc.
       EventLoop_runInLoop me (tc_loop tc) (FConnStartRead C) (TcpConnection_startReadInLoop me C) w)"

definition TcpConnection_stopReadInLoop ::
    "nat \<Rightarrow> ptr \<Rightarrow> 'z conn_world_scheme \<Rightarrow> 'z conn_world_scheme res" where
  "TcpConnection_stopReadInLoop me C w =
     res_bind (conn_get C w) (\<lambda>tc.
     res_bind (EventLoop_assertInLoopThread me (tc_loop tc) w) (\<lambda>_.
     res_bind (chan_get (tc_channel tc) w) (\<lambda>c.
       if tc_reading tc \<or> Channel_isReading (statics w) c
       then res_bind (Channel_interest me DisableReading (tc_channel tc) w) (\<lambda>w1.
              conn_mod C (\<lambda>tc. tc\<lparr>tc_reading := False\<rparr>) w1)
       else Inr w)))"

definition TcpConnection_stopRead :: "nat \<Rightarrow> ptr \<Rightarrow> 'z conn_world_scheme \<Rightarrow> 'z conn_world_scheme res" where
  "TcpConnection_stopRead me C w =
     res_bind (conn_get C w) (\<lambda>tc.
       EventLoop_runInLoop me (tc_loop tc) (FConnStopRead C) (TcpConnection_stopReadInLoop me C) w)"

definition TcpConnection_handleError :: "ptr \<Rightarrow> 'z conn_world_scheme \<Rightarrow> 'z conn_world_scheme res" where
  "TcpConnection_handleError C w =
     res_bind (conn_get C w) (\<lambda>tc.
     res_bind (chan_get (tc_channel tc) w) (\<lambda>c.
     res_bind (sockets_getSocketError (ch_fd c) w) (\<lambda>(err, w'). Inr w')))"

text \<open>
  The input and output of a buffer through a descriptor: one call, or the edge-triggered loop,
  which takes its answers from the tape. The trace records the calls made.
\<close>

definition conn_readFd :: "bool \<Rightarrow> int \<Rightarrow> buffer \<Rightarrow> 'z os_scheme \<Rightarrow> (int \<times> buffer \<times> 'z os_scheme) res" where
  "conn_readFd et fd b w =
     (if et
      then res_bind (Buffer_readFdET 0 b 0 (tape w)) (\<lambda>(n, e, b', rest).
             Inr (n, b', w\<lparr>tape := rest,
               trace := trace w @ replicate (length (tape w) - length rest) (CallReadv fd)\<rparr>))
      else res_bind (sys (CallReadv fd) w) (\<lambda>(r, w').
           res_bind (Buffer_readFd r b 0) (\<lambda>(n, e, b'). Inr (n, b', w'))))"

fun write_calls :: "int \<Rightarrow> buffer \<Rightarrow> sys_ret list \<Rightarrow> sys_call list" where
  "write_calls fd b [] = []"
| "write_calls fd b (r # rs) =
     CallWrite fd (Buffer_contents b) #
     (case Buffer_writeFd r b 0 of Inl e \<Rightarrow> [] | Inr (n, e, b') \<Rightarrow> write_calls fd b' rs)"

definition conn_writeFd :: "bool \<Rightarrow> int \<Rightarrow> buffer \<Rightarrow> 'z os_scheme \<Rightarrow> (int \<times> buffer \<times> 'z os_scheme) res" where
  "conn_writeFd et fd b w =
     (if et
      then res_bind (Buffer_writeFdET 0 b 0 (tape w)) (\<lambda>(n, e, b', rest).
             Inr (n, b', w\<lparr>tape := rest,
               trace := trace w @ write_calls fd b (take (length (tape w) - length rest) (tape w))\<rparr>))
      else res_bind (sys (CallWrite fd (Buffer_contents b)) w) (\<lambda>(r, w').
           res_bind (Buffer_writeFd r b 0) (\<lambda>(n, e, b'). Inr (n, b', w'))))"

definition TcpConnection_handleRead ::
    "(conn_event \<Rightarrow> ptr \<Rightarrow> 'z conn_world_scheme \<Rightarrow> 'z conn_world_scheme res) \<Rightarrow> nat \<Rightarrow> int \<Rightarrow> ptr \<Rightarrow>
     'z conn_world_scheme \<Rightarrow> 'z conn_world_scheme res" where
  "TcpConnection_handleRead run_ev me receiveTime C w =
     res_bind (conn_get C w) (\<lambda>tc.
     res_bind (chan_get (tc_channel tc) w) (\<lambda>c.
     res_bind (conn_readFd (Channel_isET (statics w)) (ch_fd c) (tc_inputBuffer tc) w) (\<lambda>(n, b, w1).
     let w2 = conn_put C (tc\<lparr>tc_inputBuffer := b\<rparr>) w1 in
     if n > 0 then call_message run_ev receiveTime C w2
     else if n = 0 then TcpConnection_handleClose run_ev me C w2
     else TcpConnection_handleError C w2)))"


section \<open>Writing\<close>

definition queue_write_complete ::
    "nat \<Rightarrow> tcp_connection \<Rightarrow> ptr \<Rightarrow> 'z conn_world_scheme \<Rightarrow> 'z conn_world_scheme res" where
  "queue_write_complete me tc C w =
     (case tc_writeCompleteCallback tc of
        None \<Rightarrow> Inr w
      | Some f \<Rightarrow> EventLoop_queueInLoop me (tc_loop tc) (FConnWriteComplete f C) w)"

definition TcpConnection_handleWrite ::
    "nat \<Rightarrow> ptr \<Rightarrow> 'z conn_world_scheme \<Rightarrow> 'z conn_world_scheme res" where
  "TcpConnection_handleWrite me C w =
     res_bind (conn_get C w) (\<lambda>tc.
     res_bind (EventLoop_assertInLoopThread me (tc_loop tc) w) (\<lambda>_.
     res_bind (chan_get (tc_channel tc) w) (\<lambda>c.
     if Channel_isWriting (statics w) c
     then res_bind (conn_writeFd (Channel_isET (statics w)) (ch_fd c) (tc_outputBuffer tc) w)
            (\<lambda>(n, b, w1).
          let w2 = conn_put C (tc\<lparr>tc_outputBuffer := b\<rparr>) w1 in
          if n > 0 \<and> Buffer_readableBytes b = 0
          then res_bind (Channel_interest me DisableWriting (tc_channel tc) w2) (\<lambda>w3.
               res_bind (queue_write_complete me tc C w3) (\<lambda>w4.
                 if tc_state tc = kDisconnecting then TcpConnection_shutdownInLoop me C w4
                 else Inr w4))
          else Inr w2)
     else Inr w)))"

text \<open>
  The rest of the data goes to the output buffer, with the high water mark test before it.
\<close>

definition send_rest ::
    "nat \<Rightarrow> ptr \<Rightarrow> char list \<Rightarrow> 'z conn_world_scheme \<Rightarrow> 'z conn_world_scheme res" where
  "send_rest me C rest w =
     res_bind (conn_get C w) (\<lambda>tc.
     let oldLen = Buffer_readableBytes (tc_outputBuffer tc);
         total = size_plus oldLen (length rest) in
     res_bind (case tc_highWaterMarkCallback tc of
                 None \<Rightarrow> Inr w
               | Some f \<Rightarrow>
                   if tc_highWaterMark tc \<le> total \<and> oldLen < tc_highWaterMark tc
                   then EventLoop_queueInLoop me (tc_loop tc) (FConnHighWaterMark f C total) w
                   else Inr w) (\<lambda>w1.
     res_bind (Buffer_append rest (tc_outputBuffer tc)) (\<lambda>b.
     let w2 = conn_put C (tc\<lparr>tc_outputBuffer := b\<rparr>) w1 in
     res_bind (chan_get (tc_channel tc) w2) (\<lambda>c.
       if \<not> Channel_isWriting (statics w2) c
       then Channel_interest me EnableWriting (tc_channel tc) w2 else Inr w2))))"

definition TcpConnection_sendInLoop ::
    "nat \<Rightarrow> ptr \<Rightarrow> char list \<Rightarrow> 'z conn_world_scheme \<Rightarrow> 'z conn_world_scheme res" where
  "TcpConnection_sendInLoop me C data w =
     res_bind (conn_get C w) (\<lambda>tc.
     res_bind (EventLoop_assertInLoopThread me (tc_loop tc) w) (\<lambda>_.
     if tc_state tc = kDisconnected then Inr w
     else res_bind (chan_get (tc_channel tc) w) (\<lambda>c.
     if \<not> Channel_isWriting (statics w) c \<and> Buffer_readableBytes (tc_outputBuffer tc) = 0
     then res_bind (sockets_write (ch_fd c) data w) (\<lambda>(n, errno, w1).
          let nwrote = (if n \<ge> 0 then nat n else 0);
              remaining = length data - nwrote;
              faultError = (n < 0 \<and> (errno = EPIPE \<or> errno = ECONNRESET)) in
          res_bind (if n \<ge> 0 \<and> remaining = 0 then queue_write_complete me tc C w1 else Inr w1) (\<lambda>w2.
            if \<not> faultError \<and> remaining > 0 then send_rest me C (drop nwrote data) w2
            else Inr w2))
     else Inr w)))"

definition TcpConnection_send ::
    "nat \<Rightarrow> ptr \<Rightarrow> char list \<Rightarrow> 'z conn_world_scheme \<Rightarrow> 'z conn_world_scheme res" where
  "TcpConnection_send me C data w =
     res_bind (conn_get C w) (\<lambda>tc.
       if tc_state tc = kConnected
       then EventLoop_runInLoop me (tc_loop tc) (FConnSend C data)
              (TcpConnection_sendInLoop me C data) w
       else Inr w)"

text \<open>\<^verbatim>\<open>send(Buffer*)\<close> sends at once, with no test of the state and whatever the thread, and empties the
  caller's buffer.\<close>

definition TcpConnection_sendBuffer ::
    "nat \<Rightarrow> ptr \<Rightarrow> buffer \<Rightarrow> 'z conn_world_scheme \<Rightarrow> (buffer \<times> 'z conn_world_scheme) res" where
  "TcpConnection_sendBuffer me C buf w =
     res_bind (TcpConnection_sendInLoop me C (Buffer_contents buf) w) (\<lambda>w'.
       Inr (Buffer_retrieveAll buf, w'))"

end
