(* ===== verification/Conn_Laws.thy ===== *)
theory Conn_Laws
  imports Tcp_Connection
begin

text \<open>
  Properties of \<^verbatim>\<open>TcpConnection\<close>: the life of a connection and the callbacks it makes on the way, what
  happens to the bytes given to \<^verbatim>\<open>send\<close>, and the order of the last write and the shutdown.
\<close>

section \<open>Frames\<close>

lemma conn_get_Inr [simp]: "conn_get C w = Inr tc \<longleftrightarrow> conns w C = Some tc"
  by (simp add: conn_get_def split: option.splits)

lemma conn_get_Some [simp]: "conns w C = Some tc \<Longrightarrow> conn_get C w = Inr tc"
  by simp

lemma conn_put_simps [simp]:
  "conns (conn_put C tc w) = (conns w)(C := Some tc)" "loops (conn_put C tc w) = loops w"
  "chans (conn_put C tc w) = chans w" "timers (conn_put C tc w) = timers w"
  "statics (conn_put C tc w) = statics w" "tape (conn_put C tc w) = tape w"
  "trace (conn_put C tc w) = trace w" "conn_world.more (conn_put C tc w) = conn_world.more w"
  by (simp_all add: conn_put_def)

lemma conns_put [simp]: "conns (loop_put L el w) = conns w" "conns (chan_put p c w) = conns w"
  by (simp_all add: loop_put_def chan_put_def)

lemma conn_mod_Inr [simp]:
  "conn_mod C f w = Inr w' \<longleftrightarrow> (\<exists>tc. conns w C = Some tc \<and> w' = conn_put C (f tc) w)"
  by (auto simp: conn_mod_def res_bind_eq_Inr)

lemma world_more_conn:
  assumes "world.more w' = world.more w"
  shows "conns w' = conns w" "conn_world.more w' = conn_world.more w"
  using assms by (cases w; cases w'; simp)+

lemma os_step_conn:
  assumes "os_step w w'"
  shows "conns w' = conns w" "conn_world.more w' = conn_world.more w"
  using world_more_conn[OF os_step_world(6)[OF assms]] by simp_all

lemma Socket_calls_os_step:
  "Socket_shutdownWrite fd w = Inr w' \<Longrightarrow> os_step w w'"
  "Socket_setTcpNoDelay on fd w = Inr w' \<Longrightarrow> os_step w w'"
  "sockets_getSocketError fd w = Inr (e, w') \<Longrightarrow> os_step w w'"
  by (auto simp: Socket_shutdownWrite_def sockets_shutdownWrite_def Socket_setTcpNoDelay_def
      Socket_setsockopt_def sockets_getSocketError_def res_bind_eq_Inr dest: sys_int_os_step
      split: if_splits)

lemma conn_readFd_os_step: "conn_readFd et fd b w = Inr (n, b', w') \<Longrightarrow> os_step w w'"
  by (auto simp: conn_readFd_def res_bind_eq_Inr os_step_def sys_Inr split: if_splits)

lemma conn_writeFd_os_step: "conn_writeFd et fd b w = Inr (n, b', w') \<Longrightarrow> os_step w w'"
  by (auto simp: conn_writeFd_def res_bind_eq_Inr os_step_def sys_Inr split: if_splits)


section \<open>The life of a connection\<close>

text \<open>
  The callbacks made so far, each with the connection and what \<^verbatim>\<open>connected()\<close> answers when it runs.
\<close>

record clog_world = conn_world +
  clog :: "(conn_event \<times> ptr \<times> bool) list"

datatype life_event = Up | Down | Closed

fun life_of :: "ptr \<Rightarrow> conn_event \<times> ptr \<times> bool \<Rightarrow> life_event list" where
  "life_of C (EvConnection f, D, up) = (if D = C then [if up then Up else Down] else [])"
| "life_of C (EvMessage f t, D, up) = []"
| "life_of C (EvClose f, D, up) = (if D = C then [Closed] else [])"

definition life :: "ptr \<Rightarrow> clog_world \<Rightarrow> life_event list" where
  "life C w = concat (map (life_of C) (clog w))"

text \<open>The specification: what has been announced in each state.\<close>

fun life_ok :: "conn_state \<Rightarrow> life_event list \<Rightarrow> bool" where
  "life_ok kConnecting es = (es = [])"
| "life_ok kConnected es = (es = [Up])"
| "life_ok kDisconnecting es = (es = [Up])"
| "life_ok kDisconnected es = (es = [Up, Down] \<or> es = [Up, Down, Closed])"

definition life_inv :: "ptr \<Rightarrow> clog_world \<Rightarrow> bool" where
  "life_inv C w \<longleftrightarrow> (case conns w C of None \<Rightarrow> False | Some tc \<Rightarrow> life_ok (tc_state tc) (life C w))"

text \<open>
  What the application and the owner of a connection do in a callback: any sequence of calls of the
  public interface, on any connection, and functors queued in any loop (\<^verbatim>\<open>TcpServer::removeConnection\<close>
  queues \<^verbatim>\<open>connectDestroyed\<close>).
\<close>

datatype app_op =
    AppSend ptr "char list"
  | AppSendBuffer ptr buffer
  | AppShutdown ptr
  | AppForceClose ptr
  | AppStartRead ptr
  | AppStopRead ptr
  | AppNoDelay ptr bool
  | AppQueue ptr loop_functor

fun app_exec :: "nat \<Rightarrow> app_op \<Rightarrow> 'z conn_world_scheme \<Rightarrow> 'z conn_world_scheme res" where
  "app_exec me (AppSend D d) w = TcpConnection_send me D d w"
| "app_exec me (AppSendBuffer D b) w = res_bind (TcpConnection_sendBuffer me D b w) (\<lambda>(b', w'). Inr w')"
| "app_exec me (AppShutdown D) w = TcpConnection_shutdown me D w"
| "app_exec me (AppForceClose D) w = TcpConnection_forceClose me D w"
| "app_exec me (AppStartRead D) w = TcpConnection_startRead me D w"
| "app_exec me (AppStopRead D) w = TcpConnection_stopRead me D w"
| "app_exec me (AppNoDelay D on) w = TcpConnection_setTcpNoDelay on D w"
| "app_exec me (AppQueue L f) w = EventLoop_queueInLoop me L f w"

definition app_ev ::
    "(conn_event \<Rightarrow> ptr \<Rightarrow> app_op list) \<Rightarrow> nat \<Rightarrow> conn_event \<Rightarrow> ptr \<Rightarrow> clog_world \<Rightarrow> clog_world res" where
  "app_ev react me ev D w =
     res_bind (conn_get D w) (\<lambda>tc.
       run_all (app_exec me) (react ev D)
         (w\<lparr>clog := clog w @ [(ev, D, TcpConnection_connected tc)]\<rparr>))"

text \<open>
  What happens to connections: the handlers their channels call, the functors their loops run, what
  their owner calls, and calls of the application outside callbacks.
\<close>

datatype conn_op =
    OpEstablished ptr
  | OpDestroyed ptr
  | OpRead ptr int
  | OpWrite ptr
  | OpClose ptr
  | OpError ptr
  | OpShutdownInLoop ptr
  | OpForceCloseInLoop ptr
  | OpStartReadInLoop ptr
  | OpStopReadInLoop ptr
  | OpSendInLoop ptr "char list"
  | OpApp app_op

fun conn_exec :: "(conn_event \<Rightarrow> ptr \<Rightarrow> app_op list) \<Rightarrow> nat \<times> conn_op \<Rightarrow> clog_world \<Rightarrow> clog_world res" where
  "conn_exec react (me, OpEstablished D) w = TcpConnection_connectEstablished (app_ev react me) me D w"
| "conn_exec react (me, OpDestroyed D) w = TcpConnection_connectDestroyed (app_ev react me) me D w"
| "conn_exec react (me, OpRead D t) w = TcpConnection_handleRead (app_ev react me) me t D w"
| "conn_exec react (me, OpWrite D) w = TcpConnection_handleWrite me D w"
| "conn_exec react (me, OpClose D) w = TcpConnection_handleClose (app_ev react me) me D w"
| "conn_exec react (me, OpError D) w = TcpConnection_handleError D w"
| "conn_exec react (me, OpShutdownInLoop D) w = TcpConnection_shutdownInLoop me D w"
| "conn_exec react (me, OpForceCloseInLoop D) w = TcpConnection_forceCloseInLoop (app_ev react me) me D w"
| "conn_exec react (me, OpStartReadInLoop D) w = TcpConnection_startReadInLoop me D w"
| "conn_exec react (me, OpStopReadInLoop D) w = TcpConnection_stopReadInLoop me D w"
| "conn_exec react (me, OpSendInLoop D d) w = TcpConnection_sendInLoop me D d w"
| "conn_exec react (me, OpApp a) w = app_exec me a w"


subsection \<open>Calm operations\<close>

text \<open>
  \<open>calm\<close> operations announce nothing about a connection and at most start to disconnect it; \<open>quiet\<close>
  ones do not even that.
\<close>

lemma clog_more: "conn_world.more w' = conn_world.more w \<Longrightarrow> clog w' = clog w"
  by (cases w; cases w') simp

definition quiet :: "ptr \<Rightarrow> clog_world \<Rightarrow> clog_world \<Rightarrow> bool" where
  "quiet C w w' \<longleftrightarrow>
     map_option tc_state (conns w' C) = map_option tc_state (conns w C) \<and> clog w' = clog w"

definition calm :: "ptr \<Rightarrow> clog_world \<Rightarrow> clog_world \<Rightarrow> bool" where
  "calm C w w' \<longleftrightarrow>
     life C w' = life C w \<and>
     (map_option tc_state (conns w' C) = map_option tc_state (conns w C) \<or>
      map_option tc_state (conns w C) \<in> {Some kConnected, Some kDisconnecting} \<and>
      map_option tc_state (conns w' C) = Some kDisconnecting)"

lemma quiet_trans: "quiet C w w1 \<Longrightarrow> quiet C w1 w2 \<Longrightarrow> quiet C w w2"
  by (simp add: quiet_def)

lemma quiet_refl [simp]: "quiet C w w"
  by (simp add: quiet_def)

lemma quiet_calm: "quiet C w w' \<Longrightarrow> calm C w w'"
  by (simp add: quiet_def calm_def life_def)

lemma calm_refl [simp]: "calm C w w"
  by (simp add: calm_def)

lemma calm_trans: "calm C w w1 \<Longrightarrow> calm C w1 w2 \<Longrightarrow> calm C w w2"
  unfolding calm_def by (elim conjE disjE) simp_all

lemma life_inv_iff:
  "life_inv C w \<longleftrightarrow> (\<exists>s. map_option tc_state (conns w C) = Some s \<and> life_ok s (life C w))"
  by (auto simp: life_inv_def split: option.splits)

lemma calm_life_inv: "calm C w w' \<Longrightarrow> life_inv C w \<Longrightarrow> life_inv C w'"
  unfolding life_inv_iff calm_def by (elim exE conjE disjE) auto

lemma quiet_more: "world.more w' = world.more w \<Longrightarrow> quiet C w w'"
  using world_more_conn[of w' w] clog_more[of w' w] by (simp add: quiet_def)

lemma quiet_os_step: "os_step w w' \<Longrightarrow> quiet C w w'"
  using os_step_world(6) by (rule quiet_more)

lemma quiet_put: "conns w D = Some tc \<Longrightarrow> tc_state tc' = tc_state tc \<Longrightarrow> quiet C w (conn_put D tc' w)"
  using clog_more[of "conn_put D tc' w" w] by (simp add: quiet_def)

lemma quiet_interest: "Channel_interest me i p w = Inr w' \<Longrightarrow> quiet C w w'"
  by (rule quiet_more[OF Channel_interest_more])

lemma quiet_remove: "Channel_remove me p w = Inr w' \<Longrightarrow> quiet C w w'"
  using Channel_remove_Inr[of me p w w'] by (intro quiet_more) blast

lemma quiet_queue: "EventLoop_queueInLoop me L f w = Inr w' \<Longrightarrow> quiet C w w'"
  using EventLoop_queueInLoop_Inr[of me L f w w'] by (intro quiet_more) blast

lemma quiet_write_complete: "queue_write_complete me tc D w = Inr w' \<Longrightarrow> quiet C w w'"
  by (auto simp: queue_write_complete_def quiet_queue split: option.splits)

lemma quiet_shutdownInLoop: "TcpConnection_shutdownInLoop me D w = Inr w' \<Longrightarrow> quiet C w w'"
  by (auto simp: TcpConnection_shutdownInLoop_def res_bind_eq_Inr quiet_os_step
      dest: Socket_calls_os_step(1) split: if_splits)

lemma quiet_handleError: "TcpConnection_handleError D w = Inr w' \<Longrightarrow> quiet C w w'"
  by (auto simp: TcpConnection_handleError_def res_bind_eq_Inr quiet_os_step
      dest: Socket_calls_os_step(3))

lemma quiet_setTcpNoDelay: "TcpConnection_setTcpNoDelay on D w = Inr w' \<Longrightarrow> quiet C w w'"
  by (auto simp: TcpConnection_setTcpNoDelay_def res_bind_eq_Inr quiet_os_step
      dest: Socket_calls_os_step(2))

lemma quiet_startRead: "TcpConnection_startReadInLoop me D w = Inr w' \<Longrightarrow> quiet C w w'"
  by (auto simp: TcpConnection_startReadInLoop_def res_bind_eq_Inr split: if_splits
      intro: quiet_trans[OF quiet_interest quiet_put])

lemma quiet_stopRead: "TcpConnection_stopReadInLoop me D w = Inr w' \<Longrightarrow> quiet C w w'"
  by (auto simp: TcpConnection_stopReadInLoop_def res_bind_eq_Inr split: if_splits
      intro: quiet_trans[OF quiet_interest quiet_put])

lemma quiet_runInLoop:
  assumes "EventLoop_runInLoop me L f body w = Inr w'" and "\<And>v v'. body v = Inr v' \<Longrightarrow> quiet C v v'"
  shows "quiet C w w'"
  using assms by (auto simp: EventLoop_runInLoop_def res_bind_eq_Inr quiet_queue split: if_splits)

lemma quiet_handleWrite:
  assumes "TcpConnection_handleWrite me D w = Inr w'"
  shows "quiet C w w'"
proof -
  obtain tc c where tc: "conns w D = Some tc" and c: "chans w (tc_channel tc) = Some c"
    using assms by (auto simp: TcpConnection_handleWrite_def res_bind_eq_Inr)
  show ?thesis
  proof (cases "Channel_isWriting (statics w) c")
    case True
    obtain n b w1 where io: "conn_writeFd (Channel_isET (statics w)) (ch_fd c) (tc_outputBuffer tc) w = Inr (n, b, w1)"
      using assms tc c True by (auto simp: TcpConnection_handleWrite_def res_bind_eq_Inr)
    let ?w2 = "conn_put D (tc\<lparr>tc_outputBuffer := b\<rparr>) w1"
    have step: "os_step w w1"
      using io by (rule conn_writeFd_os_step)
    then have "conns w1 D = Some tc"
      using tc by (simp add: os_step_conn)
    then have q2: "quiet C w ?w2"
      by (intro quiet_trans[OF quiet_os_step[OF step] quiet_put]) simp_all
    have "w' = ?w2 \<or> (\<exists>w3 w4. Channel_interest me DisableWriting (tc_channel tc) ?w2 = Inr w3 \<and>
        queue_write_complete me tc D w3 = Inr w4 \<and>
        (w' = w4 \<or> TcpConnection_shutdownInLoop me D w4 = Inr w'))"
      using assms tc c True io
      by (auto simp: TcpConnection_handleWrite_def res_bind_eq_Inr Let_def split: if_splits)
    then show ?thesis
      by (metis q2 quiet_interest quiet_write_complete quiet_shutdownInLoop quiet_trans)
  next
    case False
    then have "w' = w"
      using assms tc c by (auto simp: TcpConnection_handleWrite_def res_bind_eq_Inr)
    then show ?thesis
      by simp
  qed
qed

lemma send_rest_cases:
  assumes "send_rest me D d w = Inr w'"
  obtains tc w1 b where "conns w D = Some tc" "world.more w1 = world.more w"
    "w' = conn_put D (tc\<lparr>tc_outputBuffer := b\<rparr>) w1 \<or>
     Channel_interest me EnableWriting (tc_channel tc) (conn_put D (tc\<lparr>tc_outputBuffer := b\<rparr>) w1) = Inr w'"
proof -
  obtain tc where tc: "conns w D = Some tc"
    using assms by (auto simp: send_rest_def res_bind_eq_Inr)
  let ?old = "Buffer_readableBytes (tc_outputBuffer tc)"
  let ?put = "\<lambda>b. conn_put D (tc\<lparr>tc_outputBuffer := b\<rparr>)"
  obtain w1 b where mark: "(case tc_highWaterMarkCallback tc of None \<Rightarrow> Inr w
      | Some f \<Rightarrow> if tc_highWaterMark tc \<le> size_plus ?old (length d) \<and> ?old < tc_highWaterMark tc
          then EventLoop_queueInLoop me (tc_loop tc) (FConnHighWaterMark f D (size_plus ?old (length d))) w
          else Inr w) = Inr w1"
    and w': "w' = ?put b w1 \<or> Channel_interest me EnableWriting (tc_channel tc) (?put b w1) = Inr w'"
    using assms tc by (simp add: send_rest_def res_bind_eq_Inr Let_def split: if_splits) blast+
  have "w1 = w \<or> (\<exists>f n. EventLoop_queueInLoop me (tc_loop tc) (FConnHighWaterMark f D n) w = Inr w1)"
    using mark by (auto split: option.splits if_splits)
  then have "world.more w1 = world.more w"
    using EventLoop_queueInLoop_Inr by blast
  then show ?thesis
    by (rule that[OF tc _ w'])
qed

lemma quiet_send_rest:
  assumes "send_rest me D d w = Inr w'"
  shows "quiet C w w'"
proof -
  obtain tc w1 b where tc: "conns w D = Some tc" and same: "world.more w1 = world.more w"
    and w': "w' = conn_put D (tc\<lparr>tc_outputBuffer := b\<rparr>) w1 \<or>
     Channel_interest me EnableWriting (tc_channel tc) (conn_put D (tc\<lparr>tc_outputBuffer := b\<rparr>) w1) = Inr w'"
    using assms by (rule send_rest_cases)
  have "conns w1 D = Some tc"
    using tc same world_more_conn by metis
  then have "quiet C w (conn_put D (tc\<lparr>tc_outputBuffer := b\<rparr>) w1)"
    by (intro quiet_trans[OF quiet_more[OF same] quiet_put]) simp_all
  then show ?thesis
    using w' by (metis quiet_interest quiet_trans)
qed

lemma sendInLoop_cases:
  assumes run: "TcpConnection_sendInLoop me D d w = Inr w'"
  obtains "w' = w" | tc fd n e w1 w2 d' where "conns w D = Some tc" "sockets_write fd d w = Inr (n, e, w1)"
    "w2 = w1 \<or> queue_write_complete me tc D w1 = Inr w2" "w' = w2 \<or> send_rest me D d' w2 = Inr w'"
proof (cases "w' = w")
  case False
  obtain tc c where tc: "conns w D = Some tc" and c: "chans w (tc_channel tc) = Some c"
    and idle: "\<not> Channel_isWriting (statics w) c" "Buffer_readableBytes (tc_outputBuffer tc) = 0"
    using run False by (auto simp: TcpConnection_sendInLoop_def res_bind_eq_Inr split: if_splits)
  from run False tc c idle obtain n e w1 where wr: "sockets_write (ch_fd c) d w = Inr (n, e, w1)"
    by (auto simp: TcpConnection_sendInLoop_def res_bind_eq_Inr split: if_splits)
  let ?k = "if 0 \<le> n then nat n else 0"
  from run False tc c idle wr obtain w2
    where wc: "(if 0 \<le> n \<and> length d - ?k = 0 then queue_write_complete me tc D w1 else Inr w1) = Inr w2"
      and rest: "w' = w2 \<or> send_rest me D (drop ?k d) w2 = Inr w'"
    by (simp add: TcpConnection_sendInLoop_def res_bind_eq_Inr Let_def split: if_splits)
  have "w2 = w1 \<or> queue_write_complete me tc D w1 = Inr w2"
    using wc by (auto split: if_splits)
  then show ?thesis
    by (rule that(2)[OF tc wr _ rest])
qed (rule that(1))

lemma quiet_sendInLoop: "TcpConnection_sendInLoop me D d w = Inr w' \<Longrightarrow> quiet C w w'"
proof (erule sendInLoop_cases)
  fix tc fd n e w1 w2 d'
  assume "sockets_write fd d w = Inr (n, e, w1)" and wc: "w2 = w1 \<or> queue_write_complete me tc D w1 = Inr w2"
    and rest: "w' = w2 \<or> send_rest me D d' w2 = Inr w'"
  then have "quiet C w w1"
    by (intro quiet_os_step sockets_write_os_step)
  moreover have "quiet C w1 w2"
    using wc by (auto intro: quiet_write_complete)
  moreover have "quiet C w2 w'"
    using rest quiet_send_rest by auto
  ultimately show "quiet C w w'"
    using quiet_trans by blast
qed simp

lemmas quiet_ops =
  quiet_interest quiet_remove quiet_queue quiet_shutdownInLoop quiet_handleError
  quiet_setTcpNoDelay quiet_startRead quiet_stopRead quiet_handleWrite quiet_sendInLoop

lemma calm_disconnecting:
  assumes "conns w D = Some tc" and "tc_state tc = kConnected \<or> tc_state tc = kDisconnecting"
    and "quiet C (conn_put D (tc\<lparr>tc_state := kDisconnecting\<rparr>) w) w'"
  shows "calm C w w'"
proof -
  have "calm C w (conn_put D (tc\<lparr>tc_state := kDisconnecting\<rparr>) w)"
    using assms(1,2) clog_more[of "conn_put D (tc\<lparr>tc_state := kDisconnecting\<rparr>) w" w]
    by (auto simp: calm_def life_def)
  then show ?thesis
    using assms(3) quiet_calm calm_trans by blast
qed

lemma calm_app_exec:
  assumes "app_exec me a w = Inr w'"
  shows "calm C w w'"
proof (cases a)
  case (AppShutdown D)
  then obtain tc where tc: "conns w D = Some tc"
    using assms by (auto simp: TcpConnection_shutdown_def res_bind_eq_Inr)
  show ?thesis
  proof (cases "tc_state tc = kConnected")
    case True
    then have "EventLoop_runInLoop me (tc_loop tc) (FConnShutdown D) (TcpConnection_shutdownInLoop me D)
        (conn_put D (tc\<lparr>tc_state := kDisconnecting\<rparr>) w) = Inr w'"
      using assms AppShutdown tc
      by (auto simp: TcpConnection_shutdown_def TcpConnection_setState_def res_bind_eq_Inr)
    then have "quiet C (conn_put D (tc\<lparr>tc_state := kDisconnecting\<rparr>) w) w'"
      by (rule quiet_runInLoop) (rule quiet_shutdownInLoop)
    then show ?thesis
      using calm_disconnecting tc True by blast
  qed (use assms AppShutdown tc in \<open>simp add: TcpConnection_shutdown_def\<close>)
next
  case (AppForceClose D)
  then show ?thesis
    using assms
    by (auto simp: TcpConnection_forceClose_def TcpConnection_setState_def res_bind_eq_Inr
        split: if_splits intro: calm_disconnecting quiet_queue)
qed (use assms in \<open>auto simp: TcpConnection_send_def TcpConnection_sendBuffer_def
       TcpConnection_startRead_def TcpConnection_stopRead_def res_bind_eq_Inr split: if_splits
       intro!: quiet_calm intro: quiet_ops quiet_runInLoop\<close>)

lemma calm_app_execs: "run_all (app_exec me) as w = Inr w' \<Longrightarrow> calm C w w'"
proof (induction as arbitrary: w)
  case (Cons a as)
  then obtain w1 where "app_exec me a w = Inr w1" and "run_all (app_exec me) as w1 = Inr w'"
    by (auto simp: res_bind_eq_Inr)
  then show ?case
    using calm_app_exec calm_trans Cons.IH by blast
qed simp


subsection \<open>Announcements\<close>

lemma app_ev_calm:
  assumes "app_ev react me ev D w = Inr w'" and "conns w D = Some tc"
  shows "calm C (w\<lparr>clog := clog w @ [(ev, D, TcpConnection_connected tc)]\<rparr>) w'"
  using assms by (simp add: app_ev_def calm_app_execs)

lemma life_log: "life C (w\<lparr>clog := clog w @ [e]\<rparr>) = life C w @ life_of C e"
  by (simp add: life_def)

text \<open>An event of one connection, seen from a connection.\<close>

lemma app_ev_life:
  assumes "app_ev react me ev D w = Inr w'" and "conns w D = Some tc"
  shows "life C w' = life C w @ life_of C (ev, D, TcpConnection_connected tc)"
    and "map_option tc_state (conns w' C) = map_option tc_state (conns w C) \<or>
      map_option tc_state (conns w C) \<in> {Some kConnected, Some kDisconnecting} \<and>
      map_option tc_state (conns w' C) = Some kDisconnecting"
  using app_ev_calm[OF assms, of C] by (simp_all add: calm_def life_log)

lemma call_message_calm:
  assumes "call_message (app_ev react me) t D w = Inr w'"
  shows "calm C w w'"
proof -
  obtain tc f where tc: "conns w D = Some tc" and ev: "app_ev react me (EvMessage f t) D w = Inr w'"
    using assms by (auto simp: call_message_def res_bind_eq_Inr split: option.splits)
  from app_ev_life[OF ev tc, of C] show ?thesis
    by (simp add: calm_def)
qed

lemma call_connectionD:
  assumes "call_connection (app_ev react me) D w = Inr w'"
  obtains tc f where "conns w D = Some tc" and "app_ev react me (EvConnection f) D w = Inr w'"
  using assms by (auto simp: call_connection_def res_bind_eq_Inr split: option.splits)

lemma call_closeD:
  assumes "call_close (app_ev react me) D w = Inr w'"
  obtains tc f where "conns w D = Some tc" and "app_ev react me (EvClose f) D w = Inr w'"
  using assms by (auto simp: call_close_def res_bind_eq_Inr split: option.splits)

text \<open>Both ways to announce a change of state: set it, change the interest, call back.\<close>

lemma state_change_life:
  assumes set: "TcpConnection_setState s D w = Inr w1"
    and int: "Channel_interest me i p w1 = Inr w2"
    and call: "call_connection (app_ev react me) D w2 = Inr w3"
    and inv: "life_inv C w"
    and ok: "\<And>s0. map_option tc_state (conns w D) = Some s0 \<Longrightarrow> (s0 = kConnecting \<and> s = kConnected \<or>
        (s0 = kConnected \<or> s0 = kDisconnecting) \<and> s = kDisconnected)"
  shows "life_inv C w3"
    and "C = D \<Longrightarrow> s = kDisconnected \<Longrightarrow> life C w3 = [Up, Down] \<and> map_option tc_state (conns w3 C) = Some kDisconnected"
proof -
  obtain tc where tc: "conns w D = Some tc" and w1: "w1 = conn_put D (tc\<lparr>tc_state := s\<rparr>) w"
    using set by (auto simp: TcpConnection_setState_def)
  have "life C w1 = life C w"
    using clog_more[of w1 w] by (simp add: life_def w1)
  moreover have "map_option tc_state (conns w1 C) =
      (if C = D then Some s else map_option tc_state (conns w C))"
    by (simp add: w1)
  moreover have "quiet C w1 w2"
    using int by (rule quiet_interest)
  ultimately have w2: "life C w2 = life C w"
      "map_option tc_state (conns w2 C) = (if C = D then Some s else map_option tc_state (conns w C))"
    by (simp_all add: quiet_def life_def)
  obtain tc2 f where tc2: "conns w2 D = Some tc2" and ev: "app_ev react me (EvConnection f) D w2 = Inr w3"
    using call by (rule call_connectionD)
  note out = app_ev_life[OF ev tc2, of C]
  have s0: "tc_state tc = kConnecting \<and> s = kConnected \<or>
      (tc_state tc = kConnected \<or> tc_state tc = kDisconnecting) \<and> s = kDisconnected"
    using ok tc by simp
  show "life_inv C w3"
    using out w2 s0 inv tc tc2 unfolding life_inv_iff
    by (cases "C = D") (auto simp: TcpConnection_connected_def)
  show "life C w3 = [Up, Down] \<and> map_option tc_state (conns w3 C) = Some kDisconnected"
    if "C = D" and "s = kDisconnected"
    using that out w2 s0 inv tc tc2 unfolding life_inv_iff
    by (auto simp: TcpConnection_connected_def)
qed

lemma handleClose_life:
  assumes run: "TcpConnection_handleClose (app_ev react me) me D w = Inr w'" and inv: "life_inv C w"
  shows "life_inv C w'"
proof -
  obtain tc w1 w2 w3 where tc: "conns w D = Some tc"
    and st: "tc_state tc = kConnected \<or> tc_state tc = kDisconnecting"
    and set: "TcpConnection_setState kDisconnected D w = Inr w1"
    and int: "Channel_interest me DisableAll (tc_channel tc) w1 = Inr w2"
    and call: "call_connection (app_ev react me) D w2 = Inr w3"
    and close: "call_close (app_ev react me) D w3 = Inr w'"
    using run by (auto simp: TcpConnection_handleClose_def res_bind_eq_Inr)
  have inv3: "life_inv C w3"
    and down: "C = D \<Longrightarrow> life C w3 = [Up, Down] \<and> map_option tc_state (conns w3 C) = Some kDisconnected"
    using state_change_life[OF set int call inv] tc st by auto
  obtain tc3 f where tc3: "conns w3 D = Some tc3" and ev: "app_ev react me (EvClose f) D w3 = Inr w'"
    using close by (rule call_closeD)
  from app_ev_life[OF ev tc3, of C] show ?thesis
    using inv3 down unfolding life_inv_iff by (cases "C = D") auto
qed

lemma connectEstablished_life:
  assumes run: "TcpConnection_connectEstablished (app_ev react me) me D w = Inr w'" and inv: "life_inv C w"
  shows "life_inv C w'"
proof -
  obtain tc w1 w2 where tc: "conns w D = Some tc" and st: "tc_state tc = kConnecting"
    and set: "TcpConnection_setState kConnected D w = Inr w1"
    and int: "Channel_interest me EnableReading (tc_channel tc) w1 = Inr w2"
    and call: "call_connection (app_ev react me) D w2 = Inr w'"
    using run by (auto simp: TcpConnection_connectEstablished_def res_bind_eq_Inr)
  show ?thesis
    using state_change_life(1)[OF set int call inv] tc st by simp
qed

lemma connectDestroyed_life:
  assumes run: "TcpConnection_connectDestroyed (app_ev react me) me D w = Inr w'" and inv: "life_inv C w"
  shows "life_inv C w'"
proof -
  obtain tc w3 where tc: "conns w D = Some tc"
    and w3: "(if tc_state tc = kConnected
       then res_bind (TcpConnection_setState kDisconnected D w) (\<lambda>w1.
            res_bind (Channel_interest me DisableAll (tc_channel tc) w1) (\<lambda>w2.
              call_connection (app_ev react me) D w2))
       else Inr w) = Inr w3"
    and rem: "Channel_remove me (tc_channel tc) w3 = Inr w'"
    using run by (auto simp: TcpConnection_connectDestroyed_def res_bind_eq_Inr)
  have "life_inv C w3"
  proof (cases "tc_state tc = kConnected")
    case True
    then obtain w1 w2 where set: "TcpConnection_setState kDisconnected D w = Inr w1"
      and int: "Channel_interest me DisableAll (tc_channel tc) w1 = Inr w2"
      and call: "call_connection (app_ev react me) D w2 = Inr w3"
      using w3 by (auto simp: res_bind_eq_Inr)
    show ?thesis
      using state_change_life(1)[OF set int call inv] tc True by simp
  qed (use w3 inv in auto)
  then show ?thesis
    by (rule calm_life_inv[OF quiet_calm[OF quiet_remove[OF rem]]])
qed

lemma handleRead_life:
  assumes run: "TcpConnection_handleRead (app_ev react me) me t D w = Inr w'" and inv: "life_inv C w"
  shows "life_inv C w'"
proof -
  obtain tc c where tc: "conns w D = Some tc" and c: "chans w (tc_channel tc) = Some c"
    using run by (auto simp: TcpConnection_handleRead_def res_bind_eq_Inr)
  from run tc c obtain n b w1
    where io: "conn_readFd (Channel_isET (statics w)) (ch_fd c) (tc_inputBuffer tc) w = Inr (n, b, w1)"
      and out: "(if 0 < n then call_message (app_ev react me) t D (conn_put D (tc\<lparr>tc_inputBuffer := b\<rparr>) w1)
       else if n = 0 then TcpConnection_handleClose (app_ev react me) me D (conn_put D (tc\<lparr>tc_inputBuffer := b\<rparr>) w1)
       else TcpConnection_handleError D (conn_put D (tc\<lparr>tc_inputBuffer := b\<rparr>) w1)) = Inr w'"
    by (auto simp: TcpConnection_handleRead_def res_bind_eq_Inr Let_def)
  have step: "os_step w w1"
    using io by (rule conn_readFd_os_step)
  have "quiet C w (conn_put D (tc\<lparr>tc_inputBuffer := b\<rparr>) w1)"
    using tc os_step_conn[OF step] by (intro quiet_trans[OF quiet_os_step[OF step] quiet_put]) simp_all
  then have "life_inv C (conn_put D (tc\<lparr>tc_inputBuffer := b\<rparr>) w1)"
    using inv quiet_calm calm_life_inv by blast
  then show ?thesis
    using out handleClose_life calm_life_inv[OF call_message_calm]
      calm_life_inv[OF quiet_calm[OF quiet_handleError]]
    by (auto split: if_splits)
qed

lemma conn_exec_life:
  assumes "conn_exec react mo w = Inr w'" and "life_inv C w"
  shows "life_inv C w'"
proof -
  obtain me op where mo: "mo = (me, op)"
    by (cases mo)
  have calm: "calm C w w' \<Longrightarrow> ?thesis"
    using assms(2) calm_life_inv by blast
  show ?thesis
    using assms unfolding mo
    by (cases op)
      (auto intro: connectEstablished_life connectDestroyed_life handleRead_life handleClose_life
        calm quiet_calm quiet_ops calm_app_exec
        simp: TcpConnection_forceCloseInLoop_def res_bind_eq_Inr split: if_splits)
qed

lemma conn_execs_life:
  "run_all (conn_exec react) ops w = Inr w' \<Longrightarrow> life_inv C w \<Longrightarrow> life_inv C w'"
  by (induction ops arbitrary: w) (auto simp: res_bind_eq_Inr dest: conn_exec_life)


text \<open>A level-triggered connection in a loop that uses \<^verbatim>\<open>poll\<close>, for the examples.\<close>

definition conn_demo_loop :: evloop where
  "conn_demo_loop =
     \<lparr>el_looping = True, el_quit = False, el_callingPendingFunctors = False, el_threadId = 9,
      el_pollReturnTime = 0, el_poller = Poll PollPoller_new, el_timerfd = 4, el_timerChannel = 10,
      el_timers = [], el_armedFor = None, el_wakeupFd = 5, el_wakeupChannel = 11,
      el_activeChannels = [], el_pendingFunctors = []\<rparr>"

definition conn_demo_buffer :: buffer where
  "conn_demo_buffer = \<lparr>buffer_bytes = replicate 16 (CHR 0x00), readerIndex = 0, writerIndex = 0\<rparr>"

definition conn_demo_tc :: tcp_connection where
  "conn_demo_tc =
     \<lparr>tc_loop = 7, tc_name = ''c'', tc_state = kConnecting, tc_reading = True, tc_socket = 8,
      tc_channel = 3, tc_localAddr = zero_address, tc_peerAddr = zero_address,
      tc_connectionCallback = Some 4, tc_messageCallback = Some 2,
      tc_writeCompleteCallback = Some 3, tc_highWaterMarkCallback = None,
      tc_closeCallback = Some (CloseServer 4), tc_highWaterMark = 64 * 1024 * 1024,
      tc_inputBuffer = conn_demo_buffer, tc_outputBuffer = conn_demo_buffer,
      tc_context = None\<rparr>"

definition conn_demo :: "sys_ret list \<Rightarrow> clog_world" where
  "conn_demo answers =
     \<lparr>tape = answers, trace = [], os_local = (\<lambda>_. None), os_peer = (\<lambda>_. None),
      chans = [3 \<mapsto> Channel_new 7 8], statics = lt_statics, loops = [7 \<mapsto> conn_demo_loop],
      timers = (\<lambda>_. None), t_loopInThisThread = [9 \<mapsto> 7], conns = [2 \<mapsto> conn_demo_tc], clog = []\<rparr>"

lemmas conn_demo_defs = conn_demo_def conn_demo_loop_def conn_demo_tc_def conn_demo_buffer_def

text \<open>
  The peer sends a byte, the application answers with two, of which the kernel takes one, and shuts
  down; the rest is written; the peer closes.
\<close>

definition conn_demo_react :: "conn_event \<Rightarrow> ptr \<Rightarrow> app_op list" where
  "conn_demo_react ev D =
     (case ev of EvMessage f t \<Rightarrow> [AppSend D ''hi'', AppShutdown D] | _ \<Rightarrow> [])"

definition conn_demo_ops :: "(nat \<times> conn_op) list" where
  "conn_demo_ops = [(9, OpEstablished 2), (9, OpRead 2 70), (9, OpWrite 2), (9, OpRead 2 71)]"

definition conn_demo_answers :: "sys_ret list" where
  "conn_demo_answers = [SysData ''x'', SysNum 1, SysNum 1, SysNum 0, SysData []]"

lemmas conn_run_defs =
  TcpConnection_connectEstablished_def TcpConnection_handleRead_def TcpConnection_handleWrite_def
  TcpConnection_handleClose_def TcpConnection_send_def TcpConnection_sendInLoop_def send_rest_def
  TcpConnection_shutdown_def TcpConnection_shutdownInLoop_def TcpConnection_setState_def
  TcpConnection_connected_def call_connection_def call_message_def call_close_def app_ev_def
  conn_readFd_def conn_writeFd_def queue_write_complete_def conn_mod_def
  EventLoop_assertInLoopThread_def EventLoop_isInLoopThread_def EventLoop_runInLoop_def
  EventLoop_queueInLoop_def EventLoop_updateChannel_def queue_push_def queue_must_wake_def
  Channel_interest_def Channel_update_def Channel_new_def Channel_isWriting_def Channel_isET_def
  PollPoller_updateChannel_def PollPoller_new_def Channel_set_index_def loop_mod_def
  Socket_shutdownWrite_def sockets_shutdownWrite_def sockets_write_def sys_int_def sys_def Let_def
  conn_get_def conn_put_def chan_get_def chan_put_def loop_get_def loop_put_def
  Buffer_readFd_def Buffer_writeFd_def Buffer_append_def Buffer_readableBytes_def
  Buffer_writableBytes_def Buffer_ensureWriteBytes_def Buffer_hasWritten_def Buffer_contents_def
  Buffer_retrieve_def Buffer_retrieveAll_def Buffer_beginWrite_def Buffer_makeSpace_def overwrite_def segment_def max_size_def
  extrabuf_size_def vector_resize_def Channel_isNoneEvent_def

lemma conn_demo_run:
  "case run_all (conn_exec conn_demo_react) conn_demo_ops (conn_demo conn_demo_answers) of
     Inl e \<Rightarrow> False
   | Inr w' \<Rightarrow> (case conns w' 2 of None \<Rightarrow> False | Some tc \<Rightarrow> tc_state tc = kDisconnected) \<and>
       trace w' = [CallReadv 8, CallWrite 8 ''hi'', CallWrite 8 ''i'', CallShutdownWrite 8, CallReadv 8]"
  by (simp add: conn_demo_ops_def conn_demo_answers_def conn_demo_defs conn_demo_react_def conn_run_defs)


end
