(* ===== verification/Conn_Output.thy ===== *)
theory Conn_Output
  imports Conn_Laws
begin

text \<open>
  What becomes of the bytes an application sends: \<^verbatim>\<open>TcpConnection::sendInLoop\<close> and \<^verbatim>\<open>handleWrite\<close> in
  level-triggered mode, over a poller that fulfils its contract. \<open>os_calls\<close> lists the system calls
  made between two states with their answers; \<open>accepted\<close> the bytes the kernel took for a
  descriptor; \<open>pending\<close> the contents of the output buffer.
\<close>

section \<open>System calls and their answers\<close>

definition os_calls :: "(sys_call \<times> sys_ret) list \<Rightarrow> 'z os_scheme \<Rightarrow> 'z os_scheme \<Rightarrow> bool" where
  "os_calls cs w w' \<longleftrightarrow> tape w = map snd cs @ tape w' \<and> trace w' = trace w @ map fst cs"

fun accepted :: "int \<Rightarrow> (sys_call \<times> sys_ret) list \<Rightarrow> char list" where
  "accepted fd [] = []"
| "accepted fd ((CallWrite fd' d, SysNum n) # cs) =
     (if fd' = fd then take (nat n) d else []) @ accepted fd cs"
| "accepted fd (_ # cs) = accepted fd cs"

definition pending :: "ptr \<Rightarrow> 'z conn_world_scheme \<Rightarrow> char list" where
  "pending C w = (case conns w C of None \<Rightarrow> [] | Some tc \<Rightarrow> Buffer_contents (tc_outputBuffer tc))"

lemma os_calls_refl [simp]: "os_calls [] w w"
  by (simp add: os_calls_def)

lemma os_calls_trans: "os_calls cs w w1 \<Longrightarrow> os_calls ds w1 w2 \<Longrightarrow> os_calls (cs @ ds) w w2"
  by (simp add: os_calls_def)

lemma accepted_append: "accepted fd (cs @ ds) = accepted fd cs @ accepted fd ds"
  by (induction fd cs rule: accepted.induct) simp_all

text \<open>Calls that write nothing to a descriptor and change nothing a poller watches.\<close>

fun harmless :: "int \<Rightarrow> sys_call \<Rightarrow> bool" where
  "harmless fd (CallWrite fd' d) = (fd' \<noteq> fd)"
| "harmless fd (CallShutdownWrite fd') = (fd' \<noteq> fd)"
| "harmless fd _ = True"

definition tamely :: "int \<Rightarrow> 'z os_scheme \<Rightarrow> 'z os_scheme \<Rightarrow> bool" where
  "tamely fd w w' \<longleftrightarrow> (\<exists>cs. os_calls cs w w' \<and> (\<forall>x \<in> set cs. harmless fd (fst x)))"

fun unwatching :: "sys_call \<Rightarrow> bool" where
  "unwatching (CallEpollCtl e op fd ev p) = False"
| "unwatching (CallClose fd) = False"
| "unwatching _ = True"

lemma accepted_harmless: "\<forall>x \<in> set cs. harmless fd (fst x) \<Longrightarrow> accepted fd cs = []"
  by (induction fd cs rule: accepted.induct) auto

lemma tamely_refl [simp]: "tamely fd w w"
  unfolding tamely_def by (rule exI[of _ "[]"]) simp

lemma tamely_trans:
  assumes "tamely fd w w1" and "tamely fd w1 w2"
  shows "tamely fd w w2"
proof -
  obtain cs ds where "os_calls cs w w1" "\<forall>x \<in> set cs. harmless fd (fst x)"
      and "os_calls ds w1 w2" "\<forall>x \<in> set ds. harmless fd (fst x)"
    using assms by (auto simp: tamely_def)
  then show ?thesis
    unfolding tamely_def by (intro exI[of _ "cs @ ds"]) (auto intro: os_calls_trans)
qed

lemma unwatching_interest: "unwatching c \<Longrightarrow> interest_step epfd c m = m"
  by (cases c) simp_all

lemma kernel_interest_unwatching:
  "\<forall>c \<in> set cs. unwatching c \<Longrightarrow> kernel_interest epfd (tr @ cs) = kernel_interest epfd tr"
  by (induction cs arbitrary: tr) (auto simp: unwatching_interest)

lemma Poller_consistent_sys:
  assumes "Poller_consistent (po, w)" and "chans w' = chans w" and "statics w' = statics w"
    and "\<And>epfd. kernel_interest epfd (trace w') = kernel_interest epfd (trace w)"
  shows "Poller_consistent (po, w')"
proof (cases po)
  case (Epoll ep)
  then show ?thesis
    using assms epoll_sys_insensitive[of ep w' w ep] by simp
next
  case (Poll pp)
  then show ?thesis
    using assms poll_sys_insensitive[of pp pp w' w] by simp
qed

lemma sys_int_calls: "sys_int c w = Inr (n, e, w') \<Longrightarrow> \<exists>r. os_calls [(c, r)] w w' \<and>
    (r = SysErr e \<and> e \<noteq> 0 \<and> n = -1 \<or> r = SysNum n \<and> 0 \<le> n \<and> e = 0)"
  by (auto simp: sys_int_Inr os_calls_def)

lemma Poller_update_calls:
  assumes "Poller_updateChannel l p (po, w) = Inr (po', w')"
  shows "tamely fd w w'"
proof (cases po)
  case (Epoll ep)
  have ctl: "\<exists>cs. os_calls cs v v' \<and> (\<forall>x \<in> set cs. harmless fd (fst x))"
    if up: "EpollPoller_update op p e v = Inr v'" for op e v v'
  proof -
    obtain c where c: "chans v p = Some c"
      using up by (auto simp: EpollPoller_update_def res_bind_eq_Inr)
    from up c obtain n er where "sys_int (CallEpollCtl (ep_epollfd e) op (ch_fd c) (ch_events c) p) v = Inr (n, er, v')"
      by (auto simp: EpollPoller_update_def res_bind_eq_Inr split: if_splits)
    from sys_int_calls[OF this] obtain r
      where "os_calls [(CallEpollCtl (ep_epollfd e) op (ch_fd c) (ch_events c) p, r)] v v'"
      by blast
    then show ?thesis
      by (intro exI conjI) auto
  qed
  show ?thesis
    unfolding tamely_def using assms Epoll ctl
    by (fastforce simp: EpollPoller_updateChannel_def res_bind_eq_Inr Let_def os_calls_def split: if_splits)
next
  case (Poll pp)
  then show ?thesis
    unfolding tamely_def using assms
    by (intro exI[of _ "[]"])
      (auto simp: PollPoller_updateChannel_def res_bind_eq_Inr Let_def os_calls_def split: if_splits)
qed


section \<open>A connection on its loop\<close>

text \<open>
  A connection in the loop of thread \<open>me\<close>, level-triggered: its channel is registered with the
  loop's poller and has the interests \<open>p\<close>.
\<close>

definition plugged ::
    "nat \<Rightarrow> ptr \<Rightarrow> tcp_connection \<Rightarrow> evloop \<Rightarrow> bool \<times> bool \<Rightarrow> 'z conn_world_scheme \<Rightarrow> bool" where
  "plugged me C tc el p w \<longleftrightarrow>
     conns w C = Some tc \<and> loops w (tc_loop tc) = Some el \<and>
     el_threadId el = me \<and> el_wakeupFd el \<noteq> tc_socket tc \<and>
     statics w = lt_statics \<and> Poller_consistent (el_poller el, w) \<and>
     Poller_channels (el_poller el) (tc_socket tc) = Some (tc_channel tc) \<and>
     (case chans w (tc_channel tc) of
        None \<Rightarrow> False
      | Some c \<Rightarrow> ch_loop c = tc_loop tc \<and> ch_fd c = tc_socket tc \<and> ch_events c = lt_mask p)"

lemma lt_mask_bits [simp]: "lt_mask p AND 3 = 0 \<longleftrightarrow> \<not> fst p" "lt_mask p AND 4 = 0 \<longleftrightarrow> \<not> snd p"
  by (cases p; simp add: lt_mask_def)+

lemma pluggedD:
  assumes "plugged me C tc el p w"
  shows "conns w C = Some tc" "loops w (tc_loop tc) = Some el" "statics w = lt_statics"
    "EventLoop_assertInLoopThread me (tc_loop tc) w = Inr ()"
    "\<exists>c. chans w (tc_channel tc) = Some c \<and> ch_fd c = tc_socket tc \<and> ch_loop c = tc_loop tc \<and>
       ch_events c = lt_mask p \<and> Channel_isWriting (statics w) c = snd p \<and>
       Channel_isReading (statics w) c = fst p"
  using assms
  by (auto simp: plugged_def EventLoop_assertInLoopThread_def EventLoop_isInLoopThread_def
      Channel_isWriting_def Channel_isReading_def split: option.splits)

lemma plugged_put:
  assumes "plugged me C tc el p w"
    and "tc_loop tc' = tc_loop tc" "tc_socket tc' = tc_socket tc" "tc_channel tc' = tc_channel tc"
  shows "plugged me C tc' el p (conn_put C tc' w)"
  using assms Poller_consistent_sys[of "el_poller el" w "conn_put C tc' w"]
  by (simp add: plugged_def split: option.splits)

lemma plugged_os:
  assumes "plugged me C tc el p w" and "os_step w w'" and "os_calls cs w w'"
    and "\<forall>x \<in> set cs. unwatching (fst x)"
  shows "plugged me C tc el p w'"
proof -
  have same: "conns w' = conns w" "loops w' = loops w" "chans w' = chans w" "statics w' = statics w"
    using os_step_conn(1)[OF assms(2)] os_step_world[OF assms(2)] by simp_all
  have "kernel_interest epfd (trace w') = kernel_interest epfd (trace w)" for epfd
    using assms(3,4) kernel_interest_unwatching[of "map fst cs" epfd "trace w"] by (simp add: os_calls_def)
  then have "Poller_consistent (el_poller el, w) \<Longrightarrow> Poller_consistent (el_poller el, w')"
    using Poller_consistent_sys[of "el_poller el" w w'] same by simp
  then show ?thesis
    using assms(1) same by (simp add: plugged_def)
qed

lemma plugged_queue:
  assumes pl: "plugged me C tc el p w" and q: "EventLoop_queueInLoop me (tc_loop tc) f w = Inr w'"
  shows "plugged me C tc (queue_push f el) p w' \<and>
     tamely (tc_socket tc) w w'"
proof -
  let ?w = "loop_put (tc_loop tc) (queue_push f el) w"
  have pl1: "plugged me C tc (queue_push f el) p ?w"
    using pl Poller_consistent_sys[of "el_poller el" w ?w]
    by (simp add: plugged_def queue_push_def loop_put_def)
  have "w' = ?w \<or> EventLoop_wakeup (tc_loop tc) ?w = Inr w'"
    using q pluggedD(2)[OF pl] by (auto simp: EventLoop_queueInLoop_def split: if_splits)
  then show ?thesis
  proof
    assume "w' = ?w"
    then show ?thesis
      using pl1 by (auto simp: os_calls_def tamely_def intro!: exI[of _ "[]"])
  next
    assume wake: "EventLoop_wakeup (tc_loop tc) ?w = Inr w'"
    then obtain n e where "sys_int (CallWrite (el_wakeupFd el) one_bytes) ?w = Inr (n, e, w')"
      by (auto simp: EventLoop_wakeup_def sockets_write_def res_bind_eq_Inr queue_push_def split: if_splits)
    then obtain r where r: "os_calls [(CallWrite (el_wakeupFd el) one_bytes, r)] ?w w'"
      using sys_int_calls by blast
    then have "plugged me C tc (queue_push f el) p w'"
      using plugged_os[OF pl1 EventLoop_wakeup_Inr[OF wake] r] by simp
    moreover have "os_calls [(CallWrite (el_wakeupFd el) one_bytes, r)] w w'"
      using r by (simp add: os_calls_def)
    ultimately show ?thesis
      using pl unfolding tamely_def
      by (intro conjI exI[of _ "[(CallWrite (el_wakeupFd el) one_bytes, r)]"]) (auto simp: plugged_def)
  qed
qed

lemma plugged_interest:
  assumes pl: "plugged me C tc el p w"
  shows "case Channel_interest me i (tc_channel tc) w of
      Inl e \<Rightarrow> external e
    | Inr w' \<Rightarrow> \<exists>po. plugged me C tc (el\<lparr>el_poller := po\<rparr>) (interest_spec i p) w' \<and>
        tamely (tc_socket tc) w w'"
proof -
  let ?q = "tc_channel tc" and ?fd = "tc_socket tc"
  obtain c where c: "chans w ?q = Some c" "ch_fd c = ?fd" "ch_loop c = tc_loop tc" "ch_events c = lt_mask p"
    using pluggedD(5)[OF pl] by blast
  let ?d = "c\<lparr>ch_events := interest_mask (statics w) i (ch_events c), ch_addedToLoop := True\<rparr>"
  let ?w = "chan_put ?q ?d w"
  have el: "loops w (tc_loop tc) = Some el" "el_threadId el = me" and st: "statics w = lt_statics"
    and cons: "po.consistent (el_poller el, w)" and reg: "Poller_channels (el_poller el) ?fd = Some ?q"
    using pl by (simp_all add: plugged_def Poller_consistent_eq)
  have run: "Channel_interest me i ?q w = res_bind (Poller_updateChannel True ?q (el_poller el, ?w))
      (\<lambda>(po, w'). Inr (loop_put (tc_loop tc) (el\<lparr>el_poller := po\<rparr>) w'))"
    using c el by (simp add: Channel_interest_def Channel_update_def EventLoop_updateChannel_def
        EventLoop_assertInLoopThread_def EventLoop_isInLoopThread_def chan_put_def)
  have step: "reg_step (Poller_updateChannel True) (Poller_removeChannel True) (Change i ?q) (el_poller el, w) =
      Poller_updateChannel True ?q (el_poller el, ?w)"
    using c by simp
  have law: "case Poller_updateChannel True ?q (el_poller el, ?w) of Inl e \<Rightarrow> external e | Inr s' \<Rightarrow> po.consistent s'"
    using po.change_step[OF cons, of i ?q] c reg unfolding step by simp
  show ?thesis
  proof (cases "Poller_updateChannel True ?q (el_poller el, ?w)")
    case (Inl e)
    then show ?thesis
      using law run by simp
  next
    case (Inr s')
    obtain po w1 where s': "s' = (po, w1)"
      by (cases s')
    note up = Inr[unfolded s']
    let ?w' = "loop_put (tc_loop tc) (el\<lparr>el_poller := po\<rparr>) w1"
    have "po.consistent (po, w1)"
      using law up by simp
    then have cons': "Poller_consistent (po, ?w')"
      using Poller_consistent_sys[of po w1 ?w'] by (simp add: Poller_consistent_eq)
    have "Poller_inv (el_poller el, ?w)"
      using po.put[of "el_poller el" w ?q c ?d] cons c(1) by (simp add: po.consistent_def)
    from po.update[OF this _ _ up, of ?d] have same: "same_chans ?w w1"
        and look: "Poller_channels po = (Poller_channels (el_poller el))(?fd := Some ?q)"
      using reg c by (simp_all)
    have "rel_option (\<lambda>c c'. c' = c\<lparr>ch_index := ch_index c'\<rparr>) (chans ?w ?q) (chans w1 ?q)"
      using same unfolding same_chans_def by blast
    then obtain d1 where c1: "chans w1 ?q = Some d1" and "d1 = ?d\<lparr>ch_index := ch_index d1\<rparr>"
      by (cases "chans w1 ?q") auto
    then have d1: "ch_loop d1 = ch_loop ?d" "ch_fd d1 = ch_fd ?d" "ch_events d1 = ch_events ?d"
      by (cases d1; simp)+
    have "hworld.more w1 = hworld.more w" and st1: "statics w1 = statics w"
      using same by (simp_all add: same_chans_def)
    then have conns1: "conns w1 = conns w"
      by (intro world_more_conn(1) hworld_more_world(4))
    have "plugged me C tc (el\<lparr>el_poller := po\<rparr>) (interest_spec i p) ?w'"
      using pl cons' look c c1 d1 conns1 st1 st by (simp add: plugged_def interest_mask_lt)
    moreover have "tamely ?fd w ?w'"
      using Poller_update_calls[OF up, of ?fd] by (simp add: tamely_def os_calls_def)
    ultimately show ?thesis
      using run up by auto
  qed
qed

lemma queueInLoop_error:
  "plugged me C tc el p w \<Longrightarrow> EventLoop_queueInLoop me (tc_loop tc) f w = Inl e \<Longrightarrow> external e"
  by (auto simp: plugged_def EventLoop_queueInLoop_def EventLoop_wakeup_def sockets_write_def
      res_bind_eq_Inl dest!: sys_int_Inl split: if_splits)

definition write_complete_functors :: "ptr \<Rightarrow> tcp_connection \<Rightarrow> loop_functor list" where
  "write_complete_functors C tc =
     map (\<lambda>f. FConnWriteComplete f C) (opt_list (tc_writeCompleteCallback tc))"

lemma plugged_queue_list:
  assumes pl: "plugged me C tc el p w"
    and q: "fs = [] \<and> q = Inr w \<or> (\<exists>f. fs = [f] \<and> q = EventLoop_queueInLoop me (tc_loop tc) f w)"
  shows "case q of
      Inl e \<Rightarrow> external e
    | Inr w' \<Rightarrow> \<exists>el'. plugged me C tc el' p w' \<and> tamely (tc_socket tc) w w' \<and>
        el_pendingFunctors el' = el_pendingFunctors el @ fs"
  using q
proof (elim disjE exE conjE)
  fix f
  assume f: "fs = [f]" and q: "q = EventLoop_queueInLoop me (tc_loop tc) f w"
  have "el_pendingFunctors (queue_push f el) = el_pendingFunctors el @ fs"
    by (simp add: queue_push_def f)
  then show ?thesis
    using plugged_queue[OF pl] queueInLoop_error[OF pl] q by (auto split: sum.splits)
qed (use pl in auto)

lemma plugged_write_complete:
  assumes "plugged me C tc el p w"
  shows "case queue_write_complete me tc C w of
      Inl e \<Rightarrow> external e
    | Inr w' \<Rightarrow> \<exists>el'. plugged me C tc el' p w' \<and> tamely (tc_socket tc) w w' \<and>
        el_pendingFunctors el' = el_pendingFunctors el @ write_complete_functors C tc"
  by (rule plugged_queue_list[OF assms])
    (simp add: queue_write_complete_def write_complete_functors_def opt_list_def split: option.splits)

definition high_water_functors :: "ptr \<Rightarrow> tcp_connection \<Rightarrow> nat \<Rightarrow> loop_functor list" where
  "high_water_functors C tc n =
     (if tc_highWaterMark tc \<le> n \<and> 0 < tc_highWaterMark tc
      then map (\<lambda>f. FConnHighWaterMark f C n) (opt_list (tc_highWaterMarkCallback tc)) else [])"

lemma plugged_send_rest:
  assumes pl: "plugged me C tc el (r, False) w" and buf: "Buffer_inv (tc_outputBuffer tc)"
    and empty: "Buffer_contents (tc_outputBuffer tc) = []" and d: "length d \<le> max_size"
  shows "case send_rest me C d w of
      Inl e \<Rightarrow> external e \<or> e = LengthError
    | Inr w' \<Rightarrow> \<exists>b el'. plugged me C (tc\<lparr>tc_outputBuffer := b\<rparr>) el' (r, True) w' \<and> Buffer_inv b \<and>
        Buffer_contents b = d \<and> tamely (tc_socket tc) w w' \<and>
        el_pendingFunctors el' = el_pendingFunctors el @ high_water_functors C tc (length d)"
proof -
  let ?hw = "case tc_highWaterMarkCallback tc of None \<Rightarrow> Inr w
    | Some f \<Rightarrow> if tc_highWaterMark tc \<le> length d \<and> 0 < tc_highWaterMark tc
        then EventLoop_queueInLoop me (tc_loop tc) (FConnHighWaterMark f C (length d)) w else Inr w"
  let ?tc = "\<lambda>b. tc\<lparr>tc_outputBuffer := b\<rparr>"
  have old: "Buffer_readableBytes (tc_outputBuffer tc) = 0"
    using buf arg_cong[OF empty, of length] by (simp add: buffer_simps)
  have total: "size_plus 0 (length d) = length d"
    using d by (simp add: max_size_def)
  have run: "send_rest me C d w = res_bind ?hw (\<lambda>w1. res_bind (Buffer_append d (tc_outputBuffer tc)) (\<lambda>b.
      res_bind (chan_get (tc_channel tc) (conn_put C (?tc b) w1)) (\<lambda>c.
        if \<not> Channel_isWriting (statics (conn_put C (?tc b) w1)) c
        then Channel_interest me EnableWriting (tc_channel tc) (conn_put C (?tc b) w1)
        else Inr (conn_put C (?tc b) w1))))"
    using pluggedD(1)[OF pl] by (simp add: send_rest_def Let_def old total cong: option.case_cong if_cong)
  have hw: "case ?hw of Inl e \<Rightarrow> external e
    | Inr w1 \<Rightarrow> \<exists>el1. plugged me C tc el1 (r, False) w1 \<and> tamely (tc_socket tc) w w1 \<and>
        el_pendingFunctors el1 = el_pendingFunctors el @ high_water_functors C tc (length d)"
    by (rule plugged_queue_list[OF pl])
      (auto simp: high_water_functors_def opt_list_def split: option.splits)
  show ?thesis
  proof (cases ?hw)
    case (Inl e)
    then show ?thesis
      using run hw by simp
  next
    case w1: (Inr w1)
    then obtain el1 where pl1: "plugged me C tc el1 (r, False) w1" "tamely (tc_socket tc) w w1"
        "el_pendingFunctors el1 = el_pendingFunctors el @ high_water_functors C tc (length d)"
      using hw by auto
    show ?thesis
    proof (cases "Buffer_append d (tc_outputBuffer tc)")
      case (Inl e)
      have "\<not> Buffer_append_stuck (length d) (tc_outputBuffer tc)"
        using old by (simp add: Buffer_append_stuck_def)
      then have "e = LengthError"
        using Buffer_append_cases[OF buf d] Inl by (auto split: if_splits)
      then show ?thesis
        using run w1 Inl by simp
    next
      case (Inr b)
      have b: "Buffer_inv b" "Buffer_contents b = d"
        using Buffer_append_Inr[OF buf d Inr] empty by simp_all
      let ?w2 = "conn_put C (?tc b) w1"
      have pl2: "plugged me C (?tc b) el1 (r, False) ?w2"
        using plugged_put[OF pl1(1), of "?tc b"] by simp
      then obtain c where "chans ?w2 (tc_channel tc) = Some c" and "\<not> Channel_isWriting (statics ?w2) c"
        using pluggedD(5)[OF pl2] by auto
      then have "send_rest me C d w = Channel_interest me EnableWriting (tc_channel tc) ?w2"
        using run w1 Inr by simp
      moreover have "tamely (tc_socket tc) w ?w2"
        using pl1(2) by (simp add: tamely_def os_calls_def)
      ultimately show ?thesis
        using plugged_interest[OF pl2, of EnableWriting] b pl1(3) tamely_trans
        by (fastforce split: sum.splits)
    qed
  qed
qed

lemma tamely_accepted:
  assumes "tamely fd w w'"
  obtains cs where "os_calls cs w w'" and "accepted fd cs = []" and "CallShutdownWrite fd \<notin> fst ` set cs"
  using assms unfolding tamely_def by (metis (no_types, lifting) accepted_harmless harmless.simps(2) imageE)


section \<open>Sending\<close>

text \<open>
  A connection is ready when its output buffer is well formed and its channel waits to write
  exactly when the buffer holds something.
\<close>

definition conn_ready :: "nat \<Rightarrow> ptr \<Rightarrow> 'z conn_world_scheme \<Rightarrow> bool" where
  "conn_ready me C w \<longleftrightarrow>
     (\<exists>tc el r. plugged me C tc el (r, pending C w \<noteq> []) w \<and> Buffer_inv (tc_outputBuffer tc))"

definition queued :: "ptr \<Rightarrow> 'z conn_world_scheme \<Rightarrow> loop_functor list" where
  "queued C w =
     (case conns w C of None \<Rightarrow> []
      | Some tc \<Rightarrow> (case loops w (tc_loop tc) of None \<Rightarrow> [] | Some el \<Rightarrow> el_pendingFunctors el))"

lemma plugged_pending:
  assumes "plugged me C tc el p w"
  shows "pending C w = Buffer_contents (tc_outputBuffer tc)" "queued C w = el_pendingFunctors el"
  using pluggedD(1,2)[OF assms] by (simp_all add: pending_def queued_def)

lemma ready_plugged:
  assumes "conn_ready me C w" and "conns w C = Some tc"
  obtains el r where "plugged me C tc el (r, pending C w \<noteq> []) w" and "Buffer_inv (tc_outputBuffer tc)"
  using assms pluggedD(1) unfolding conn_ready_def by (metis option.inject)

lemma plugged_ready:
  assumes "plugged me C tc el (r, Buffer_contents (tc_outputBuffer tc) \<noteq> []) w" and "Buffer_inv (tc_outputBuffer tc)"
  shows "conn_ready me C w"
  unfolding conn_ready_def using assms plugged_pending(1)[OF assms(1)] by auto

text \<open>The outcomes of a send to an idle connection.\<close>

definition sent_ok :: "ptr \<Rightarrow> tcp_connection \<Rightarrow> char list \<Rightarrow> (sys_call \<times> sys_ret) list \<Rightarrow>
    'z conn_world_scheme \<Rightarrow> 'z conn_world_scheme \<Rightarrow> bool" where
  "sent_ok C tc d cs w w' \<longleftrightarrow>
     accepted (tc_socket tc) cs @ pending C w' = d \<and>
     queued C w' = queued C w @
       (if pending C w' = []
        then if tape w \<noteq> [] \<and> (\<exists>n. hd (tape w) = SysNum n) then write_complete_functors C tc else []
        else high_water_functors C tc (length (pending C w')))"

definition sent_fault :: "ptr \<Rightarrow> tcp_connection \<Rightarrow> (sys_call \<times> sys_ret) list \<Rightarrow>
    'z conn_world_scheme \<Rightarrow> 'z conn_world_scheme \<Rightarrow> bool" where
  "sent_fault C tc cs w w' \<longleftrightarrow>
     (tape w \<noteq> [] \<and> hd (tape w) \<in> {SysErr EPIPE, SysErr ECONNRESET}) \<and>
     accepted (tc_socket tc) cs = [] \<and> pending C w' = [] \<and> queued C w' = queued C w"

lemma sockets_write_calls:
  assumes "sockets_write fd d w = Inr (n, e, w')"
  obtains r where "os_calls [(CallWrite fd d, r)] w w'"
    and "r = SysErr e \<and> e \<noteq> 0 \<and> n = -1 \<or> r = SysNum n \<and> 0 \<le> n \<and> n \<le> int (length d) \<and> e = 0"
proof -
  have "sys_int (CallWrite fd d) w = Inr (n, e, w')" and le: "n \<le> int (length d)"
    using assms by (auto simp: sockets_write_def res_bind_eq_Inr split: if_splits)
  from sys_int_calls[OF this(1)] le that show ?thesis
    by auto
qed

lemma sockets_write_error: "sockets_write fd d w = Inl e \<Longrightarrow> external e"
  by (auto simp: sockets_write_def res_bind_eq_Inl dest!: sys_int_Inl split: if_splits)

lemma tamely_after:
  assumes "os_calls cs w w1" and "tamely fd w1 w2"
  obtains ds where "os_calls ds w w2" and "accepted fd ds = accepted fd cs"
  using assms(2) by (rule tamely_accepted) (use os_calls_trans[OF assms(1)] accepted_append that in fastforce)

lemma send_took_all:
  assumes pl: "plugged me C tc el (r, False) w" and pl1: "plugged me C tc el (r, False) w1"
    and buf: "Buffer_inv (tc_outputBuffer tc)" and idle: "Buffer_contents (tc_outputBuffer tc) = []"
    and call: "os_calls [(CallWrite (tc_socket tc) d, SysNum (int (length d)))] w w1"
  shows "case queue_write_complete me tc C w1 of
      Inl e \<Rightarrow> external e
    | Inr w' \<Rightarrow> conn_ready me C w' \<and> (\<exists>cs. os_calls cs w w' \<and> sent_ok C tc d cs w w')"
proof (cases "queue_write_complete me tc C w1")
  case (Inl e)
  then show ?thesis
    using plugged_write_complete[OF pl1] by simp
next
  case (Inr w2)
  then obtain el2 where pl2: "plugged me C tc el2 (r, False) w2" and tame: "tamely (tc_socket tc) w1 w2"
    and fs: "el_pendingFunctors el2 = el_pendingFunctors el @ write_complete_functors C tc"
    using plugged_write_complete[OF pl1] by auto
  obtain cs where "os_calls cs w w2" and "accepted (tc_socket tc) cs = d"
    using tamely_after[OF call tame] by auto
  moreover have "tape w \<noteq> []" and "hd (tape w) = SysNum (int (length d))"
    using call by (simp_all add: os_calls_def)
  ultimately have "\<exists>cs. os_calls cs w w2 \<and> sent_ok C tc d cs w w2"
    using plugged_pending[OF pl] plugged_pending[OF pl2] fs idle by (auto simp: sent_ok_def)
  moreover have "conn_ready me C w2"
    using plugged_ready[of me C tc el2 r w2] pl2 buf idle by simp
  ultimately show ?thesis
    using Inr by simp
qed

lemma send_took_part:
  assumes pl: "plugged me C tc el (r, False) w" and pl1: "plugged me C tc el (r, False) w1"
    and buf: "Buffer_inv (tc_outputBuffer tc)" and idle: "Buffer_contents (tc_outputBuffer tc) = []"
    and d: "length d \<le> max_size" and k: "k < length d"
    and call: "os_calls cs w w1" "accepted (tc_socket tc) cs = take k d"
  shows "case send_rest me C (drop k d) w1 of
      Inl e \<Rightarrow> external e \<or> e = LengthError
    | Inr w' \<Rightarrow> conn_ready me C w' \<and> (\<exists>cs. os_calls cs w w' \<and> sent_ok C tc d cs w w')"
proof -
  have ne: "drop k d \<noteq> []" and len: "length (drop k d) \<le> max_size"
    using k d by auto
  note out = plugged_send_rest[OF pl1 buf idle len]
  show ?thesis
  proof (cases "send_rest me C (drop k d) w1")
    case (Inl e)
    then show ?thesis
      using out by simp
  next
    case (Inr w2)
    then obtain b el2 where pl2: "plugged me C (tc\<lparr>tc_outputBuffer := b\<rparr>) el2 (r, True) w2"
      and b: "Buffer_inv b" "Buffer_contents b = drop k d" and tame: "tamely (tc_socket tc) w1 w2"
      and fs: "el_pendingFunctors el2 = el_pendingFunctors el @ high_water_functors C tc (length (drop k d))"
      using out by auto
    obtain ds where "os_calls ds w w2" and "accepted (tc_socket tc) ds = take k d"
      using tamely_after[OF call(1) tame] call(2) by auto
    then have "\<exists>cs. os_calls cs w w2 \<and> sent_ok C tc d cs w w2"
      using plugged_pending[OF pl] plugged_pending[OF pl2] fs ne b by (auto simp: sent_ok_def)
    moreover have "conn_ready me C w2"
      using plugged_ready[of me C "tc\<lparr>tc_outputBuffer := b\<rparr>" el2 r w2] pl2 b ne by simp
    ultimately show ?thesis
      using Inr by simp
  qed
qed

lemma send_took_none:
  assumes pl: "plugged me C tc el (r, False) w" and pl1: "plugged me C tc el (r, False) w1"
    and buf: "Buffer_inv (tc_outputBuffer tc)" and idle: "Buffer_contents (tc_outputBuffer tc) = []"
    and call: "os_calls [(CallWrite (tc_socket tc) d, SysErr e)] w w1"
    and d: "d = [] \<or> e \<in> {EPIPE, ECONNRESET}"
  shows "conn_ready me C w1 \<and>
    (\<exists>cs. os_calls cs w w1 \<and> (sent_ok C tc d cs w w1 \<or> sent_fault C tc cs w w1))"
proof -
  let ?cs = "[(CallWrite (tc_socket tc) d, SysErr e)]"
  have tp: "tape w \<noteq> []" "hd (tape w) = SysErr e"
    using call by (simp_all add: os_calls_def)
  have "sent_ok C tc d ?cs w w1 \<or> sent_fault C tc ?cs w w1"
    using d tp plugged_pending[OF pl] plugged_pending[OF pl1] idle by (auto simp: sent_ok_def sent_fault_def)
  moreover have "conn_ready me C w1"
    using plugged_ready[of me C tc el r w1] pl1 buf idle by simp
  ultimately show ?thesis
    using call by blast
qed

lemma sendInLoop_idle:
  assumes pl: "plugged me C tc el (r, False) w" and buf: "Buffer_inv (tc_outputBuffer tc)"
    and idle: "Buffer_contents (tc_outputBuffer tc) = []"
    and st: "tc_state tc \<noteq> kDisconnected" and d: "length d \<le> max_size"
  shows "case TcpConnection_sendInLoop me C d w of
      Inl e \<Rightarrow> external e \<or> e = LengthError
    | Inr w' \<Rightarrow> conn_ready me C w' \<and>
        (\<exists>cs. os_calls cs w w' \<and> (sent_ok C tc d cs w w' \<or> sent_fault C tc cs w w'))"
proof -
  let ?fd = "tc_socket tc"
  obtain c where c: "chans w (tc_channel tc) = Some c" "ch_fd c = ?fd" "\<not> Channel_isWriting (statics w) c"
    using pluggedD(5)[OF pl] by auto
  have "Buffer_readableBytes (tc_outputBuffer tc) = 0"
    using buf arg_cong[OF idle, of length] by (simp add: buffer_simps)
  then have run: "TcpConnection_sendInLoop me C d w =
      res_bind (sockets_write ?fd d w) (\<lambda>(n, errno, w1).
        res_bind (if 0 \<le> n \<and> length d - nat n = 0 then queue_write_complete me tc C w1 else Inr w1) (\<lambda>w2.
          if \<not> (n < 0 \<and> (errno = EPIPE \<or> errno = ECONNRESET)) \<and> 0 < length d - nat n
          then send_rest me C (drop (nat n) d) w2 else Inr w2))"
    using pluggedD(1,4)[OF pl] c st
    by (simp add: TcpConnection_sendInLoop_def Let_def) (intro res_bind_cong, auto)
  show ?thesis
  proof (cases "sockets_write ?fd d w")
    case (Inl e)
    then show ?thesis
      using run sockets_write_error[OF Inl] by simp
  next
    case (Inr out)
    then obtain n e w1 where wr: "sockets_write ?fd d w = Inr (n, e, w1)"
      by (cases out) auto
    then obtain a where call: "os_calls [(CallWrite ?fd d, a)] w w1"
      and a: "a = SysErr e \<and> e \<noteq> 0 \<and> n = -1 \<or> a = SysNum n \<and> 0 \<le> n \<and> n \<le> int (length d) \<and> e = 0"
      by (rule sockets_write_calls)
    have pl1: "plugged me C tc el (r, False) w1"
      using plugged_os[OF pl sockets_write_os_step[OF wr] call] by simp
    have acc: "accepted ?fd [(CallWrite ?fd d, a)] = take (nat n) d"
      using a by auto
    consider (all) "n = int (length d)" "a = SysNum n"
      | (none) "a = SysErr e" "n = -1" "d = [] \<or> e \<in> {EPIPE, ECONNRESET}"
      | (part) "nat n < length d" "\<not> (n < 0 \<and> (e = EPIPE \<or> e = ECONNRESET))"
      using a by force
    then show ?thesis
    proof cases
      case all
      then show ?thesis
        using run wr call send_took_all[OF pl pl1 buf idle, of d] by (auto split: sum.splits)
    next
      case none
      then show ?thesis
        using run wr call send_took_none[OF pl pl1 buf idle, of d e] by auto
    next
      case part
      then show ?thesis
        using run wr send_took_part[OF pl pl1 buf idle d part(1) call acc] by (auto split: sum.splits)
    qed
  qed
qed


subsection \<open>An example\<close>

text \<open>The example connection once it is registered, with interests, output and state to choose.\<close>

definition wired_poller :: "bool \<times> bool \<Rightarrow> poller" where
  "wired_poller p = Poll \<lparr>pp_channels = [8 \<mapsto> 3],
     pp_pollfds = [\<lparr>pf_fd = 8, pf_events = ucast (lt_mask p), pf_revents = 0\<rparr>]\<rparr>"

definition wired_tc :: "conn_state \<Rightarrow> char list \<Rightarrow> tcp_connection" where
  "wired_tc st d = conn_demo_tc\<lparr>tc_state := st,
     tc_outputBuffer := \<lparr>buffer_bytes = d, readerIndex = 0, writerIndex = length d\<rparr>\<rparr>"

definition wired_demo :: "conn_state \<Rightarrow> bool \<times> bool \<Rightarrow> char list \<Rightarrow> sys_ret list \<Rightarrow> clog_world" where
  "wired_demo st p d answers = (conn_demo answers)\<lparr>
     chans := [3 \<mapsto> (Channel_new 7 8)\<lparr>ch_index := 0, ch_events := lt_mask p\<rparr>],
     loops := [7 \<mapsto> conn_demo_loop\<lparr>el_poller := wired_poller p\<rparr>],
     conns := [2 \<mapsto> wired_tc st d]\<rparr>"

lemma wired_demo_table:
  "poll_table [8 \<mapsto> 3] (chans (wired_demo st p d answers)) [8]"
  by (auto simp: poll_table_def wired_demo_def Channel_new_def intro: exI[of _ "0::nat"])

lemma wired_demo_plugged:
  assumes "p = (True, wr)"
  shows "plugged 9 2 (wired_tc st d) (conn_demo_loop\<lparr>el_poller := wired_poller p\<rparr>) p (wired_demo st p d answers)"
proof -
  have "Poller_consistent (wired_poller p, wired_demo st p d answers)"
    using wired_demo_table[of st p d answers] assms
    by (auto simp: Poller_consistent_def wired_poller_def poll_inv_def real_fd_def poll_mask_def
        wired_demo_def conn_demo_def Channel_new_def poll_view_def lt_mask_def split: if_splits)
  then show ?thesis
    by (simp add: plugged_def wired_demo_def wired_tc_def conn_demo_tc_def conn_demo_loop_def conn_demo_def
        Channel_new_def wired_poller_def)
qed

lemma wired_demo_ready:
  assumes "length d \<le> max_size"
  shows "conn_ready 9 2 (wired_demo st (True, d \<noteq> []) d answers)"
    and "conns (wired_demo st p d answers) 2 = Some (wired_tc st d)"
proof -
  have b: "Buffer_inv (tc_outputBuffer (wired_tc st d))" "Buffer_contents (tc_outputBuffer (wired_tc st d)) = d"
    using assms by (simp_all add: wired_tc_def Buffer_inv_def Buffer_contents_def segment_def)
  then show "conn_ready 9 2 (wired_demo st (True, d \<noteq> []) d answers)"
    using plugged_ready[of 9 2 "wired_tc st d" _ True] wired_demo_plugged[of "(True, d \<noteq> [])" "d \<noteq> []" st d answers]
    by simp
qed (simp add: wired_demo_def)

text \<open>
  C11. Sending in level-triggered mode. \<^verbatim>\<open>sendInLoop\<close> on a ready connection fails no assertion and runs into
  no undefined behaviour; unless the kernel fails or memory runs out it leaves the connection ready. When
  the output buffer was empty, either the bytes the kernel accepted followed by the bytes now in
  the buffer are the data, the channel waits to write exactly when some are left, and the write
  complete callback (all accepted) or the high water mark callback (mark reached) is queued; or
  the peer is gone (\<^verbatim>\<open>EPIPE\<close>, \<^verbatim>\<open>ECONNRESET\<close>) and the data is dropped. When output was pending the call does
  nothing at all: the data is lost, with no error.
\<close>

theorem conn_send_outcome:
  assumes ready: "conn_ready me C w" and tc: "conns w C = Some tc"
    and st: "tc_state tc \<noteq> kDisconnected" and d: "length d \<le> max_size"
  shows "case TcpConnection_sendInLoop me C d w of
      Inl e \<Rightarrow> pending C w = [] \<and> (external e \<or> e = LengthError)
    | Inr w' \<Rightarrow>
        if pending C w \<noteq> [] then w' = w
        else conn_ready me C w' \<and>
          (\<exists>cs. os_calls cs w w' \<and> (sent_ok C tc d cs w w' \<or> sent_fault C tc cs w w'))"
proof -
  obtain el r where pl: "plugged me C tc el (r, pending C w \<noteq> []) w" and buf: "Buffer_inv (tc_outputBuffer tc)"
    using ready tc by (rule ready_plugged)
  show ?thesis
  proof (cases "pending C w = []")
    case True
    then show ?thesis
      using sendInLoop_idle[of me C tc el r w d] pl buf st d plugged_pending(1)[OF pl]
      by (simp split: sum.splits)
  next
    case False
    then have "TcpConnection_sendInLoop me C d w = Inr w"
      using pluggedD[OF pl] st by (auto simp: TcpConnection_sendInLoop_def)
    then show ?thesis
      using False by simp
  qed
qed

theorem conn_send_outcome_witness:
  "let w = wired_demo kConnected (True, False) [] [SysNum 1] in
   case TcpConnection_sendInLoop 9 2 ''hi'' w of
     Inl e \<Rightarrow> False
   | Inr w' \<Rightarrow> pending 2 w' = ''i'' \<and> conn_ready 9 2 w' \<and>
       (\<exists>cs. os_calls cs w w' \<and>
         (sent_ok 2 (wired_tc kConnected []) ''hi'' cs w w' \<or> sent_fault 2 (wired_tc kConnected []) cs w w'))"
proof -
  let ?w = "wired_demo kConnected (True, False) [] [SysNum 1]"
  have "case TcpConnection_sendInLoop 9 2 ''hi'' ?w of Inl e \<Rightarrow> False | Inr w' \<Rightarrow> pending 2 w' = ''i''"
    by (simp add: wired_demo_def wired_tc_def wired_poller_def conn_demo_defs conn_run_defs lt_mask_def pending_def)
  moreover have "pending 2 ?w = []" and "conn_ready 9 2 ?w"
    using wired_demo_ready(1)[of "[]" kConnected "[SysNum 1]"]
    by (simp_all add: pending_def wired_demo_def wired_tc_def Buffer_contents_def segment_def)
  ultimately show ?thesis
    using conn_send_outcome[of 9 2 ?w "wired_tc kConnected []" "''hi''"]
    by (auto simp: wired_demo_ready(2) wired_tc_def max_size_def split: sum.splits)
qed


section \<open>Writing the rest, and shutting down\<close>

lemma shutdownInLoop_plugged:
  assumes pl: "plugged me C tc el (r, wr) w"
  shows "if wr then TcpConnection_shutdownInLoop me C w = Inr w
    else case TcpConnection_shutdownInLoop me C w of
        Inl e \<Rightarrow> external e
      | Inr w' \<Rightarrow> plugged me C tc el (r, wr) w' \<and> (\<exists>a. os_calls [(CallShutdownWrite (tc_socket tc), a)] w w')"
proof -
  let ?call = "sys_int (CallShutdownWrite (tc_socket tc)) w"
  have run: "TcpConnection_shutdownInLoop me C w =
      (if wr then Inr w else res_bind ?call (\<lambda>(r, e, w'). Inr w'))"
    using pluggedD[OF pl]
    by (auto simp: TcpConnection_shutdownInLoop_def Socket_shutdownWrite_def sockets_shutdownWrite_def)
  show ?thesis
  proof (cases ?call)
    case (Inl e)
    then show ?thesis
      using run sys_int_Inl[OF Inl] by auto
  next
    case (Inr out)
    then obtain n e w' where call: "?call = Inr (n, e, w')"
      by (cases out) auto
    then obtain a where a: "os_calls [(CallShutdownWrite (tc_socket tc), a)] w w'"
      using sys_int_calls by blast
    then have "plugged me C tc el (r, wr) w'"
      using plugged_os[OF pl sys_int_os_step[OF call] a] by simp
    then show ?thesis
      using run call a by auto
  qed
qed

text \<open>The calls of a write that leaves \<open>w'\<close>: the bytes in order, and the shutdown only at the end.\<close>

definition wrote_ok :: "ptr \<Rightarrow> tcp_connection \<Rightarrow> (sys_call \<times> sys_ret) list \<Rightarrow>
    'z conn_world_scheme \<Rightarrow> 'z conn_world_scheme \<Rightarrow> bool" where
  "wrote_ok C tc cs w w' \<longleftrightarrow>
     (let drained = pending C w \<noteq> [] \<and> pending C w' = [] in
      accepted (tc_socket tc) cs @ pending C w' = pending C w \<and>
      queued C w' = queued C w @ (if drained then write_complete_functors C tc else []) \<and>
      (CallShutdownWrite (tc_socket tc) \<in> fst ` set cs \<longleftrightarrow> drained \<and> tc_state tc = kDisconnecting))"

lemma tamely_extend:
  assumes "os_calls cs w w1" and "tamely fd w1 w2"
  obtains ds where "os_calls ds w w2" and "accepted fd ds = accepted fd cs"
    and "CallShutdownWrite fd \<in> fst ` set ds \<longleftrightarrow> CallShutdownWrite fd \<in> fst ` set cs"
proof -
  obtain es where "os_calls es w1 w2" "accepted fd es = []" "CallShutdownWrite fd \<notin> fst ` set es"
    using assms(2) by (rule tamely_accepted)
  then show ?thesis
    using that[of "cs @ es"] os_calls_trans[OF assms(1)] by (auto simp: accepted_append)
qed

lemma write_drained:
  fixes w :: "'z conn_world_scheme"
  assumes pl: "plugged me C tc el (r, True) w" and buf: "Buffer_inv b" "Buffer_contents b = []"
    and ne: "Buffer_contents (tc_outputBuffer tc) \<noteq> []"
    and pl1: "plugged me C (tc\<lparr>tc_outputBuffer := b\<rparr>) el (r, True) w1"
    and call: "os_calls cs w w1" "accepted (tc_socket tc) cs = Buffer_contents (tc_outputBuffer tc)"
      "CallShutdownWrite (tc_socket tc) \<notin> fst ` set cs"
  shows "case res_bind (Channel_interest me DisableWriting (tc_channel tc) w1) (\<lambda>w2.
           res_bind (queue_write_complete me tc C w2) (\<lambda>w3.
             if tc_state tc = kDisconnecting then TcpConnection_shutdownInLoop me C w3 else Inr w3)) of
      Inl e \<Rightarrow> external e
    | Inr w' \<Rightarrow> conn_ready me C w' \<and> (\<exists>cs. os_calls cs w w' \<and> wrote_ok C tc cs w w')"
proof -
  let ?tc = "tc\<lparr>tc_outputBuffer := b\<rparr>" and ?fd = "tc_socket tc"
  have wc: "queue_write_complete me ?tc C v = queue_write_complete me tc C v"
    "write_complete_functors C ?tc = write_complete_functors C tc" for v :: "'z conn_world_scheme"
    by (simp_all add: queue_write_complete_def write_complete_functors_def split: option.splits)
  have ready: "conn_ready me C v" if "plugged me C ?tc el' (r, False) v" for el' v
    using plugged_ready[of me C ?tc el' r v] that buf by simp
  have ok: "wrote_ok C tc ds w v"
    if "plugged me C ?tc el' (r, False) v" and "el_pendingFunctors el' = el_pendingFunctors el @ write_complete_functors C tc"
      and "accepted ?fd ds = Buffer_contents (tc_outputBuffer tc)"
      and "CallShutdownWrite ?fd \<in> fst ` set ds \<longleftrightarrow> tc_state tc = kDisconnecting" for el' v ds
    using that plugged_pending[OF pl] plugged_pending[OF that(1)] buf ne by (simp add: wrote_ok_def Let_def)
  show ?thesis
  proof (cases "Channel_interest me DisableWriting (tc_channel tc) w1")
    case (Inl e)
    then show ?thesis
      using plugged_interest[OF pl1, of DisableWriting] by simp
  next
    case w2: (Inr w2)
    then obtain po where pl2: "plugged me C ?tc (el\<lparr>el_poller := po\<rparr>) (r, False) w2" and t2: "tamely ?fd w1 w2"
      using plugged_interest[OF pl1, of DisableWriting] by auto
    show ?thesis
    proof (cases "queue_write_complete me tc C w2")
      case (Inl e)
      then show ?thesis
        using plugged_write_complete[OF pl2] w2 wc by simp
    next
      case w3: (Inr w3)
      then obtain el3 where pl3: "plugged me C ?tc el3 (r, False) w3" and t3: "tamely ?fd w2 w3"
        and fs: "el_pendingFunctors el3 = el_pendingFunctors el @ write_complete_functors C tc"
        using plugged_write_complete[OF pl2] wc by auto
      obtain ds where ds: "os_calls ds w w3" "accepted ?fd ds = accepted ?fd cs"
          "CallShutdownWrite ?fd \<in> fst ` set ds \<longleftrightarrow> CallShutdownWrite ?fd \<in> fst ` set cs"
        using tamely_extend[OF call(1) tamely_trans[OF t2 t3]] by blast
      show ?thesis
      proof (cases "tc_state tc = kDisconnecting")
        case False
        then show ?thesis
          using w2 w3 wc ready[OF pl3] ok[OF pl3 fs] ds call by auto
      next
        case True
        have "wrote_ok C tc (ds @ [(CallShutdownWrite ?fd, a)]) w v"
          if "plugged me C ?tc el3 (r, False) v" for a v
          using ok[OF that fs, of "ds @ [(CallShutdownWrite ?fd, a)]"] ds(2) call(2) True
          by (simp add: accepted_append)
        then show ?thesis
          using shutdownInLoop_plugged[OF pl3] w2 w3 wc ready os_calls_trans[OF ds(1)] True
          by (fastforce split: sum.splits)
      qed
    qed
  qed
qed

definition write_next :: "nat \<Rightarrow> ptr \<Rightarrow> tcp_connection \<Rightarrow> int \<Rightarrow> buffer \<Rightarrow>
    'z conn_world_scheme \<Rightarrow> 'z conn_world_scheme res" where
  "write_next me C tc n b w2 =
     (if 0 < n \<and> Buffer_readableBytes b = 0
      then res_bind (Channel_interest me DisableWriting (tc_channel tc) w2) (\<lambda>w3.
           res_bind (queue_write_complete me tc C w3) (\<lambda>w4.
             if tc_state tc = kDisconnecting then TcpConnection_shutdownInLoop me C w4 else Inr w4))
      else Inr w2)"

lemma write_answered:
  assumes pl: "plugged me C tc el (r, True) w" and buf: "Buffer_inv (tc_outputBuffer tc)"
    and ne: "Buffer_contents (tc_outputBuffer tc) \<noteq> []" and pl1: "plugged me C tc el (r, True) w1"
    and call: "os_calls [(CallWrite (tc_socket tc) (Buffer_contents (tc_outputBuffer tc)), a)] w w1"
  shows "case res_bind (Buffer_writeFd a (tc_outputBuffer tc) 0) (\<lambda>(n, e, b).
           write_next me C tc n b (conn_put C (tc\<lparr>tc_outputBuffer := b\<rparr>) w1)) of
      Inl e \<Rightarrow> external e
    | Inr w' \<Rightarrow> conn_ready me C w' \<and> (\<exists>cs. os_calls cs w w' \<and> wrote_ok C tc cs w w')"
proof -
  let ?out = "Buffer_contents (tc_outputBuffer tc)"
  let ?cs = "[(CallWrite (tc_socket tc) ?out, a)]"
  let ?w2 = "\<lambda>b. conn_put C (tc\<lparr>tc_outputBuffer := b\<rparr>) w1"
  have after: "plugged me C (tc\<lparr>tc_outputBuffer := b\<rparr>) el (r, True) (?w2 b)" for b
    using plugged_put[OF pl1] by simp
  have calls: "os_calls ?cs w (?w2 b)" for b
    using call by (simp add: os_calls_def)
  have left: "conn_ready me C (?w2 b) \<and> (\<exists>cs. os_calls cs w (?w2 b) \<and> wrote_ok C tc cs w (?w2 b))"
    if b: "Buffer_inv b" "Buffer_contents b = drop k ?out" and k: "k < length ?out"
      and acc: "accepted (tc_socket tc) ?cs = take k ?out" for b k
  proof -
    have "conn_ready me C (?w2 b)"
      using plugged_ready[of me C "tc\<lparr>tc_outputBuffer := b\<rparr>" el r] after[of b] b k by simp
    moreover have "wrote_ok C tc ?cs w (?w2 b)"
      using plugged_pending[OF pl] plugged_pending[OF after[of b]] b k acc by (simp add: wrote_ok_def Let_def)
    ultimately show ?thesis
      using calls[of b] by blast
  qed
  show ?thesis
  proof (cases a)
    case (SysErr e)
    then show ?thesis
      using left[of "tc_outputBuffer tc" 0] buf ne
      by (simp add: Buffer_writeFd_SysErr write_next_def)
  next
    case (SysNum m)
    show ?thesis
    proof (cases "0 \<le> m \<and> m \<le> int (length ?out)")
      case True
      then obtain b where wr: "Buffer_writeFd a (tc_outputBuffer tc) 0 = Inr (m, 0, b)"
          and b: "Buffer_inv b" "Buffer_contents b = drop (nat m) ?out"
        using Buffer_writeFd_ok[OF buf, of "nat m" 0] SysNum by (auto simp: nat_le_iff)
      have acc: "accepted (tc_socket tc) ?cs = take (nat m) ?out"
        using SysNum by simp
      have "Buffer_readableBytes b = length (Buffer_contents b)"
        using b(1) by (simp add: buffer_simps)
      then have next_: "write_next me C tc m b (?w2 b) =
          (if m = int (length ?out) then
             res_bind (Channel_interest me DisableWriting (tc_channel tc) (?w2 b)) (\<lambda>w3.
             res_bind (queue_write_complete me tc C w3) (\<lambda>w4.
               if tc_state tc = kDisconnecting then TcpConnection_shutdownInLoop me C w4 else Inr w4))
           else Inr (?w2 b))"
        using True ne b by (auto simp: write_next_def)
      show ?thesis
      proof (cases "m = int (length ?out)")
        case True
        then show ?thesis
          using write_drained[OF pl b(1) _ ne after calls] b acc wr next_ by simp
      next
        case False
        then have "nat m < length ?out"
          using \<open>0 \<le> m \<and> m \<le> int (length ?out)\<close> by linarith
        then show ?thesis
          using left[OF b _ acc] False wr next_ by simp
      qed
    next
      case False
      then show ?thesis
        using Buffer_writeFd_Kernel[OF buf, of m 0] SysNum by auto
    qed
  qed (simp_all add: Buffer_writeFd_def)
qed




text \<open>
  \<^verbatim>\<open>shutdown\<close> of a connected, ready connection in its loop thread: the connection becomes
  disconnecting, nothing is sent and nothing of the pending output is lost, and the write side is
  shut down at once exactly when no output is pending (otherwise \<^verbatim>\<open>handleWrite\<close> does it).
\<close>

theorem conn_shutdown_waits:
  assumes ready: "conn_ready me C w" and tc: "conns w C = Some tc" and st: "tc_state tc = kConnected"
  shows "case TcpConnection_shutdown me C w of
      Inl e \<Rightarrow> external e
    | Inr w' \<Rightarrow> conns w' C = Some (tc\<lparr>tc_state := kDisconnecting\<rparr>) \<and> conn_ready me C w' \<and>
        (\<exists>cs. os_calls cs w w' \<and> accepted (tc_socket tc) cs = [] \<and>
          (CallShutdownWrite (tc_socket tc) \<in> fst ` set cs \<longleftrightarrow> pending C w = []))"
proof -
  let ?tc = "tc\<lparr>tc_state := kDisconnecting\<rparr>"
  let ?w = "conn_put C ?tc w"
  obtain el r where pl: "plugged me C tc el (r, pending C w \<noteq> []) w" and buf: "Buffer_inv (tc_outputBuffer tc)"
    using ready tc by (rule ready_plugged)
  have pl1: "plugged me C ?tc el (r, pending C w \<noteq> []) ?w"
    using plugged_put[OF pl, of ?tc] by simp
  have ok: "conns v C = Some ?tc \<and> conn_ready me C v" if "plugged me C ?tc el (r, pending C w \<noteq> []) v" for v
    using that pluggedD(1)[OF that] plugged_ready[of me C ?tc el r v] plugged_pending(1)[OF pl] buf by simp
  have "TcpConnection_shutdown me C w = TcpConnection_shutdownInLoop me C ?w"
    using tc st pl by (auto simp: TcpConnection_shutdown_def TcpConnection_setState_def conn_mod_def
        EventLoop_runInLoop_def EventLoop_isInLoopThread_def plugged_def)
  moreover have "os_calls cs ?w v \<Longrightarrow> os_calls cs w v" for cs v
    by (simp add: os_calls_def)
  ultimately show ?thesis
    using shutdownInLoop_plugged[OF pl1] ok ok[OF pl1] os_calls_refl[of ?w]
    by (cases "pending C w = []") (fastforce split: sum.splits)+
qed

theorem conn_shutdown_waits_witness:
  "let w = wired_demo kConnected (True, True) ''i'' [] in
   case TcpConnection_shutdown 9 2 w of
     Inl e \<Rightarrow> False
   | Inr w' \<Rightarrow> conn_ready 9 2 w' \<and>
       (\<exists>cs. os_calls cs w w' \<and> accepted 8 cs = [] \<and> CallShutdownWrite 8 \<notin> fst ` set cs)"
proof -
  let ?w = "wired_demo kConnected (True, True) ''i'' []"
  have "case TcpConnection_shutdown 9 2 ?w of Inl e \<Rightarrow> False | Inr w' \<Rightarrow> True"
    by (simp add: wired_demo_def wired_tc_def wired_poller_def conn_demo_defs conn_run_defs lt_mask_def)
  moreover have "conn_ready 9 2 ?w"
    using wired_demo_ready(1)[of "''i''" kConnected "[]"] by (simp add: max_size_def)
  moreover have "pending 2 ?w \<noteq> []" and "tc_socket (wired_tc kConnected ''i'') = 8"
    by (simp_all add: pending_def wired_demo_def wired_tc_def conn_demo_tc_def Buffer_contents_def segment_def)
  ultimately show ?thesis
    using conn_shutdown_waits[of 9 2 ?w "wired_tc kConnected ''i''"]
    by (auto simp: wired_demo_ready(2) max_size_def wired_tc_def split: sum.splits)
qed





text \<open>
  A connection that was shut down but whose peer has not closed yet cannot be destroyed: in state
  disconnecting \<^verbatim>\<open>connectDestroyed\<close> does not disable the channel, which still waits for input, and
  \<^verbatim>\<open>Channel::remove\<close> fails its assertion. (\<^verbatim>\<open>~TcpServer\<close> calls it on every connection it has.)
\<close>

theorem conn_destroy_disconnecting:
  assumes "plugged me C tc el p w" and "tc_state tc = kDisconnecting" and "p \<noteq> (False, False)"
  shows "TcpConnection_connectDestroyed run_ev me C w = Inl (AssertFail ''isNoneEvent()'')"
  using assms(2,3) pluggedD[OF assms(1)] lt_mask_zero[of p]
  by (auto simp: TcpConnection_connectDestroyed_def Channel_remove_def Channel_isNoneEvent_def)

theorem conn_destroy_disconnecting_witness:
  "TcpConnection_connectDestroyed (\<lambda>ev D. Inr) 9 2 (wired_demo kDisconnecting (True, False) [] []) =
     Inl (AssertFail ''isNoneEvent()'')"
  by (rule conn_destroy_disconnecting[OF wired_demo_plugged[of _ False]]) (simp_all add: wired_tc_def)

end
