(* ===== verification/Acceptor.thy ===== *)
theory Acceptor
  imports Tcp_Connection
begin

text \<open>
  \<^verbatim>\<open>Acceptor\<close> (\<^verbatim>\<open>twnl/Acceptor.h\<close>, \<^verbatim>\<open>twnl/Acceptor.cc\<close>): the listening socket of a server with its channel, and
  the spare descriptor it gives up when the process has no descriptors left. Acceptors live on
  the heap \<open>acceptors\<close>. The callback for a new connection is bound to the server at the stored
  address; what it does is the argument \<open>run_new\<close>.
\<close>

record acceptor =
  ac_loop :: ptr
  ac_acceptSocket :: int
  ac_acceptChannel :: ptr
  ac_newConnectionCallback :: "ptr option"
  ac_listenning :: bool
  ac_idleFd :: int

record acc_world = conn_world +
  acceptors :: "ptr \<Rightarrow> acceptor option"

definition acceptor_get :: "ptr \<Rightarrow> 'z acc_world_scheme \<Rightarrow> acceptor res" where
  "acceptor_get A w =
     (case acceptors w A of
        None \<Rightarrow> Inl (Undefined ''use of a destroyed Acceptor'')
      | Some ac \<Rightarrow> Inr ac)"

definition acceptor_put :: "ptr \<Rightarrow> acceptor \<Rightarrow> 'z acc_world_scheme \<Rightarrow> 'z acc_world_scheme" where
  "acceptor_put A ac w = w\<lparr>acceptors := (acceptors w)(A := Some ac)\<rparr>"

text \<open>\<^verbatim>\<open>::open("/dev/null")\<close>: a descriptor, or -1.\<close>

definition open_dev_null :: "'z os_scheme \<Rightarrow> (int \<times> 'z os_scheme) res" where
  "open_dev_null w = res_bind (sys_int CallOpenDevNull w) (\<lambda>(fd, e, w'). Inr (fd, w'))"

definition Acceptor_new ::
    "ptr \<Rightarrow> ptr \<Rightarrow> ptr \<Rightarrow> inet_address \<Rightarrow> bool \<Rightarrow> 'z acc_world_scheme \<Rightarrow> 'z acc_world_scheme res" where
  "Acceptor_new A ch L listenAddr reuseport w =
     res_bind (sockets_createNonblockingOrDie (InetAddress_family listenAddr) w) (\<lambda>(sockfd, w1).
     let w2 = chan_put ch (Channel_new L sockfd) w1 in
     res_bind (open_dev_null w2) (\<lambda>(idleFd, w3).
     res_bind (Socket_setReuseAddr True sockfd w3) (\<lambda>w4.
     res_bind (Socket_setReusePort reuseport sockfd w4) (\<lambda>w5.
     res_bind (Socket_bindAddress sockfd listenAddr w5) (\<lambda>w6.
     res_bind (chan_get ch w6) (\<lambda>c.
       Inr (acceptor_put A
         \<lparr>ac_loop = L, ac_acceptSocket = sockfd, ac_acceptChannel = ch,
          ac_newConnectionCallback = None, ac_listenning = False, ac_idleFd = idleFd\<rparr>
         (chan_put ch (Channel_setReadCallback (CbAcceptorRead A) c) w6))))))))"

text \<open>The implicit destructor: the channel, then the socket.\<close>

definition Acceptor_dtor :: "ptr \<Rightarrow> 'z acc_world_scheme \<Rightarrow> 'z acc_world_scheme res" where
  "Acceptor_dtor A w =
     res_bind (acceptor_get A w) (\<lambda>ac.
     res_bind (chan_delete (ac_acceptChannel ac) w) (\<lambda>w1.
     res_bind (Socket_dtor (ac_acceptSocket ac) w1) (\<lambda>w2.
       Inr (w2\<lparr>acceptors := (acceptors w2)(A := None)\<rparr>))))"

definition Acceptor_setNewConnectionCallback ::
    "ptr \<Rightarrow> ptr \<Rightarrow> 'z acc_world_scheme \<Rightarrow> 'z acc_world_scheme res" where
  "Acceptor_setNewConnectionCallback server A w =
     res_bind (acceptor_get A w) (\<lambda>ac.
       Inr (acceptor_put A (ac\<lparr>ac_newConnectionCallback := Some server\<rparr>) w))"

definition Acceptor_listen :: "nat \<Rightarrow> ptr \<Rightarrow> 'z acc_world_scheme \<Rightarrow> 'z acc_world_scheme res" where
  "Acceptor_listen me A w =
     res_bind (acceptor_get A w) (\<lambda>ac.
     res_bind (EventLoop_assertInLoopThread me (ac_loop ac) w) (\<lambda>_.
     let w1 = acceptor_put A (ac\<lparr>ac_listenning := True\<rparr>) w in
     res_bind (Socket_listen (ac_acceptSocket ac) w1) (\<lambda>w2.
       Channel_interest me EnableReading (ac_acceptChannel ac) w2)))"

text \<open>
  Out of descriptors: close the spare one, accept the connection with it, close that, and open the
  spare one again. The results of these calls are not tested.
\<close>

definition Acceptor_discard :: "ptr \<Rightarrow> acceptor \<Rightarrow> 'z acc_world_scheme \<Rightarrow> 'z acc_world_scheme res" where
  "Acceptor_discard A ac w =
     res_bind (sys_int (CallClose (ac_idleFd ac)) w) (\<lambda>(r1, e1, w1).
     res_bind (sys_int (CallAccept (ac_acceptSocket ac)) w1) (\<lambda>(fd, e2, w2).
     res_bind (sys_int (CallClose fd) w2) (\<lambda>(r3, e3, w3).
     res_bind (open_dev_null w3) (\<lambda>(idleFd, w4).
       Inr (acceptor_put A (ac\<lparr>ac_idleFd := idleFd\<rparr>) w4)))))"

definition Acceptor_handleRead ::
    "(ptr \<Rightarrow> int \<Rightarrow> inet_address \<Rightarrow> 'z acc_world_scheme \<Rightarrow> 'z acc_world_scheme res) \<Rightarrow>
     nat \<Rightarrow> ptr \<Rightarrow> 'z acc_world_scheme \<Rightarrow> 'z acc_world_scheme res" where
  "Acceptor_handleRead run_new me A w =
     res_bind (acceptor_get A w) (\<lambda>ac.
     res_bind (EventLoop_assertInLoopThread me (ac_loop ac) w) (\<lambda>_.
     res_bind (Socket_accept (ac_acceptSocket ac) (InetAddress_port zero_address 0 False False) w) (\<lambda>(connfd, errno, peerAddr, w1).
       if 0 \<le> connfd
       then (case ac_newConnectionCallback ac of
               Some S \<Rightarrow> run_new S connfd peerAddr w1
             | None \<Rightarrow> sockets_close connfd w1)
       else if errno = EMFILE then Acceptor_discard A ac w1
       else Inr w1)))"

end
