(* ===== verification/Connector.thy ===== *)
theory Connector
  imports Acceptor
begin

text \<open>
  \<^verbatim>\<open>Connector\<close> (\<^verbatim>\<open>twnl/Connector.h\<close>, \<^verbatim>\<open>twnl/Connector.cc\<close>): the state machine that opens a connection to a
  server, with a growing delay between attempts. Connectors live on the heap \<open>connectors\<close>. The
  addresses of the channel and of the timer a step may allocate are its arguments \<open>ch\<close> and \<open>tm\<close>;
  \<open>run_new\<close> is what the client's \<^verbatim>\<open>newConnection\<close> does. \<^verbatim>\<open>timer_\<close> is not initialised by the constructor: it
  is \<open>None\<close> until the first retry, and using it before is \<open>Undefined\<close>.
\<close>

datatype connector_state = ckDisconnected | ckConnecting | ckConnected

record connector =
  co_loop :: ptr
  co_serverAddr :: inet_address
  co_connect :: bool
  co_state :: connector_state
  co_channel :: "ptr option"
  co_newConnectionCallback :: "ptr option"
  co_retryDelayMs :: int
  co_timer :: "ptr option"

record con_world = acc_world +
  connectors :: "ptr \<Rightarrow> connector option"

definition kMaxRetryDelayMs :: int where "kMaxRetryDelayMs = 30 * 1000"
definition kInitRetryDelayMs :: int where "kInitRetryDelayMs = 50"

definition EINPROGRESS :: int where "EINPROGRESS = 115"
definition EISCONN :: int where "EISCONN = 106"
definition EADDRINUSE :: int where "EADDRINUSE = 98"
definition EADDRNOTAVAIL :: int where "EADDRNOTAVAIL = 99"
definition ECONNREFUSED :: int where "ECONNREFUSED = 111"
definition ENETUNREACH :: int where "ENETUNREACH = 101"

lemmas connect_errno_defs =
  EINPROGRESS_def EISCONN_def EADDRINUSE_def EADDRNOTAVAIL_def ECONNREFUSED_def ENETUNREACH_def

definition connector_get :: "ptr \<Rightarrow> 'z con_world_scheme \<Rightarrow> connector res" where
  "connector_get K w =
     (case connectors w K of
        None \<Rightarrow> Inl (Undefined ''use of a destroyed Connector'')
      | Some co \<Rightarrow> Inr co)"

definition connector_put :: "ptr \<Rightarrow> connector \<Rightarrow> 'z con_world_scheme \<Rightarrow> 'z con_world_scheme" where
  "connector_put K co w = w\<lparr>connectors := (connectors w)(K := Some co)\<rparr>"

definition connector_mod ::
    "ptr \<Rightarrow> (connector \<Rightarrow> connector) \<Rightarrow> 'z con_world_scheme \<Rightarrow> 'z con_world_scheme res" where
  "connector_mod K f w = res_bind (connector_get K w) (\<lambda>co. Inr (connector_put K (f co) w))"

definition Connector_new :: "ptr \<Rightarrow> ptr \<Rightarrow> inet_address \<Rightarrow> 'z con_world_scheme \<Rightarrow> 'z con_world_scheme" where
  "Connector_new K L serverAddr w =
     connector_put K
       \<lparr>co_loop = L, co_serverAddr = serverAddr, co_connect = False, co_state = ckDisconnected,
        co_channel = None, co_newConnectionCallback = None, co_retryDelayMs = kInitRetryDelayMs,
        co_timer = None\<rparr> w"

definition Connector_setNewConnectionCallback ::
    "ptr \<Rightarrow> ptr \<Rightarrow> 'z con_world_scheme \<Rightarrow> 'z con_world_scheme res" where
  "Connector_setNewConnectionCallback client K w =
     connector_mod K (\<lambda>co. co\<lparr>co_newConnectionCallback := Some client\<rparr>) w"

definition Connector_setState ::
    "connector_state \<Rightarrow> ptr \<Rightarrow> 'z con_world_scheme \<Rightarrow> 'z con_world_scheme res" where
  "Connector_setState s K w = connector_mod K (\<lambda>co. co\<lparr>co_state := s\<rparr>) w"

definition Connector_cancel :: "nat \<Rightarrow> connector \<Rightarrow> 'z con_world_scheme \<Rightarrow> 'z con_world_scheme res" where
  "Connector_cancel me co w =
     (case co_timer co of
        None \<Rightarrow> Inl (Undefined ''use of the uninitialised timer_'')
      | Some t \<Rightarrow> EventLoop_cancelTimer me (co_loop co) t w)"

definition Connector_dtor :: "nat \<Rightarrow> ptr \<Rightarrow> 'z con_world_scheme \<Rightarrow> 'z con_world_scheme res" where
  "Connector_dtor me K w =
     res_bind (connector_get K w) (\<lambda>co.
     res_bind (Connector_cancel me co w) (\<lambda>w1.
     res_bind (cassert (co_channel co = None) ''!channel_'') (\<lambda>_.
       Inr (w1\<lparr>connectors := (connectors w1)(K := None)\<rparr>))))"

definition Connector_connecting ::
    "nat \<Rightarrow> ptr \<Rightarrow> int \<Rightarrow> ptr \<Rightarrow> 'z con_world_scheme \<Rightarrow> 'z con_world_scheme res" where
  "Connector_connecting me ch sockfd K w =
     res_bind (Connector_setState ckConnecting K w) (\<lambda>w1.
     res_bind (connector_get K w1) (\<lambda>co.
     res_bind (cassert (co_channel co = None) ''!channel_'') (\<lambda>_.
     let c = Channel_setErrorCallback (CbConnectorError K)
               (Channel_setWriteCallback (CbConnectorWrite K) (Channel_new (co_loop co) sockfd));
         w2 = connector_put K (co\<lparr>co_channel := Some ch\<rparr>) (chan_put ch c w1) in
     Channel_interest me EnableWriting ch w2)))"

definition Connector_retry ::
    "nat \<Rightarrow> ptr \<Rightarrow> int \<Rightarrow> ptr \<Rightarrow> 'z con_world_scheme \<Rightarrow> 'z con_world_scheme res" where
  "Connector_retry me tm sockfd K w =
     res_bind (sockets_close sockfd w) (\<lambda>w1.
     res_bind (Connector_setState ckDisconnected K w1) (\<lambda>w2.
     res_bind (connector_get K w2) (\<lambda>co.
       if co_connect co
       then res_bind (EventLoop_runAfter me (co_loop co) tm (co_retryDelayMs co * 1000000)
                       (Some (TmConnectorStart K)) w2) (\<lambda>(timer, w3).
            connector_mod K (\<lambda>co. co\<lparr>co_timer := Some timer,
              co_retryDelayMs := min (co_retryDelayMs co * 2) kMaxRetryDelayMs\<rparr>) w3)
       else Inr w2)))"

definition Connector_connect ::
    "nat \<Rightarrow> ptr \<Rightarrow> ptr \<Rightarrow> ptr \<Rightarrow> 'z con_world_scheme \<Rightarrow> 'z con_world_scheme res" where
  "Connector_connect me ch tm K w =
     res_bind (connector_get K w) (\<lambda>co.
     res_bind (sockets_createNonblockingOrDie (InetAddress_family (co_serverAddr co)) w) (\<lambda>(sockfd, w1).
     res_bind (sockets_connect sockfd (co_serverAddr co) w1) (\<lambda>(ret, errno, w2).
     let savedErrno = (if ret = 0 then 0 else errno) in
     if savedErrno \<in> {0, EINPROGRESS, EINTR, EISCONN} then Connector_connecting me ch sockfd K w2
     else if savedErrno \<in> {EAGAIN, EADDRINUSE, EADDRNOTAVAIL, ECONNREFUSED, ENETUNREACH}
     then Connector_retry me tm sockfd K w2
     else sockets_close sockfd w2)))"

definition Connector_startInLoop ::
    "nat \<Rightarrow> ptr \<Rightarrow> ptr \<Rightarrow> ptr \<Rightarrow> 'z con_world_scheme \<Rightarrow> 'z con_world_scheme res" where
  "Connector_startInLoop me ch tm K w =
     res_bind (connector_get K w) (\<lambda>co.
     res_bind (EventLoop_assertInLoopThread me (co_loop co) w) (\<lambda>_.
     res_bind (cassert (co_state co = ckDisconnected) ''state_ == kDisconnected'') (\<lambda>_.
       if co_connect co then Connector_connect me ch tm K w else Inr w)))"

definition Connector_start ::
    "nat \<Rightarrow> ptr \<Rightarrow> ptr \<Rightarrow> ptr \<Rightarrow> 'z con_world_scheme \<Rightarrow> 'z con_world_scheme res" where
  "Connector_start me ch tm K w =
     res_bind (connector_get K w) (\<lambda>co.
       EventLoop_runInLoop me (co_loop co) (FConnectorStart K) (Connector_startInLoop me ch tm K)
         (connector_put K (co\<lparr>co_connect := True\<rparr>) w))"

definition Connector_restart ::
    "nat \<Rightarrow> ptr \<Rightarrow> ptr \<Rightarrow> ptr \<Rightarrow> 'z con_world_scheme \<Rightarrow> 'z con_world_scheme res" where
  "Connector_restart me ch tm K w =
     res_bind (connector_get K w) (\<lambda>co.
     res_bind (EventLoop_assertInLoopThread me (co_loop co) w) (\<lambda>_.
       Connector_startInLoop me ch tm K
         (connector_put K (co\<lparr>co_state := ckDisconnected, co_retryDelayMs := kInitRetryDelayMs,
                              co_connect := True\<rparr>) w)))"

definition Connector_stop :: "nat \<Rightarrow> ptr \<Rightarrow> 'z con_world_scheme \<Rightarrow> 'z con_world_scheme res" where
  "Connector_stop me K w =
     res_bind (connector_mod K (\<lambda>co. co\<lparr>co_connect := False\<rparr>) w) (\<lambda>w1.
     res_bind (connector_get K w1) (\<lambda>co. Connector_cancel me co w1))"

definition Connector_removeAndResetChannel ::
    "nat \<Rightarrow> ptr \<Rightarrow> 'z con_world_scheme \<Rightarrow> (int \<times> 'z con_world_scheme) res" where
  "Connector_removeAndResetChannel me K w =
     res_bind (connector_get K w) (\<lambda>co.
       case co_channel co of
         None \<Rightarrow> Inl (Undefined ''use of the null channel_'')
       | Some ch \<Rightarrow>
           res_bind (Channel_interest me DisableAll ch w) (\<lambda>w1.
           res_bind (EventLoop_removeChannel me (co_loop co) ch w1) (\<lambda>w2.
           res_bind (chan_get ch w2) (\<lambda>c.
           res_bind (EventLoop_queueInLoop me (co_loop co) (FConnectorReset K) w2) (\<lambda>w3.
             Inr (ch_fd c, w3))))))"

definition Connector_resetChannel :: "ptr \<Rightarrow> 'z con_world_scheme \<Rightarrow> 'z con_world_scheme res" where
  "Connector_resetChannel K w =
     res_bind (connector_get K w) (\<lambda>co.
       case co_channel co of
         None \<Rightarrow> Inr w
       | Some ch \<Rightarrow>
           res_bind (chan_delete ch w) (\<lambda>w1. Inr (connector_put K (co\<lparr>co_channel := None\<rparr>) w1)))"

definition Connector_handleWrite ::
    "(ptr \<Rightarrow> int \<Rightarrow> 'z con_world_scheme \<Rightarrow> 'z con_world_scheme res) \<Rightarrow> nat \<Rightarrow> ptr \<Rightarrow> ptr \<Rightarrow>
     'z con_world_scheme \<Rightarrow> 'z con_world_scheme res" where
  "Connector_handleWrite run_new me tm K w =
     res_bind (connector_get K w) (\<lambda>co.
     if co_state co = ckConnecting
     then res_bind (Connector_removeAndResetChannel me K w) (\<lambda>(sockfd, w1).
          res_bind (sockets_getSocketError sockfd w1) (\<lambda>(err, w2).
          if err \<noteq> 0 then Connector_retry me tm sockfd K w2
          else if sockets_isSelfConnect_fd sockfd w2 then Connector_retry me tm sockfd K w2
          else res_bind (Connector_setState ckConnected K w2) (\<lambda>w3.
               res_bind (connector_get K w3) (\<lambda>co3.
               if co_connect co3
               then (case co_newConnectionCallback co3 of
                       None \<Rightarrow> Inl BadFunctionCall
                     | Some client \<Rightarrow> run_new client sockfd w3)
               else sockets_close sockfd w3))))
     else res_bind (cassert (co_state co = ckDisconnected) ''state_ == kDisconnected'') (\<lambda>_. Inr w))"

definition Connector_handleError ::
    "nat \<Rightarrow> ptr \<Rightarrow> ptr \<Rightarrow> 'z con_world_scheme \<Rightarrow> 'z con_world_scheme res" where
  "Connector_handleError me tm K w =
     res_bind (connector_get K w) (\<lambda>co.
     res_bind (cassert (co_state co = ckConnecting) ''state_ == kConnecting'') (\<lambda>_.
     res_bind (Connector_removeAndResetChannel me K w) (\<lambda>(sockfd, w1).
     res_bind (sockets_getSocketError sockfd w1) (\<lambda>(err, w2).
       Connector_retry me tm sockfd K w2))))"

end
