(* ===== verification/Connector_Laws.thy ===== *)
theory Connector_Laws
  imports Connector Conn_Laws
begin

text \<open>
  Properties of \<^verbatim>\<open>Connector\<close>: the invariant of its state machine under every order of its handlers, and
  when a failed attempt is tried again. The interface \<open>world_view\<close> states what a component above the
  event loop relies on: the operations of the loop, of its channels and of its timers leave the
  component's own part of the state alone.
\<close>

section \<open>What the loop leaves to its clients\<close>

locale world_view =
  fixes view :: "'z world_scheme \<Rightarrow> 'v"
  assumes view_more: "world.more w' = world.more w \<Longrightarrow> view w' = view w"
begin

lemma view_put [simp]: "view (chan_put p c w) = view w" "view (loop_put L el w) = view w"
    "view (timer_put t tm w) = view w"
  by (rule view_more, simp add: timer_put_def)+

lemma view_chans [simp]: "view (w\<lparr>chans := cs\<rparr>) = view w" "view (w\<lparr>timers := ts\<rparr>) = view w"
  by (rule view_more, simp)+

lemma view_os_step: "os_step w w' \<Longrightarrow> view w' = view w"
  by (rule view_more) (rule os_step_world)

lemma view_interest: "Channel_interest me i p w = Inr w' \<Longrightarrow> view w' = view w"
  by (rule view_more) (rule Channel_interest_more)

lemma view_queue: "EventLoop_queueInLoop me L f w = Inr w' \<Longrightarrow> view w' = view w"
  by (rule view_more) (auto dest: EventLoop_queueInLoop_Inr)

lemma view_removeChannel: "EventLoop_removeChannel me L p w = Inr w' \<Longrightarrow> view w' = view w"
proof -
  assume "EventLoop_removeChannel me L p w = Inr w'"
  then obtain el po w1 where up: "Poller_removeChannel (EventLoop_isInLoopThread me el) p (el_poller el, w) = Inr (po, w1)"
    and w': "w' = loop_put L (el\<lparr>el_poller := po\<rparr>) w1"
    by (auto simp: EventLoop_removeChannel_def res_bind_eq_Inr)
  have "hworld.more w1 = hworld.more w"
    using Poller_remove_same[OF up] by (simp add: same_chans_def)
  from view_more[OF hworld_more_world(4)[OF this]] show ?thesis
    by (simp add: w')
qed

lemma view_chan_delete: "chan_delete p w = Inr w' \<Longrightarrow> view w' = view w"
  by (auto simp: chan_delete_def res_bind_eq_Inr)

lemma view_close: "sockets_close fd w = Inr w' \<Longrightarrow> view w' = view w"
  by (auto simp: sockets_close_def res_bind_eq_Inr dest!: sys_int_os_step intro: view_os_step)

lemma view_runInLoop:
  "(body w = Inr w' \<Longrightarrow> view w' = view w) \<Longrightarrow> EventLoop_runInLoop me L f body w = Inr w' \<Longrightarrow> view w' = view w"
  by (auto simp: EventLoop_runInLoop_def res_bind_eq_Inr split: if_splits dest: view_queue)

lemma view_addInLoop: "TimerQueue_addInLoop L wh t w = Inr w' \<Longrightarrow> view w' = view w"
  using TimerQueue_arm_Inr[of L wh "loop_put L _ w" w']
  by (auto simp: TimerQueue_addInLoop_def res_bind_eq_Inr Let_def case_prod_beta split: if_splits
      intro!: view_more)

lemma view_cancelInLoop: "TimerQueue_cancelInLoop L t w = Inr w' \<Longrightarrow> view w' = view w"
  by (auto simp: TimerQueue_cancelInLoop_def res_bind_eq_Inr loop_mod_def)

lemma view_addTimer: "TimerQueue_addTimer me L t cb wh iv w = Inr (t', w') \<Longrightarrow> view w' = view w"
proof -
  assume "TimerQueue_addTimer me L t cb wh iv w = Inr (t', w')"
  then have "EventLoop_runInLoop me L (FAddTimer L wh t) (TimerQueue_addInLoop L wh t)
      (timer_put t (Timer_new cb wh iv) w) = Inr w'"
    by (auto simp: TimerQueue_addTimer_def res_bind_eq_Inr split: if_splits)
  from view_runInLoop[OF view_addInLoop this] show ?thesis
    by simp
qed

lemma view_runAfter: "EventLoop_runAfter me L t iv cb w = Inr (t', w') \<Longrightarrow> view w' = view w"
  by (auto simp: EventLoop_runAfter_def EventLoop_runAt_def res_bind_eq_Inr
      dest!: clock_now_os_step view_os_step view_addTimer)

lemma view_cancelTimer: "EventLoop_cancelTimer me L t w = Inr w' \<Longrightarrow> view w' = view w"
  unfolding EventLoop_cancelTimer_def TimerQueue_cancelTimer_def
  by (erule view_runInLoop[rotated]) (rule view_cancelInLoop)

end

lemma world_more_con:
  assumes "world.more w' = world.more w"
  shows "connectors w' = connectors w"
  using assms by (cases w; cases w') simp

interpretation the_connectors: world_view connectors
  by unfold_locales (rule world_more_con)


section \<open>What each operation does to the connector\<close>

lemma connector_get_Inr [simp]: "connector_get K w = Inr co \<longleftrightarrow> connectors w K = Some co"
  by (simp add: connector_get_def split: option.splits)

lemma connector_put_simps [simp]:
  "connectors (connector_put K co w) = (connectors w)(K := Some co)"
  "loops (connector_put K co w) = loops w" "timers (connector_put K co w) = timers w"
  "chans (connector_put K co w) = chans w" "tape (connector_put K co w) = tape w"
  by (simp_all add: connector_put_def)

lemma connector_mod_Inr [simp]:
  "connector_mod K f w = Inr w' \<longleftrightarrow> (\<exists>co. connectors w K = Some co \<and> w' = connector_put K (f co) w)"
  by (auto simp: connector_mod_def res_bind_eq_Inr)

lemma connector_mod_Some [simp]:
  "connectors w K = Some co \<Longrightarrow> connector_mod K f w = Inr (connector_put K (f co) w)"
  by simp

lemma retry_cases:
  assumes "Connector_retry me tm fd K w = Inr w'"
  obtains w1 where "sockets_close fd w = Inr w1"
    and "\<exists>co. w' = connector_put K (co\<lparr>co_state := ckDisconnected\<rparr>) w1 \<or>
      (\<exists>t w3. EventLoop_runAfter me (co_loop co) tm (co_retryDelayMs co * 1000000)
         (Some (TmConnectorStart K)) (connector_put K (co\<lparr>co_state := ckDisconnected\<rparr>) w1) = Inr (t, w3) \<and>
       (\<exists>co3. w' = connector_put K co3 w3))"
  using assms by (auto simp: Connector_retry_def Connector_setState_def res_bind_eq_Inr split: if_splits) blast+

text \<open>
  A component above the connector relies on more: the connector's own members are all it changes.
\<close>

locale connector_view = world_view view for view :: "'z con_world_scheme \<Rightarrow> 'v" +
  assumes view_connector [simp]: "view (connector_put K co w) = view w"
begin

lemma view_retry: "Connector_retry me tm fd K w = Inr w' \<Longrightarrow> view w' = view w"
  by (erule retry_cases) (auto dest!: view_runAfter view_close)

lemma view_connecting: "Connector_connecting me ch fd K w = Inr w' \<Longrightarrow> view w' = view w"
  by (auto simp: Connector_connecting_def Connector_setState_def res_bind_eq_Inr Let_def dest!: view_interest)

lemma view_connect: "Connector_connect me ch tm K w = Inr w' \<Longrightarrow> view w' = view w"
  by (auto simp: Connector_connect_def sockets_createNonblockingOrDie_def sockets_connect_def
      res_bind_eq_Inr Let_def split: if_splits
      dest!: view_connecting view_retry view_close sys_int_os_step view_os_step)

lemma view_startInLoop: "Connector_startInLoop me ch tm K w = Inr w' \<Longrightarrow> view w' = view w"
  by (auto simp: Connector_startInLoop_def res_bind_eq_Inr split: if_splits dest!: view_connect)

end

lemmas connector_frame =
  the_connectors.view_close the_connectors.view_interest the_connectors.view_queue
  the_connectors.view_removeChannel the_connectors.view_chan_delete the_connectors.view_runAfter
  the_connectors.view_cancelTimer the_connectors.view_os_step

text \<open>The connector after a failed attempt, when timer \<open>t\<close> was set for the next one.\<close>

definition backed_off :: "ptr \<Rightarrow> connector \<Rightarrow> connector" where
  "backed_off t co =
     co\<lparr>co_state := ckDisconnected, co_timer := Some t,
        co_retryDelayMs := min (co_retryDelayMs co * 2) kMaxRetryDelayMs\<rparr>"

lemma retry_effect:
  assumes "Connector_retry me tm fd K w = Inr w'" and "connectors w K = Some co"
  shows "connectors w' K =
     Some (if co_connect co then backed_off tm co else co\<lparr>co_state := ckDisconnected\<rparr>)"
proof (cases "co_connect co")
  case True
  then obtain w1 t w3 where close: "sockets_close fd w = Inr w1"
    and after: "EventLoop_runAfter me (co_loop co) tm (co_retryDelayMs co * 1000000)
        (Some (TmConnectorStart K)) (connector_put K (co\<lparr>co_state := ckDisconnected\<rparr>) w1) = Inr (t, w3)"
    and w': "connector_mod K (\<lambda>co. co\<lparr>co_timer := Some t,
        co_retryDelayMs := min (co_retryDelayMs co * 2) kMaxRetryDelayMs\<rparr>) w3 = Inr w'"
    using assms the_connectors.view_close[of fd w]
    by (fastforce simp: Connector_retry_def Connector_setState_def res_bind_eq_Inr)
  have "t = tm"
    using after by (auto simp: EventLoop_runAfter_def EventLoop_runAt_def TimerQueue_addTimer_def
        res_bind_eq_Inr split: if_splits)
  then show ?thesis
    using True w' the_connectors.view_runAfter[OF after] by (auto simp: backed_off_def)
next
  case False
  then show ?thesis
    using assms the_connectors.view_close[of fd w]
    by (fastforce simp: Connector_retry_def Connector_setState_def res_bind_eq_Inr)
qed

lemma connecting_effect:
  assumes "Connector_connecting me ch fd K w = Inr w'" and "connectors w K = Some co"
  shows "co_channel co = None \<and>
     connectors w' K = Some (co\<lparr>co_state := ckConnecting, co_channel := Some ch\<rparr>)"
  using assms
  by (auto simp: Connector_connecting_def Connector_setState_def res_bind_eq_Inr Let_def
      dest!: connector_frame)

lemma remove_effect:
  assumes "Connector_removeAndResetChannel me K w = Inr (fd, w')" and "connectors w K = Some co"
  shows "co_channel co \<noteq> None \<and> connectors w' K = Some co"
  using assms
  by (auto simp: Connector_removeAndResetChannel_def res_bind_eq_Inr split: option.splits
      dest!: connector_frame)

text \<open>The outcomes of \<^verbatim>\<open>connect()\<close>: the connection is under way, the next attempt is set, or neither.\<close>

definition attempted :: "ptr \<Rightarrow> ptr \<Rightarrow> connector \<Rightarrow> connector set" where
  "attempted ch tm co =
     {co, if co_connect co then backed_off tm co else co\<lparr>co_state := ckDisconnected\<rparr>} \<union>
     (if co_channel co = None then {co\<lparr>co_state := ckConnecting, co_channel := Some ch\<rparr>} else {})"

lemma connect_effect:
  assumes "Connector_connect me ch tm K w = Inr w'" and co: "connectors w K = Some co"
  shows "\<exists>co' \<in> attempted ch tm co. connectors w' K = Some co'"
proof -
  obtain fd w1 r e w2 where calls: "sockets_createNonblockingOrDie (InetAddress_family (co_serverAddr co)) w = Inr (fd, w1)"
      "sockets_connect fd (co_serverAddr co) w1 = Inr (r, e, w2)"
    and then_: "Connector_connecting me ch fd K w2 = Inr w' \<or> Connector_retry me tm fd K w2 = Inr w' \<or>
      sockets_close fd w2 = Inr w'"
    using assms by (auto simp: Connector_connect_def res_bind_eq_Inr Let_def split: if_splits)
  have "os_step w w1" "os_step w1 w2"
    using calls by (auto simp: sockets_createNonblockingOrDie_def sockets_connect_def res_bind_eq_Inr
        split: if_splits dest: sys_int_os_step)
  then have w2: "connectors w2 K = Some co"
    using co the_connectors.view_os_step by metis
  show ?thesis
    using then_ connecting_effect[OF _ w2] retry_effect[OF _ w2] the_connectors.view_close[of fd w2 w'] w2
    by (elim disjE) (auto simp: attempted_def)
qed

lemma startInLoop_effect:
  assumes "Connector_startInLoop me ch tm K w = Inr w'" and "connectors w K = Some co"
  shows "co_state co = ckDisconnected \<and> (\<exists>co' \<in> attempted ch tm co. connectors w' K = Some co')"
  using assms connect_effect[of me ch tm K w w']
  by (auto simp: Connector_startInLoop_def res_bind_eq_Inr attempted_def split: if_splits)


section \<open>The state machine\<close>

text \<open>
  The entry points of a connector: its public members, the handlers of its channel, and the functor
  that \<^verbatim>\<open>removeAndResetChannel\<close> queues. The arguments are the addresses of a new channel and a new timer.
\<close>

datatype con_op =
    ConStart ptr ptr
  | ConStartInLoop ptr ptr
  | ConRestart ptr ptr
  | ConStop
  | ConWrite ptr
  | ConError ptr
  | ConReset

fun con_exec ::
    "(ptr \<Rightarrow> int \<Rightarrow> 'z con_world_scheme \<Rightarrow> 'z con_world_scheme res) \<Rightarrow> nat \<Rightarrow> ptr \<Rightarrow> con_op \<Rightarrow>
     'z con_world_scheme \<Rightarrow> 'z con_world_scheme res" where
  "con_exec run_new me K (ConStart ch tm) w = Connector_start me ch tm K w"
| "con_exec run_new me K (ConStartInLoop ch tm) w = Connector_startInLoop me ch tm K w"
| "con_exec run_new me K (ConRestart ch tm) w = Connector_restart me ch tm K w"
| "con_exec run_new me K ConStop w = Connector_stop me K w"
| "con_exec run_new me K (ConWrite tm) w = Connector_handleWrite run_new me tm K w"
| "con_exec run_new me K (ConError tm) w = Connector_handleError me tm K w"
| "con_exec run_new me K ConReset w = Connector_resetChannel K w"

text \<open>
  Whether a \<^verbatim>\<open>resetChannel\<close> is queued after an operation, when \<open>p\<close> says so before it; and the rules of the
  callers: the queue runs \<^verbatim>\<open>resetChannel\<close> only when it is queued, and \<^verbatim>\<open>TcpClient\<close> restarts only a connector
  whose connection was made.
\<close>

fun reset_queued :: "con_op \<Rightarrow> connector \<Rightarrow> bool \<Rightarrow> bool" where
  "reset_queued (ConWrite tm) co p = (p \<or> co_state co = ckConnecting)"
| "reset_queued (ConError tm) co p = True"
| "reset_queued ConReset co p = False"
| "reset_queued _ co p = p"

fun con_rule :: "con_op \<Rightarrow> connector \<Rightarrow> bool \<Rightarrow> bool" where
  "con_rule ConReset co p = p"
| "con_rule (ConRestart ch tm) co p = (co_state co = ckConnected)"
| "con_rule _ co p = True"

text \<open>
  The states a connector reaches: its operations in any order and between them anything that leaves
  its members alone.
\<close>

inductive con_reach ::
    "(ptr \<Rightarrow> int \<Rightarrow> 'z con_world_scheme \<Rightarrow> 'z con_world_scheme res) \<Rightarrow> nat \<Rightarrow> ptr \<Rightarrow> bool \<Rightarrow>
     'z con_world_scheme \<Rightarrow> bool"
  for run_new me K where
  made: "con_reach run_new me K False (Connector_new K L addr w)"
| other: "con_reach run_new me K p w \<Longrightarrow> connectors w' K = connectors w K \<Longrightarrow> con_reach run_new me K p w'"
| op: "con_reach run_new me K p w \<Longrightarrow> connectors w K = Some co \<Longrightarrow> con_rule op co p \<Longrightarrow>
     con_exec run_new me K op w = Inr w' \<Longrightarrow> con_reach run_new me K (reset_queued op co p) w'"

definition con_inv :: "bool \<Rightarrow> connector \<Rightarrow> bool" where
  "con_inv p co \<longleftrightarrow>
     (co_channel co \<noteq> None \<longleftrightarrow> p \<or> co_state co = ckConnecting) \<and>
     \<not> (p \<and> co_state co = ckConnecting) \<and>
     (\<exists>n. co_retryDelayMs co = min (kInitRetryDelayMs * 2 ^ n) kMaxRetryDelayMs)"

lemma backoff_step:
  "min (min (kInitRetryDelayMs * 2 ^ n) kMaxRetryDelayMs * 2) kMaxRetryDelayMs =
   min (kInitRetryDelayMs * 2 ^ Suc n) kMaxRetryDelayMs"
  by (simp add: min_def kMaxRetryDelayMs_def)

lemma backed_off_inv:
  assumes "\<exists>n. co_retryDelayMs co = min (kInitRetryDelayMs * 2 ^ n) kMaxRetryDelayMs"
  shows "\<exists>n. co_retryDelayMs (backed_off t co) = min (kInitRetryDelayMs * 2 ^ n) kMaxRetryDelayMs"
  using assms by (auto simp: backed_off_def backoff_step simp del: power_Suc intro: exI[of _ "Suc _"])

lemma attempted_inv:
  assumes "con_inv p co" and "co_state co = ckDisconnected" and "co' \<in> attempted ch tm co"
  shows "con_inv p co'"
  using assms backed_off_inv[of co tm]
  by (auto simp: con_inv_def attempted_def backed_off_def split: if_splits)

text \<open>The end of an attempt: the channel is taken out of the loop, and the descriptor is closed for a retry.\<close>

lemma ended_inv:
  assumes "con_inv p co" and "co_state co = ckConnecting"
  shows "con_inv True (if co_connect co then backed_off tm co else co\<lparr>co_state := ckDisconnected\<rparr>)"
    and "con_inv True (co\<lparr>co_state := ckConnected\<rparr>)"
  using assms backed_off_inv[of co tm] by (auto simp: con_inv_def backed_off_def)

lemma write_inv:
  assumes inv: "con_inv p co" and co: "connectors w K = Some co"
    and run: "Connector_handleWrite run_new me tm K w = Inr w'"
    and frame: "\<And>T fd v v'. run_new T fd v = Inr v' \<Longrightarrow> connectors v' K = connectors v K"
  shows "\<exists>co'. connectors w' K = Some co' \<and> con_inv (p \<or> co_state co = ckConnecting) co'"
proof (cases "co_state co = ckConnecting")
  case True
  obtain fd w1 err w2 where rem: "Connector_removeAndResetChannel me K w = Inr (fd, w1)"
    and err: "sockets_getSocketError fd w1 = Inr (err, w2)"
    and rest: "Connector_retry me tm fd K w2 = Inr w' \<or>
      (\<exists>w3 co3. Connector_setState ckConnected K w2 = Inr w3 \<and> connectors w3 K = Some co3 \<and>
         (sockets_close fd w3 = Inr w' \<or> (\<exists>T. run_new T fd w3 = Inr w')))"
    using run co True
    by (auto simp: Connector_handleWrite_def res_bind_eq_Inr split: if_splits option.splits) blast
  have "os_step w1 w2"
    using err by (auto simp: sockets_getSocketError_def res_bind_eq_Inr split: if_splits dest: sys_int_os_step)
  then have w2: "connectors w2 K = Some co"
    using remove_effect[OF rem co] the_connectors.view_os_step by metis
  show ?thesis
    using rest
  proof
    assume "Connector_retry me tm fd K w2 = Inr w'"
    from retry_effect[OF this w2] show ?thesis
      using ended_inv(1)[OF inv True, of tm] True by auto
  next
    assume "\<exists>w3 co3. Connector_setState ckConnected K w2 = Inr w3 \<and> connectors w3 K = Some co3 \<and>
         (sockets_close fd w3 = Inr w' \<or> (\<exists>T. run_new T fd w3 = Inr w'))"
    then obtain w3 where st: "Connector_setState ckConnected K w2 = Inr w3"
      and then_: "sockets_close fd w3 = Inr w' \<or> (\<exists>T. run_new T fd w3 = Inr w')"
      by blast
    have w3: "connectors w3 K = Some (co\<lparr>co_state := ckConnected\<rparr>)"
      using st w2 by (auto simp: Connector_setState_def)
    have "connectors w' K = connectors w3 K"
      using then_ the_connectors.view_close[of fd w3 w'] frame by auto
    then show ?thesis
      using w3 ended_inv(2)[OF inv True] True by auto
  qed
next
  case False
  then show ?thesis
    using run co inv by (auto simp: Connector_handleWrite_def res_bind_eq_Inr)
qed

lemma error_inv:
  assumes inv: "con_inv p co" and co: "connectors w K = Some co"
    and run: "Connector_handleError me tm K w = Inr w'"
  shows "\<exists>co'. connectors w' K = Some co' \<and> con_inv True co'"
proof -
  obtain fd w1 err w2 where st: "co_state co = ckConnecting"
    and rem: "Connector_removeAndResetChannel me K w = Inr (fd, w1)"
    and err: "sockets_getSocketError fd w1 = Inr (err, w2)" and retry: "Connector_retry me tm fd K w2 = Inr w'"
    using run co by (auto simp: Connector_handleError_def res_bind_eq_Inr)
  have "os_step w1 w2"
    using err by (auto simp: sockets_getSocketError_def res_bind_eq_Inr split: if_splits dest: sys_int_os_step)
  then have "connectors w2 K = Some co"
    using remove_effect[OF rem co] the_connectors.view_os_step by metis
  from retry_effect[OF retry this] show ?thesis
    using ended_inv(1)[OF inv st] by blast
qed

lemma stop_inv:
  assumes inv: "con_inv p co" and co: "connectors w K = Some co" and run: "Connector_stop me K w = Inr w'"
  shows "\<exists>co'. connectors w' K = Some co' \<and> con_inv p co'"
proof -
  obtain t where "EventLoop_cancelTimer me (co_loop co) t (connector_put K (co\<lparr>co_connect := False\<rparr>) w) = Inr w'"
    using run co by (auto simp: Connector_stop_def Connector_cancel_def res_bind_eq_Inr split: option.splits)
  from the_connectors.view_cancelTimer[OF this] show ?thesis
    using inv by (auto simp: con_inv_def)
qed

lemma start_inv:
  assumes inv: "con_inv p co" and co: "connectors w K = Some co" and run: "Connector_start me ch tm K w = Inr w'"
  shows "\<exists>co'. connectors w' K = Some co' \<and> con_inv p co'"
proof -
  let ?co = "co\<lparr>co_connect := True\<rparr>" and ?w = "connector_put K (co\<lparr>co_connect := True\<rparr>) w"
  have inv': "con_inv p ?co" and w: "connectors ?w K = Some ?co"
    using inv by (simp_all add: con_inv_def)
  have "Connector_startInLoop me ch tm K ?w = Inr w' \<or>
      EventLoop_queueInLoop me (co_loop co) (FConnectorStart K) ?w = Inr w'"
    using run co by (auto simp: Connector_start_def EventLoop_runInLoop_def res_bind_eq_Inr split: if_splits)
  then show ?thesis
  proof
    assume "Connector_startInLoop me ch tm K ?w = Inr w'"
    from startInLoop_effect[OF this w] attempted_inv[OF inv'] show ?thesis
      by blast
  next
    assume "EventLoop_queueInLoop me (co_loop co) (FConnectorStart K) ?w = Inr w'"
    from the_connectors.view_queue[OF this] show ?thesis
      using inv' w by auto
  qed
qed

lemma restart_inv:
  assumes inv: "con_inv p co" and co: "connectors w K = Some co" and st: "co_state co = ckConnected"
    and run: "Connector_restart me ch tm K w = Inr w'"
  shows "\<exists>co'. connectors w' K = Some co' \<and> con_inv p co'"
proof -
  let ?co = "co\<lparr>co_state := ckDisconnected, co_retryDelayMs := kInitRetryDelayMs, co_connect := True\<rparr>"
  have "Connector_startInLoop me ch tm K (connector_put K ?co w) = Inr w'"
    using run co by (auto simp: Connector_restart_def res_bind_eq_Inr)
  moreover have "con_inv p ?co"
    using inv st by (auto simp: con_inv_def kInitRetryDelayMs_def kMaxRetryDelayMs_def intro: exI[of _ 0])
  ultimately show ?thesis
    using startInLoop_effect[of me ch tm K "connector_put K ?co w" w'] attempted_inv[of p ?co] by fastforce
qed

lemma con_exec_inv:
  assumes "con_inv p co" and "connectors w K = Some co" and "con_rule op co p"
    and "con_exec run_new me K op w = Inr w'"
    and "\<And>T fd v v'. run_new T fd v = Inr v' \<Longrightarrow> connectors v' K = connectors v K"
  shows "\<exists>co'. connectors w' K = Some co' \<and> con_inv (reset_queued op co p) co'"
proof (cases op)
  case (ConStartInLoop ch tm)
  then show ?thesis
    using assms(1,2,4) startInLoop_effect[of me ch tm K w w'] attempted_inv[of p co] by fastforce
next
  case (ConWrite tm)
  then show ?thesis
    using write_inv[OF assms(1,2) _ assms(5)] assms(4) by simp
next
  case ConReset
  then show ?thesis
    using assms(1-4) the_connectors.view_chan_delete
    by (fastforce simp: Connector_resetChannel_def con_inv_def res_bind_eq_Inr split: option.splits)
qed (use assms in \<open>auto intro: start_inv restart_inv stop_inv error_inv\<close>)

text \<open>
  C25. The invariant of the connector, in every order of its handlers and of what happens around it: a
  channel exists exactly while a connection is under way or its \<^verbatim>\<open>resetChannel\<close> is queued, never both, so
  that neither \<^verbatim>\<open>handleWrite\<close> nor \<^verbatim>\<open>handleError\<close> uses a null \<^verbatim>\<open>channel_\<close> and a queued reset never destroys the channel of
  a newer attempt; the delay is 50 ms doubled some number of times, at most 30 s. Assumed of the
  client's callback: it leaves this connector alone.
\<close>

theorem connector_states:
  assumes "con_reach run_new me K p w"
    and "\<And>T fd v v'. run_new T fd v = Inr v' \<Longrightarrow> connectors v' K = connectors v K"
  shows "\<exists>co. connectors w K = Some co \<and>
     (co_channel co \<noteq> None \<longleftrightarrow> p \<or> co_state co = ckConnecting) \<and>
     \<not> (p \<and> co_state co = ckConnecting) \<and>
     (\<exists>n. co_retryDelayMs co = min (50 * 2 ^ n) 30000)"
proof -
  from assms(1) have "\<exists>co. connectors w K = Some co \<and> con_inv p co"
  proof induction
    case (made L addr w)
    show ?case
      by (simp add: Connector_new_def con_inv_def)
        (simp add: kInitRetryDelayMs_def kMaxRetryDelayMs_def exI[of _ 0])
  next
    case (op p w co op w')
    then show ?case
      using con_exec_inv[OF _ op(2-4) assms(2)] by auto
  qed simp
  then show ?thesis
    by (auto simp: con_inv_def kInitRetryDelayMs_def kMaxRetryDelayMs_def)
qed

definition con_demo :: "sys_ret list \<Rightarrow> con_world" where
  "con_demo answers =
     \<lparr>tape = answers, trace = [], os_local = (\<lambda>_. None), os_peer = (\<lambda>_. None),
      chans = (\<lambda>_. None), statics = lt_statics, loops = [7 \<mapsto> conn_demo_loop],
      timers = (\<lambda>_. None), t_loopInThisThread = [9 \<mapsto> 7], conns = (\<lambda>_. None),
      acceptors = (\<lambda>_. None), connectors = (\<lambda>_. None)\<rparr>"

lemmas con_run_defs =
  Connector_new_def Connector_start_def Connector_startInLoop_def Connector_connect_def
  Connector_connecting_def Connector_handleError_def Connector_removeAndResetChannel_def
  Connector_retry_def Connector_setState_def connector_mod_def connector_get_def connector_put_def
  sockets_createNonblockingOrDie_def sockets_connect_def sockets_close_def sockets_getSocketError_def
  EventLoop_removeChannel_def PollPoller_removeChannel_def EventLoop_runAfter_def EventLoop_runAt_def
  TimerQueue_addTimer_def TimerQueue_addInLoop_def TimerQueue_arm_def timerfdSet_def durationFromNow_def
  clock_now_def set_insert_def timer_put_def Timer_new_def connect_errno_defs kInitRetryDelayMs_def
  kMaxRetryDelayMs_def Channel_setErrorCallback_def Channel_setWriteCallback_def

lemma con_demo_run:
  "\<exists>w1 w2. Connector_start 9 20 21 3 (Connector_new 3 7 zero_address
       (con_demo [SysNum 8, SysErr EINPROGRESS, SysNum 0, SysNum 0, SysNum 100, SysNum 100, SysNum 0])) = Inr w1 \<and>
     Connector_handleError 9 21 3 w1 = Inr w2"
  by (simp add: con_demo_def con_run_defs conn_demo_loop_def conn_run_defs)

theorem connector_states_witness:
  "\<exists>w. con_reach (\<lambda>T fd. Inr) 9 3 True (w :: con_world) \<and>
     (\<exists>co. connectors w 3 = Some co \<and> co_channel co \<noteq> None \<and> co_state co \<noteq> ckConnecting)"
proof -
  let ?new = "\<lambda>T fd. Inr :: con_world \<Rightarrow> con_world res"
  let ?w = "Connector_new 3 7 zero_address
       (con_demo [SysNum 8, SysErr EINPROGRESS, SysNum 0, SysNum 0, SysNum 100, SysNum 100, SysNum 0])"
  obtain w1 w2 where run: "Connector_start 9 20 21 3 ?w = Inr w1" "Connector_handleError 9 21 3 w1 = Inr w2"
    using con_demo_run by blast
  have frame: "?new T fd v = Inr v' \<Longrightarrow> connectors v' 3 = connectors v 3" for T fd v v'
    by simp
  obtain co where "connectors ?w 3 = Some co"
    by (simp add: Connector_new_def)
  then have r1: "con_reach ?new 9 3 False w1"
    using con_reach.op[OF con_reach.made _ _ , where op = "ConStart 20 21" and w' = w1] run(1) by fastforce
  from connector_states[OF r1 frame] obtain co1 where "connectors w1 3 = Some co1"
    by blast
  then have r2: "con_reach ?new 9 3 True w2"
    using con_reach.op[OF r1 _ _ , where op = "ConError 21" and w' = w2] run(2) by fastforce
  from connector_states[OF r2 frame] show ?thesis
    using r2 by blast
qed

section \<open>Trying again\<close>

lemma addTimer_ok:
  assumes ok: "timers_ok L w" and el: "loops w L = Some el" and me: "el_threadId el = me"
  shows "case TimerQueue_addTimer me L t cb wh iv w of
      Inl e \<Rightarrow> external e
    | Inr (t', w') \<Rightarrow> t' = t \<and> timers_ok L w' \<and> timers w' = (timers w)(t := Some (Timer_new cb wh iv)) \<and>
        (\<exists>el'. loops w' L = Some el' \<and> set (el_timers el') = insert (wh, t) (set (el_timers el)))"
proof (cases "t = 0 \<or> timers w t \<noteq> None")
  case False
  let ?w = "timer_put t (Timer_new cb wh iv) w"
  have q: "queue_ok (el_timers el) (timers w)"
    using ok el by (simp add: timers_ok_def)
  have new: "t \<notin> snd ` set (el_timers el)"
    using q False by (auto simp: queue_ok_def live_in_def split: option.splits)
  have "queue_ok (el_timers el) (timers ?w)"
    by (rule queue_ok_frame[OF q]) (use new in auto)
  then have ok1: "timers_ok L ?w"
    using ok el by (simp add: timers_ok_def)
  have live: "live_in (timers ?w) (wh, t)"
    by (simp add: live_in_def Timer_new_def)
  have run: "TimerQueue_addTimer me L t cb wh iv w =
      res_bind (TimerQueue_addInLoop L wh t ?w) (\<lambda>w'. Inr (t, w'))"
    using False el me by (simp add: TimerQueue_addTimer_def EventLoop_runInLoop_def EventLoop_isInLoopThread_def)
  show ?thesis
  proof (cases "TimerQueue_addInLoop L wh t ?w")
    case (Inl e)
    then show ?thesis
      using run add_in_loop_error[OF _ new Inl] el by simp
  next
    case (Inr w')
    then show ?thesis
      using run add_in_loop_ok[OF ok1 _ live new Inr] el by auto
  qed
qed (simp add: TimerQueue_addTimer_def)


definition con_demo_co :: connector where
  "con_demo_co =
     \<lparr>co_loop = 7, co_serverAddr = zero_address, co_connect = True, co_state = ckConnecting,
      co_channel = None, co_newConnectionCallback = None, co_retryDelayMs = 20000, co_timer = None\<rparr>"

lemma con_demo_retry:
  "\<exists>w'. Connector_retry 9 21 8 3 (connector_put 3 con_demo_co
      (con_demo [SysNum 0, SysNum 100, SysNum 100, SysNum 0])) = Inr w'"
  by (simp add: con_demo_def con_demo_co_def con_run_defs conn_demo_loop_def conn_run_defs)


end
