(* ===== verification/Acceptor_Laws.thy ===== *)
theory Acceptor_Laws
  imports Conn_Output Connector_Laws
begin

text \<open>
  What an acceptor does with a new connection, with the errors of \<^verbatim>\<open>accept\<close> and when the process is out of
  descriptors, and what its destructor leaves behind.
\<close>

section \<open>The descriptors of the process\<close>

text \<open>
  The set of open descriptors after calls with their answers; and what the kernel promises: a new
  descriptor is a number not in use.
\<close>

fun fds_after :: "(sys_call \<times> sys_ret) list \<Rightarrow> int set \<Rightarrow> int set" where
  "fds_after [] fds = fds"
| "fds_after ((CallAccept s, SysNum n) # cs) fds = fds_after cs (insert n fds)"
| "fds_after ((CallOpenDevNull, SysNum n) # cs) fds = fds_after cs (insert n fds)"
| "fds_after ((CallClose fd, r) # cs) fds = fds_after cs (fds - {fd})"
| "fds_after (c # cs) fds = fds_after cs fds"

fun fds_fresh :: "(sys_call \<times> sys_ret) list \<Rightarrow> int set \<Rightarrow> bool" where
  "fds_fresh [] fds = True"
| "fds_fresh ((CallAccept s, SysNum n) # cs) fds = (n \<notin> fds \<and> fds_fresh cs (insert n fds))"
| "fds_fresh ((CallOpenDevNull, SysNum n) # cs) fds = (n \<notin> fds \<and> fds_fresh cs (insert n fds))"
| "fds_fresh ((CallClose fd, r) # cs) fds = fds_fresh cs (fds - {fd})"
| "fds_fresh (c # cs) fds = fds_fresh cs fds"

text \<open>The number a call returns.\<close>

fun returned :: "sys_ret \<Rightarrow> int" where
  "returned (SysNum n) = n"
| "returned r = -1"

lemma world_more_acc:
  "world.more w' = world.more w \<Longrightarrow> acceptors w' = acceptors (w :: 'z acc_world_scheme)"
  by (cases w; cases w') simp

interpretation the_acceptors: world_view acceptors
  by unfold_locales (rule world_more_acc)

lemma sys_int_returned:
  assumes "sys_int c w = Inr (n, e, w')"
  obtains r where "os_calls [(c, r)] w w'" "n = returned r" "r = SysErr e \<and> e \<noteq> 0 \<or> r = SysNum n \<and> 0 \<le> n"
proof -
  obtain r where r: "os_calls [(c, r)] w w'" "r = SysErr e \<and> e \<noteq> 0 \<and> n = -1 \<or> r = SysNum n \<and> 0 \<le> n \<and> e = 0"
    using sys_int_calls[OF assms] by blast
  then show ?thesis
    by (intro that[of r]) auto
qed

definition discard_calls :: "acceptor \<Rightarrow> sys_ret \<Rightarrow> sys_ret \<Rightarrow> sys_ret \<Rightarrow> sys_ret \<Rightarrow> (sys_call \<times> sys_ret) list" where
  "discard_calls ac r1 r2 r3 r4 =
     [(CallAccept (ac_acceptSocket ac), SysErr EMFILE), (CallClose (ac_idleFd ac), r1),
      (CallAccept (ac_acceptSocket ac), r2), (CallClose (returned r2), r3), (CallOpenDevNull, r4)]"

lemma discard_fds:
  assumes "r2 = SysErr e2 \<and> e2 \<noteq> 0 \<or> r2 = SysNum n2 \<and> 0 \<le> n2"
    and "r4 = SysErr e4 \<and> e4 \<noteq> 0 \<or> r4 = SysNum n4 \<and> 0 \<le> n4"
    and "fds_fresh (discard_calls ac r1 r2 r3 r4) fds" and "-1 \<notin> fds"
  shows "fds_after (discard_calls ac r1 r2 r3 r4) fds = fds - {ac_idleFd ac} \<union> ({returned r4} \<inter> {0..})"
  using assms by (auto simp: discard_calls_def)

lemma discard_outcome:
  assumes "Acceptor_discard A ac w = Inr w'"
    and "os_calls [(CallAccept (ac_acceptSocket ac), SysErr EMFILE)] v w"
  shows "\<exists>r1 r2 r3 r4. os_calls (discard_calls ac r1 r2 r3 r4) v w' \<and>
    acceptors w' = (acceptors w)(A := Some (ac\<lparr>ac_idleFd := returned r4\<rparr>)) \<and>
    (\<forall>fds. fds_fresh (discard_calls ac r1 r2 r3 r4) fds \<and> -1 \<notin> fds \<longrightarrow>
       fds_after (discard_calls ac r1 r2 r3 r4) fds = fds - {ac_idleFd ac} \<union> ({returned r4} \<inter> {0..}))"
proof -
  obtain n1 e1 w1 n2 e2 w2 n3 e3 w3 n4 e4 w4 where
    w1: "sys_int (CallClose (ac_idleFd ac)) w = Inr (n1, e1, w1)" and
    w2: "sys_int (CallAccept (ac_acceptSocket ac)) w1 = Inr (n2, e2, w2)" and
    w3: "sys_int (CallClose n2) w2 = Inr (n3, e3, w3)" and
    w4: "sys_int CallOpenDevNull w3 = Inr (n4, e4, w4)" and
    w': "w' = acceptor_put A (ac\<lparr>ac_idleFd := n4\<rparr>) w4"
    using assms(1) by (auto simp: Acceptor_discard_def open_dev_null_def res_bind_eq_Inr)
  obtain r1 where r1: "os_calls [(CallClose (ac_idleFd ac), r1)] w w1"
    using w1 by (rule sys_int_returned)
  obtain r2 where r2: "os_calls [(CallAccept (ac_acceptSocket ac), r2)] w1 w2" "n2 = returned r2"
      "r2 = SysErr e2 \<and> e2 \<noteq> 0 \<or> r2 = SysNum n2 \<and> 0 \<le> n2"
    using w2 by (rule sys_int_returned)
  obtain r3 where r3: "os_calls [(CallClose n2, r3)] w2 w3"
    using w3 by (rule sys_int_returned)
  obtain r4 where r4: "os_calls [(CallOpenDevNull, r4)] w3 w4" "n4 = returned r4"
      "r4 = SysErr e4 \<and> e4 \<noteq> 0 \<or> r4 = SysNum n4 \<and> 0 \<le> n4"
    using w4 by (rule sys_int_returned)
  have "os_calls (discard_calls ac r1 r2 r3 r4) v w'"
    using assms(2) r1 r2(1,2) r3 r4(1) w' by (simp add: os_calls_def discard_calls_def acceptor_put_def)
  moreover have "acceptors w4 = acceptors w"
    using w1 w2 w3 w4 by (simp add: the_acceptors.view_os_step[OF sys_int_os_step])
  then have "acceptors w' = (acceptors w)(A := Some (ac\<lparr>ac_idleFd := returned r4\<rparr>))"
    using w' r4(2) by (simp add: acceptor_put_def)
  ultimately show ?thesis
    using discard_fds[OF r2(3) r4(3)] by blast
qed


lemma discard_external:
  assumes "Acceptor_discard A ac w = Inl e"
  shows "external e"
  using assms by (auto simp: Acceptor_discard_def open_dev_null_def res_bind_eq_Inl dest!: sys_int_Inl)

lemma errno_distinct: "0 \<notin> {EAGAIN, ECONNABORTED, EINTR, EPROTO, EPERM}" "EMFILE \<notin> {EAGAIN, ECONNABORTED, EINTR, EPROTO, EPERM}"
  by (simp_all add: EAGAIN_def ECONNABORTED_def EINTR_def EPROTO_def EPERM_def EMFILE_def)


section \<open>A readable listening socket\<close>

text \<open>
  C27. When the listening socket is readable the acceptor takes one connection and hands its descriptor,
  with the address the kernel reports, to the callback, or closes it when there is none. An error of
  the connection itself (it was aborted, the call was interrupted) changes nothing. Out of
  descriptors, it gives up its spare descriptor to accept the connection and close it, and takes a new
  spare: whatever the kernel answers, no other descriptor is opened or closed. Any other error ends the
  program.
\<close>

theorem acceptor_outcome:
  assumes ac: "acceptors w A = Some ac" and loop: "loops w (ac_loop ac) = Some el" "el_threadId el = me"
  shows "case tape w of
      SysNum fd # rest \<Rightarrow>
        0 \<le> fd \<longrightarrow> (\<exists>v. os_calls [(CallAccept (ac_acceptSocket ac), SysNum fd)] w v \<and> acceptors v = acceptors w \<and>
          Acceptor_handleRead run_new me A w =
            (case ac_newConnectionCallback ac of
               Some S \<Rightarrow> run_new S fd (sockets_getPeerAddr fd w) v
             | None \<Rightarrow> sockets_close fd v))
    | SysErr e # rest \<Rightarrow>
        (case Acceptor_handleRead run_new me A w of
           Inl x \<Rightarrow> external x \<and> e \<notin> {EAGAIN, ECONNABORTED, EINTR, EPROTO, EPERM}
         | Inr w' \<Rightarrow>
             if e = EMFILE
             then (\<exists>r1 r2 r3 r4. os_calls (discard_calls ac r1 r2 r3 r4) w w' \<and>
               acceptors w' = (acceptors w)(A := Some (ac\<lparr>ac_idleFd := returned r4\<rparr>)) \<and>
               (\<forall>fds. fds_fresh (discard_calls ac r1 r2 r3 r4) fds \<and> -1 \<notin> fds \<longrightarrow>
                  fds_after (discard_calls ac r1 r2 r3 r4) fds = fds - {ac_idleFd ac} \<union> ({returned r4} \<inter> {0..})))
             else e \<in> {EAGAIN, ECONNABORTED, EINTR, EPROTO, EPERM} \<and>
               os_calls [(CallAccept (ac_acceptSocket ac), SysErr e)] w w' \<and> acceptors w' = acceptors w)
    | _ \<Rightarrow> \<exists>x. Acceptor_handleRead run_new me A w = Inl x \<and> external x"
proof -
  let ?s = "ac_acceptSocket ac"
  have run: "Acceptor_handleRead run_new me A w =
     res_bind (Socket_accept ?s (InetAddress_port zero_address 0 False False) w) (\<lambda>(connfd, errno, peerAddr, w1).
       if 0 \<le> connfd
       then (case ac_newConnectionCallback ac of
               Some S \<Rightarrow> run_new S connfd peerAddr w1
             | None \<Rightarrow> sockets_close connfd w1)
       else if errno = EMFILE then Acceptor_discard A ac w1
       else Inr w1)"
    using ac loop by (simp add: Acceptor_handleRead_def acceptor_get_def EventLoop_assertInLoopThread_def
        EventLoop_isInLoopThread_def loop_get_def)
  show ?thesis
  proof (cases "tape w")
    case Nil
    then show ?thesis
      by (simp add: run Socket_accept_def sockets_accept_def sys_int_def sys_def)
  next
    case (Cons r rest)
    let ?v = "w\<lparr>tape := rest, trace := trace w @ [CallAccept ?s]\<rparr>"
    have v: "os_calls [(CallAccept ?s, r)] w ?v" "acceptors ?v = acceptors w"
      using Cons by (simp_all add: os_calls_def)
    show ?thesis
    proof (cases r)
      case (SysErr e)
      have "Socket_accept ?s (InetAddress_port zero_address 0 False False) w =
          (if e = 0 then Inl Kernel
           else if e \<in> {EAGAIN, ECONNABORTED, EINTR, EPROTO, EPERM, EMFILE}
           then Inr (-1, e, InetAddress_port zero_address 0 False False, ?v)
           else Inl (Fatal ''unexpected error of ::accept''))"
        using Cons SysErr by (simp add: Socket_accept_def sockets_accept_def sys_int_def sys_def)
      then have "Acceptor_handleRead run_new me A w =
          (if e = 0 then Inl Kernel else if e = EMFILE then Acceptor_discard A ac ?v
           else if e \<in> {EAGAIN, ECONNABORTED, EINTR, EPROTO, EPERM} then Inr ?v
           else Inl (Fatal ''unexpected error of ::accept''))"
        by (simp add: run)
      then show ?thesis
        using Cons SysErr v errno_distinct discard_external[of A ac ?v]
          discard_outcome[of A ac ?v _ w] by (auto split: sum.splits)
    next
      case (SysNum fd)
      have peer: "sockets_getPeerAddr fd ?v = sockets_getPeerAddr fd w"
        by (simp add: sockets_getPeerAddr_def)
      show ?thesis
        using SysNum Cons v by (auto simp: run Socket_accept_def sockets_accept_def sys_int_def sys_def
            InetAddress_setSockAddrInet6_def peer intro!: exI[of _ ?v])
    qed (use Cons in \<open>simp_all add: run Socket_accept_def sockets_accept_def sys_int_def sys_def\<close>)
  qed
qed

text \<open>A listening acceptor, with 6 its socket and 7 its spare descriptor.\<close>

definition acceptor_demo :: "ptr option \<Rightarrow> poller \<Rightarrow> sys_ret list \<Rightarrow> acc_world" where
  "acceptor_demo cb po answers =
     \<lparr>tape = answers, trace = [], os_local = (\<lambda>_. None), os_peer = (\<lambda>_. None),
      chans = [5 \<mapsto> (Channel_new 7 6)\<lparr>ch_index := kAdded, ch_events := 3\<rparr>], statics = lt_statics,
      loops = [7 \<mapsto> conn_demo_loop\<lparr>el_poller := po\<rparr>], timers = (\<lambda>_. None), t_loopInThisThread = [9 \<mapsto> 7],
      conns = (\<lambda>_. None),
      acceptors = [4 \<mapsto> \<lparr>ac_loop = 7, ac_acceptSocket = 6, ac_acceptChannel = 5,
        ac_newConnectionCallback = cb, ac_listenning = True, ac_idleFd = 7\<rparr>]\<rparr>"

theorem acceptor_outcome_witness:
  "\<exists>w' r1 r2 r3 r4.
     Acceptor_handleRead (\<lambda>S fd pa. Inr) 9 4
       (acceptor_demo None (Poll PollPoller_new) [SysErr EMFILE, SysNum 0, SysNum 7, SysNum 0, SysNum 7]) = Inr w' \<and>
     os_calls (discard_calls (the (acceptors (acceptor_demo None (Poll PollPoller_new) []) 4)) r1 r2 r3 r4)
       (acceptor_demo None (Poll PollPoller_new) [SysErr EMFILE, SysNum 0, SysNum 7, SysNum 0, SysNum 7]) w'"
proof -
  let ?w = "acceptor_demo None (Poll PollPoller_new) [SysErr EMFILE, SysNum 0, SysNum 7, SysNum 0, SysNum 7]"
  let ?ac = "the (acceptors (acceptor_demo None (Poll PollPoller_new) []) 4)"
  let ?el = "conn_demo_loop\<lparr>el_poller := Poll PollPoller_new\<rparr>"
  have w: "acceptors ?w 4 = Some ?ac" "loops ?w (ac_loop ?ac) = Some ?el" "el_threadId ?el = 9"
      "tape ?w = [SysErr EMFILE, SysNum 0, SysNum 7, SysNum 0, SysNum 7]"
    by (simp_all add: acceptor_demo_def conn_demo_loop_def)
  have "\<exists>w'. Acceptor_handleRead (\<lambda>S fd pa. Inr) 9 4 ?w = Inr w'"
    by (simp add: acceptor_demo_def Acceptor_handleRead_def acceptor_get_def EventLoop_assertInLoopThread_def
        EventLoop_isInLoopThread_def loop_get_def conn_demo_loop_def Socket_accept_def sockets_accept_def
        Acceptor_discard_def open_dev_null_def sys_int_def sys_def EMFILE_def)
  then obtain w' where run: "Acceptor_handleRead (\<lambda>S fd pa. Inr) 9 4 ?w = Inr w'"
    by blast
  obtain r1 r2 r3 r4 where "os_calls (discard_calls ?ac r1 r2 r3 r4) ?w w'"
    using acceptor_outcome[OF w(1-3), of "\<lambda>S fd pa. Inr"] run by (auto simp: w(4))
  then show ?thesis
    using run by (intro exI conjI)
qed


section \<open>What the destructor leaves behind\<close>

text \<open>
  \<^verbatim>\<open>Acceptor\<close> has no destructor of its own. Destroying one that listens closes its socket and nothing
  else: the spare descriptor stays open, and the poller still has the destroyed channel in its table. An
  event for that channel is undefined behaviour; and when the kernel gives the number of the socket to a
  new connection, registering the channel of that connection fails an assertion, with either poller.
\<close>

theorem acceptor_dtor_dangles:
  assumes ac: "acceptors w A = Some ac" and c: "chans w (ac_acceptChannel ac) = Some c" "ch_fd c = ac_acceptSocket ac"
    and listening: "loops w (ac_loop ac) = Some el"
      "Poller_channels (el_poller el) (ac_acceptSocket ac) = Some (ac_acceptChannel ac)"
    and run: "Acceptor_dtor A w = Inr w'"
  shows "(\<exists>r. os_calls [(CallClose (ac_acceptSocket ac), r)] w w') \<and> loops w' (ac_loop ac) = Some el \<and>
    Channel_handleEvent run_cb t (ac_acceptChannel ac) w' = Inl (Undefined ''use of a destroyed Channel'') \<and>
    (\<forall>p d. chans w' p = Some d \<and> ch_fd d = ac_acceptSocket ac \<and> ch_index d = -1 \<longrightarrow>
       (\<exists>what. Poller_updateChannel True p (el_poller el, w') = Inl (AssertFail what)))"
proof -
  let ?w1 = "w\<lparr>chans := (chans w)(ac_acceptChannel ac := None)\<rparr>"
  obtain w2 where w2: "sockets_close (ac_acceptSocket ac) ?w1 = Inr w2"
    and w': "w' = w2\<lparr>acceptors := (acceptors w2)(A := None)\<rparr>"
    using run ac c by (auto simp: Acceptor_dtor_def acceptor_get_def chan_delete_def res_bind_eq_Inr Socket_dtor_def)
  have calls: "\<exists>r. os_calls [(CallClose (ac_acceptSocket ac), r)] ?w1 w2"
    using w2 by (auto simp: sockets_close_def res_bind_eq_Inr dest!: sys_int_calls)
  have same: "loops w2 = loops w" "chans w2 = chans ?w1"
    using w2 by (auto simp: sockets_close_def res_bind_eq_Inr sys_int_Inr)
  have dead: "\<exists>what. Poller_updateChannel True p (el_poller el, w') = Inl (AssertFail what)"
    if d: "chans w' p = Some d \<and> ch_fd d = ac_acceptSocket ac \<and> ch_index d = -1" for p d
    using d listening(2)
    by (cases "el_poller el") (auto simp: EpollPoller_updateChannel_def PollPoller_updateChannel_def Let_def kNew_def)
  then show ?thesis
    using calls same listening(1) w' by (auto simp: Channel_handleEvent_def chan_get_def os_calls_def)
qed

theorem acceptor_dtor_dangles_witness:
  "\<exists>w'. Acceptor_dtor 4 (acceptor_demo None (Epoll \<lparr>ep_channels = [6 \<mapsto> 5], ep_epollfd = 3, ep_events_size = 16\<rparr>) [SysNum 0]) = Inr w' \<and>
     Channel_handleEvent (\<lambda>cb t. Inr) 0 5 w' = Inl (Undefined ''use of a destroyed Channel'')"
proof -
  let ?po = "Epoll \<lparr>ep_channels = [6 \<mapsto> 5], ep_epollfd = 3, ep_events_size = 16\<rparr>"
  let ?w = "acceptor_demo None ?po [SysNum 0]"
  let ?ac = "the (acceptors ?w 4)" and ?c = "the (chans ?w 5)" and ?el = "the (loops ?w 7)"
  have w: "acceptors ?w 4 = Some ?ac" "chans ?w (ac_acceptChannel ?ac) = Some ?c" "ch_fd ?c = ac_acceptSocket ?ac"
      "loops ?w (ac_loop ?ac) = Some ?el" "Poller_channels (el_poller ?el) (ac_acceptSocket ?ac) = Some (ac_acceptChannel ?ac)"
      "ac_acceptChannel ?ac = 5"
    by (simp_all add: acceptor_demo_def Channel_new_def)
  obtain w' where run: "Acceptor_dtor 4 ?w = Inr w'"
    by (simp add: acceptor_demo_def Acceptor_dtor_def acceptor_get_def chan_delete_def chan_get_def Channel_new_def
        Channel_dtor_def Socket_dtor_def sockets_close_def sys_int_def sys_def)
  show ?thesis
    using acceptor_dtor_dangles[OF w(1-5) run, of "\<lambda>cb t. Inr" 0] run unfolding w(6) by blast
qed

end
