(* ===== verification/Loop_Pool.thy ===== *)
theory Loop_Pool
  imports Loop_Laws
begin

text \<open>
  \<^verbatim>\<open>EventLoopThread\<close> and \<^verbatim>\<open>EventLoopThreadPool\<close> (\<^verbatim>\<open>twnl/EventLoopThread.cc\<close>, \<^verbatim>\<open>twnl/EventLoopThreadPool.cc\<close>).

  Two models of a loop thread. The sequential one is what \<^verbatim>\<open>startLoop\<close> does to the program's state: its
  caller waits until the new thread has constructed its loop, run the initialisation callback and
  published the loop, so these effects are part of the call. The identity of the new thread and
  the addresses of the loop and its two channels are arguments; \<open>run_init\<close> says what an
  initialisation callback does. The step relation \<open>elt_step\<close> is the protocol between the owner and
  the thread over the whole life of an \<^verbatim>\<open>EventLoopThread\<close>, one step per access of shared data.
\<close>

section \<open>EventLoopThread\<close>

record loop_thread =
  et_loop :: "ptr option"
  et_name :: string
  et_started :: bool
  et_callback :: "nat option"

definition EventLoopThread_new :: "nat option \<Rightarrow> string \<Rightarrow> loop_thread" where
  "EventLoopThread_new cb name = \<lparr>et_loop = None, et_name = name, et_started = False, et_callback = cb\<rparr>"

text \<open>\<^verbatim>\<open>threadFunc\<close> up to the publication of the loop. The fresh names: thread, loop, timer channel, wakeup channel.\<close>

type_synonym fresh = "nat \<times> ptr \<times> ptr \<times> ptr"

definition EventLoopThread_threadFunc ::
    "(nat \<Rightarrow> ptr \<Rightarrow> 'z world_scheme \<Rightarrow> 'z world_scheme res) \<Rightarrow> fresh \<Rightarrow> loop_thread \<Rightarrow>
     'z world_scheme \<Rightarrow> (loop_thread \<times> 'z world_scheme) res" where
  "EventLoopThread_threadFunc run_init fr t w =
     (let (tid, L, tc, wc) = fr in
      res_bind (EventLoop_new tid EPOLL LT L tc wc w) (\<lambda>w1.
      res_bind (case et_callback t of None \<Rightarrow> Inr w1 | Some f \<Rightarrow> run_init f L w1) (\<lambda>w2.
        Inr (t\<lparr>et_loop := Some L\<rparr>, w2))))"

definition EventLoopThread_startLoop ::
    "(nat \<Rightarrow> ptr \<Rightarrow> 'z world_scheme \<Rightarrow> 'z world_scheme res) \<Rightarrow> fresh \<Rightarrow> loop_thread \<Rightarrow>
     'z world_scheme \<Rightarrow> (ptr \<times> loop_thread \<times> 'z world_scheme) res" where
  "EventLoopThread_startLoop run_init fr t w =
     res_bind (cassert (\<not> et_started t) ''!started_'') (\<lambda>_.
     res_bind (EventLoopThread_threadFunc run_init fr (t\<lparr>et_started := True\<rparr>) w) (\<lambda>(t1, w1).
       case et_loop t1 of
         None \<Rightarrow> Inl Blocked
       | Some L \<Rightarrow> Inr (L, t1, w1)))"

text \<open>The destructor up to the \<^verbatim>\<open>join\<close>, whose end is the subject of the last section.\<close>

definition EventLoopThread_dtor :: "nat \<Rightarrow> loop_thread \<Rightarrow> 'z world_scheme \<Rightarrow> 'z world_scheme res" where
  "EventLoopThread_dtor me t w =
     (if et_started t
      then (case et_loop t of None \<Rightarrow> Inr w | Some L \<Rightarrow> EventLoop_quit me L w)
      else Inr w)"


section \<open>EventLoopThreadPool\<close>

record loop_pool =
  lp_baseLoop :: ptr
  lp_name :: string
  lp_started :: bool
  lp_numThreads :: int
  lp_next :: int
  lp_threads :: "loop_thread list"
  lp_loops :: "ptr list"

definition EventLoopThreadPool_new :: "ptr \<Rightarrow> string \<Rightarrow> loop_pool" where
  "EventLoopThreadPool_new baseLoop nameArg =
     \<lparr>lp_baseLoop = baseLoop, lp_name = nameArg, lp_started = False, lp_numThreads = 0, lp_next = 0,
      lp_threads = [], lp_loops = []\<rparr>"

definition EventLoopThreadPool_dtor :: "nat \<Rightarrow> loop_pool \<Rightarrow> 'z world_scheme \<Rightarrow> 'z world_scheme res" where
  "EventLoopThreadPool_dtor me p w = run_all (EventLoopThread_dtor me) (lp_threads p) w"

definition EventLoopThreadPool_setThreadNum :: "int \<Rightarrow> loop_pool \<Rightarrow> loop_pool" where
  "EventLoopThreadPool_setThreadNum n p = p\<lparr>lp_numThreads := n\<rparr>"

text \<open>The text of a \<^verbatim>\<open>std::string\<close> as \<^verbatim>\<open>%s\<close> prints it: up to the first zero byte.\<close>

definition c_str :: "string \<Rightarrow> string" where
  "c_str s = takeWhile (\<lambda>c. c \<noteq> CHR 0x00) s"

text \<open>The loop of \<^verbatim>\<open>start\<close>: \<open>n\<close> threads are left to start, the next is number \<open>i\<close>.\<close>

fun pool_spawn ::
    "(nat \<Rightarrow> ptr \<Rightarrow> 'z world_scheme \<Rightarrow> 'z world_scheme res) \<Rightarrow> (nat \<Rightarrow> fresh) \<Rightarrow> nat option \<Rightarrow>
     nat \<Rightarrow> nat \<Rightarrow> loop_pool \<Rightarrow> 'z world_scheme \<Rightarrow> (loop_pool \<times> 'z world_scheme) res" where
  "pool_spawn run_init fr cb i 0 p w = Inr (p, w)"
| "pool_spawn run_init fr cb i (Suc n) p w =
     res_bind (EventLoopThread_startLoop run_init (fr i)
                (EventLoopThread_new cb (c_str (lp_name p) @ decimal (int i))) w) (\<lambda>(L, t, w1).
       pool_spawn run_init fr cb (Suc i) n
         (p\<lparr>lp_threads := lp_threads p @ [t], lp_loops := lp_loops p @ [L]\<rparr>) w1)"

definition EventLoopThreadPool_start ::
    "(nat \<Rightarrow> ptr \<Rightarrow> 'z world_scheme \<Rightarrow> 'z world_scheme res) \<Rightarrow> (nat \<Rightarrow> fresh) \<Rightarrow> nat \<Rightarrow> nat option \<Rightarrow>
     loop_pool \<Rightarrow> 'z world_scheme \<Rightarrow> (loop_pool \<times> 'z world_scheme) res" where
  "EventLoopThreadPool_start run_init fr me cb p w =
     res_bind (cassert (\<not> lp_started p) ''!started_'') (\<lambda>_.
     res_bind (EventLoop_assertInLoopThread me (lp_baseLoop p) w) (\<lambda>_.
     res_bind (pool_spawn run_init fr cb 0 (nat (lp_numThreads p)) (p\<lparr>lp_started := True\<rparr>) w)
       (\<lambda>(p1, w1).
       case cb of
         None \<Rightarrow> Inr (p1, w1)
       | Some f \<Rightarrow>
           if lp_numThreads p = 0
           then res_bind (run_init f (lp_baseLoop p) w1) (\<lambda>w2. Inr (p1, w2)) else Inr (p1, w1))))"

definition EventLoopThreadPool_getNextLoop ::
    "nat \<Rightarrow> loop_pool \<Rightarrow> 'z world_scheme \<Rightarrow> (ptr \<times> loop_pool) res" where
  "EventLoopThreadPool_getNextLoop me p w =
     res_bind (EventLoop_assertInLoopThread me (lp_baseLoop p) w) (\<lambda>_.
     res_bind (cassert (lp_started p) ''started_'') (\<lambda>_.
       if lp_loops p = [] then Inr (lp_baseLoop p, p)
       else if 0 \<le> lp_next p \<and> nat (lp_next p) < length (lp_loops p)
       then Inr (lp_loops p ! nat (lp_next p),
              p\<lparr>lp_next := (if int (length (lp_loops p)) \<le> lp_next p + 1 then 0 else lp_next p + 1)\<rparr>)
       else Inl (Undefined ''loops_[next_]'')))"

definition EventLoopThreadPool_getLoopForHash ::
    "nat \<Rightarrow> nat \<Rightarrow> loop_pool \<Rightarrow> 'z world_scheme \<Rightarrow> ptr res" where
  "EventLoopThreadPool_getLoopForHash me hashCode p w =
     res_bind (EventLoop_assertInLoopThread me (lp_baseLoop p) w) (\<lambda>_.
       if lp_loops p = [] then Inr (lp_baseLoop p)
       else Inr (lp_loops p ! (hashCode mod length (lp_loops p))))"

definition EventLoopThreadPool_getAllLoops :: "nat \<Rightarrow> loop_pool \<Rightarrow> 'z world_scheme \<Rightarrow> ptr list res" where
  "EventLoopThreadPool_getAllLoops me p w =
     res_bind (EventLoop_assertInLoopThread me (lp_baseLoop p) w) (\<lambda>_.
     res_bind (cassert (lp_started p) ''started_'') (\<lambda>_.
       Inr (if lp_loops p = [] then [lp_baseLoop p] else lp_loops p)))"


section \<open>Round robin\<close>

text \<open>\<open>k\<close> calls of \<^verbatim>\<open>getNextLoop\<close> in a row.\<close>

fun pool_picks :: "nat \<Rightarrow> nat \<Rightarrow> loop_pool \<Rightarrow> 'z world_scheme \<Rightarrow> (ptr list \<times> loop_pool) res" where
  "pool_picks me 0 p w = Inr ([], p)"
| "pool_picks me (Suc k) p w =
     res_bind (EventLoopThreadPool_getNextLoop me p w) (\<lambda>(L, p1).
     res_bind (pool_picks me k p1 w) (\<lambda>(Ls, p2). Inr (L # Ls, p2)))"

text \<open>A started pool: the next index is in range.\<close>

definition pool_ok :: "loop_pool \<Rightarrow> bool" where
  "pool_ok p \<longleftrightarrow>
     lp_started p \<and> 0 \<le> lp_next p \<and> (lp_loops p \<noteq> [] \<longrightarrow> nat (lp_next p) < length (lp_loops p))"

lemma pool_pick:
  assumes "pool_ok p" and "lp_loops p \<noteq> []" and "EventLoop_assertInLoopThread me (lp_baseLoop p) w = Inr ()"
  shows "EventLoopThreadPool_getNextLoop me p w =
     Inr (lp_loops p ! nat (lp_next p), p\<lparr>lp_next := int ((nat (lp_next p) + 1) mod length (lp_loops p))\<rparr>)"
proof -
  have "(if int (length (lp_loops p)) \<le> lp_next p + 1 then 0 else lp_next p + 1) =
      int ((nat (lp_next p) + 1) mod length (lp_loops p))"
    using assms(1,2) by (auto simp: pool_ok_def mod_if)
  then show ?thesis
    using assms by (simp add: EventLoopThreadPool_getNextLoop_def pool_ok_def)
qed

lemma pool_picks_nth:
  assumes "pool_ok p" and "lp_loops p \<noteq> []" and "EventLoop_assertInLoopThread me (lp_baseLoop p) w = Inr ()"
  shows "\<exists>p'. pool_picks me k p w =
       Inr (map (\<lambda>i. lp_loops p ! ((nat (lp_next p) + i) mod length (lp_loops p))) [0..<k], p') \<and>
     pool_ok p' \<and> lp_loops p' = lp_loops p"
  using assms
proof (induction k arbitrary: p)
  case (Suc k)
  let ?n = "length (lp_loops p)"
  let ?p = "p\<lparr>lp_next := int ((nat (lp_next p) + 1) mod ?n)\<rparr>"
  have n: "0 < ?n" and lt: "nat (lp_next p) < ?n"
    using Suc.prems by (auto simp: pool_ok_def)
  have "pool_ok ?p" and "lp_loops ?p = lp_loops p" and "lp_baseLoop ?p = lp_baseLoop p"
    using Suc.prems n by (auto simp: pool_ok_def)
  then obtain p' where picks: "pool_picks me k ?p w =
        Inr (map (\<lambda>i. lp_loops p ! ((nat (lp_next ?p) + i) mod ?n)) [0..<k], p')"
      and p': "pool_ok p'" "lp_loops p' = lp_loops p"
    using Suc.IH[of ?p] Suc.prems by auto
  have "map (\<lambda>i. lp_loops p ! ((nat (lp_next ?p) + i) mod ?n)) [0..<k] =
      map (\<lambda>i. lp_loops p ! ((nat (lp_next p) + i) mod ?n)) [1..<Suc k]"
  proof -
    have "[1..<Suc k] = map Suc [0..<k]"
      by (simp only: map_Suc_upt One_nat_def)
    then show ?thesis
      by (simp add: mod_simps del: upt_Suc)
  qed
  moreover have "[0..<Suc k] = 0 # [1..<Suc k]"
    by (simp add: upt_conv_Cons del: upt_Suc)
  ultimately show ?case
    using pool_pick[OF Suc.prems] picks p' lt by (simp del: upt_Suc)
qed auto

text \<open>
  Round robin. On a started pool with loops, \<open>k\<close> calls of \<^verbatim>\<open>getNextLoop\<close> from the base loop's thread
  return the loops in turn from the current one on, starting over after the last; in particular
  each run of as many calls as there are loops returns each loop exactly once, no access is out of
  range, and the pool stays in a state where this holds.
\<close>

theorem pool_round_robin:
  assumes ok: "pool_ok p" "lp_loops p \<noteq> []" and thread: "EventLoop_assertInLoopThread me (lp_baseLoop p) w = Inr ()"
  shows "\<exists>Ls p'. pool_picks me k p w = Inr (Ls, p') \<and> pool_ok p' \<and> lp_loops p' = lp_loops p \<and>
     (\<forall>i < k. Ls ! i = lp_loops p ! ((nat (lp_next p) + i) mod length (lp_loops p))) \<and> length Ls = k \<and>
     (k = length (lp_loops p) \<longrightarrow> mset Ls = mset (lp_loops p))"
proof -
  let ?n = "length (lp_loops p)" and ?s = "nat (lp_next p)"
  let ?Ls = "map (\<lambda>i. lp_loops p ! ((?s + i) mod ?n)) [0..<k]"
  obtain p' where picks: "pool_picks me k p w = Inr (?Ls, p')" "pool_ok p'" "lp_loops p' = lp_loops p"
    using pool_picks_nth[OF ok thread] by blast
  have "mset ?Ls = mset (lp_loops p)" if k: "k = ?n"
  proof -
    have s: "?s < ?n"
      using ok by (simp add: pool_ok_def)
    have "?Ls = rotate ?s (lp_loops p)"
      by (rule nth_equalityI) (simp_all add: k nth_rotate)
    moreover have "mset (rotate ?s (lp_loops p)) = mset (lp_loops p)"
      using append_take_drop_id[of "?s mod ?n" "lp_loops p"]
      by (metis mset_append rotate_drop_take union_commute)
    ultimately show ?thesis
      by simp
  qed
  then show ?thesis
    using picks by (intro exI[of _ ?Ls] exI[of _ p']) simp
qed

theorem pool_round_robin_witness:
  "\<exists>Ls p'. pool_picks 9 3 ((EventLoopThreadPool_new 1 ''p'')\<lparr>lp_started := True, lp_loops := [5, 6, 7], lp_next := 2\<rparr>)
       (timer_demo None None [] []) = Inr (Ls, p') \<and> mset Ls = mset [5, 6, 7]"
proof -
  let ?p = "(EventLoopThreadPool_new 1 ''p'')\<lparr>lp_started := True, lp_loops := [5, 6, 7], lp_next := 2\<rparr>"
  have "EventLoop_assertInLoopThread 9 (lp_baseLoop ?p) (timer_demo None None [] []) = Inr ()"
    by (simp add: EventLoop_assertInLoopThread_def EventLoop_isInLoopThread_def timer_demo_def
        EventLoopThreadPool_new_def)
  then show ?thesis
    using pool_round_robin[of ?p 9 "timer_demo None None [] []" 3]
    by (auto simp: pool_ok_def EventLoopThreadPool_new_def)
qed


section \<open>Starting the threads\<close>

text \<open>What a new loop adds to the program.\<close>

lemma interest_loop:
  assumes "Channel_interest me i p w = Inr w'" and "chans w p = Some c" and "ch_loop c = L" and "loops w L = Some el"
  shows "\<exists>po. loops w' = (loops w)(L := Some (el\<lparr>el_poller := po\<rparr>)) \<and> statics w' = statics w"
  using Channel_interest_Inr[OF assms(1,2)] assms(3,4) by auto

lemma TimerQueue_new_Inr:
  assumes run: "TimerQueue_new me L tc w = Inr w'" and el: "loops w L = Some el"
  shows "\<exists>el'. loops w' = (loops w)(L := Some el') \<and> el_threadId el' = el_threadId el \<and>
     el_pendingFunctors el' = el_pendingFunctors el \<and> statics w' = statics w"
proof -
  obtain fd w1 where fd: "timerfdCreate w = Inr (fd, w1)"
    using run by (auto simp: TimerQueue_new_def res_bind_eq_Inr)
  have "os_step w w1"
    using fd by (auto simp: timerfdCreate_def res_bind_eq_Inr split: if_splits dest: sys_int_os_step)
  note same = os_step_world[OF this]
  let ?el = "el\<lparr>el_timerfd := fd, el_timerChannel := tc, el_timers := []\<rparr>"
  let ?c = "Channel_setReadCallback (CbTimerQueueRead L) (Channel_new L fd)"
  let ?v = "chan_put tc ?c (loop_put L ?el (chan_put tc (Channel_new L fd) w1))"
  have int: "Channel_interest me EnableReading tc ?v = Inr w'"
    using run fd el same by (auto simp: TimerQueue_new_def Let_def res_bind_eq_Inr loop_mod_def)
  have "chans ?v tc = Some ?c" and "ch_loop ?c = L" and "loops ?v L = Some ?el"
    by (simp_all add: Channel_setReadCallback_def Channel_new_def)
  from interest_loop[OF int this] show ?thesis
    using same by auto
qed

lemma EventLoop_new_Inr:
  assumes run: "EventLoop_new me EPOLL emode L tc wc w = Inr w'"
  shows "\<exists>el. loops w' = (loops w)(L := Some el) \<and> el_threadId el = me \<and> el_pendingFunctors el = [] \<and>
     statics w' = Channel_initDefaultEvent emode"
proof -
  obtain po w1 where po: "Poller_newDefaultPoller True w = Inr (po, w1)"
    using run by (auto simp: EventLoop_new_def res_bind_eq_Inr)
  have "os_step w w1"
    using po by (auto simp: Poller_newDefaultPoller_def EpollPoller_new_def res_bind_eq_Inr
        split: if_splits dest: sys_int_os_step)
  note s1 = os_step_world[OF this]
  let ?el = "\<lparr>el_looping = False, el_quit = False, el_callingPendingFunctors = False,
       el_threadId = me, el_pollReturnTime = 0, el_poller = po, el_timerfd = 0,
       el_timerChannel = 0, el_timers = [], el_armedFor = None, el_wakeupFd = 0, el_wakeupChannel = 0,
       el_activeChannels = [], el_pendingFunctors = []\<rparr>"
  obtain w2 where w2: "TimerQueue_new me L tc (loop_put L ?el w1) = Inr w2"
    using run po by (auto simp: EventLoop_new_def Let_def res_bind_eq_Inr)
  obtain el2 where el2: "loops w2 = (loops w)(L := Some el2)" "el_threadId el2 = me" "el_pendingFunctors el2 = []"
    using TimerQueue_new_Inr[OF w2, of ?el] s1 by auto
  obtain wfd w3 where fd: "createEventfd w2 = Inr (wfd, w3)"
    using run po w2 by (auto simp: EventLoop_new_def Let_def res_bind_eq_Inr)
  have "os_step w2 w3"
    using fd by (auto simp: createEventfd_def res_bind_eq_Inr split: if_splits dest: sys_int_os_step)
  note s3 = os_step_world[OF this]
  let ?el3 = "el2\<lparr>el_wakeupFd := wfd, el_wakeupChannel := wc\<rparr>"
  let ?c = "Channel_setReadCallback (CbWakeupRead L) (Channel_new L wfd)"
  define v where "v = (loop_put L ?el3 (chan_put wc (Channel_new L wfd) w3))\<lparr>
    statics := Channel_initDefaultEvent emode, t_loopInThisThread := (t_loopInThisThread w3)(me := Some L)\<rparr>"
  have int: "Channel_interest me EnableReading wc (chan_put wc ?c v) = Inr w'"
    using run po w2 fd el2 s3
    by (auto simp: EventLoop_new_def Let_def loop_mod_def v_def res_bind_eq_Inr loop_put_def chan_put_def
        split: if_splits)
  have "chans (chan_put wc ?c v) wc = Some ?c" and "ch_loop ?c = L" and "loops (chan_put wc ?c v) L = Some ?el3"
    by (simp_all add: Channel_setReadCallback_def Channel_new_def v_def)
  from interest_loop[OF int this] show ?thesis
    using el2 s3 by (auto simp: v_def)
qed

definition fresh_thread :: "fresh \<Rightarrow> nat" where "fresh_thread fr = fst fr"

definition fresh_loop :: "fresh \<Rightarrow> ptr" where "fresh_loop fr = fst (snd fr)"

lemma startLoop_Inr:
  assumes "EventLoopThread_startLoop run_init fr t w = Inr (L, t', w')"
    and frame: "\<And>f M v v'. run_init f M v = Inr v' \<Longrightarrow> loops v' = loops v \<and> statics v' = statics v"
  shows "L = fresh_loop fr \<and> statics w' = lt_statics \<and>
     (\<exists>el. loops w' = (loops w)(L := Some el) \<and> el_threadId el = fresh_thread fr)"
proof -
  obtain tid M tc wc where fr: "fr = (tid, M, tc, wc)"
    by (cases fr)
  obtain t1 where tf: "EventLoopThread_threadFunc run_init fr (t\<lparr>et_started := True\<rparr>) w = Inr (t1, w')"
    and L: "et_loop t1 = Some L"
    using assms(1) by (auto simp: EventLoopThread_startLoop_def res_bind_eq_Inr split: option.splits)
  obtain w1 where new: "EventLoop_new tid EPOLL LT M tc wc w = Inr w1"
    and mid: "(case et_callback t of None \<Rightarrow> Inr w1 | Some f \<Rightarrow> run_init f M w1) = Inr w'" and "L = M"
    using tf L by (auto simp: EventLoopThread_threadFunc_def fr res_bind_eq_Inr)
  have init: "w' = w1 \<or> (\<exists>f. run_init f M w1 = Inr w')"
    using mid by (cases "et_callback t") auto
  have "loops w' = loops w1" and "statics w' = statics w1"
    using init frame by auto
  then show ?thesis
    using EventLoop_new_Inr[OF new] by (auto simp: fresh_loop_def fresh_thread_def fr \<open>L = M\<close>)
qed

lemma pool_spawn_Inr:
  assumes "pool_spawn run_init fr cb i n p w = Inr (p', w')"
    and frame: "\<And>f M v v'. run_init f M v = Inr v' \<Longrightarrow> loops v' = loops v \<and> statics v' = statics v"
    and inj: "inj (\<lambda>j. fresh_loop (fr j))"
  shows "p' = p\<lparr>lp_threads := lp_threads p', lp_loops := lp_loops p @ map (\<lambda>j. fresh_loop (fr j)) [i..<i + n]\<rparr> \<and>
     (\<forall>j \<in> {i..<i + n}. \<exists>el. loops w' (fresh_loop (fr j)) = Some el \<and> el_threadId el = fresh_thread (fr j)) \<and>
     (\<forall>M. M \<notin> (\<lambda>j. fresh_loop (fr j)) ` {i..<i + n} \<longrightarrow> loops w' M = loops w M) \<and>
     (0 < n \<longrightarrow> statics w' = lt_statics) \<and> (n = 0 \<longrightarrow> w' = w)"
  using assms(1)
proof (induction n arbitrary: i p w)
  case (Suc n)
  obtain L t w1 where start: "EventLoopThread_startLoop run_init (fr i)
        (EventLoopThread_new cb (c_str (lp_name p) @ decimal (int i))) w = Inr (L, t, w1)"
    and rest: "pool_spawn run_init fr cb (Suc i) n
        (p\<lparr>lp_threads := lp_threads p @ [t], lp_loops := lp_loops p @ [L]\<rparr>) w1 = Inr (p', w')"
    using Suc.prems by (auto simp: res_bind_eq_Inr)
  have st: "L = fresh_loop (fr i) \<and> statics w1 = lt_statics \<and>
      (\<exists>el. loops w1 = (loops w)(L := Some el) \<and> el_threadId el = fresh_thread (fr i))"
    using start by (rule startLoop_Inr) (rule frame)
  note IH = Suc.IH[OF rest]
  have out: "fresh_loop (fr i) \<notin> (\<lambda>j. fresh_loop (fr j)) ` {Suc i..<Suc i + n}"
    using injD[OF inj] by fastforce
  have "[i..<i + Suc n] = i # [Suc i..<Suc i + n]"
    by (simp add: upt_conv_Cons del: upt_Suc)
  moreover have "{i..<i + Suc n} = insert i {Suc i..<Suc i + n}"
    by auto
  moreover have "0 < Suc n \<longrightarrow> statics w' = lt_statics"
    using IH st by (cases n) auto
  ultimately show ?case
    using IH st out by (auto simp del: upt_Suc)
qed simp

text \<open>
  C28. Starting a pool. A new pool set to \<open>n\<close> threads and started in the base loop's thread ends up with
  \<open>n\<close> loops, in the order of their creation, each alive and owned by its own new thread, and ready for
  round robin. But each of these loops is constructed with the default arguments, and the trigger
  mode is global: with at least one thread the whole program, base loop included, is
  level-triggered afterwards, whatever mode the base loop was constructed with.
\<close>

theorem pool_start_outcome:
  assumes start: "EventLoopThreadPool_start run_init fr me cb
      (EventLoopThreadPool_setThreadNum n (EventLoopThreadPool_new base name)) w = Inr (p, w')"
    and frame: "\<And>f M v v'. run_init f M v = Inr v' \<Longrightarrow> loops v' = loops v \<and> statics v' = statics v"
    and inj: "inj (\<lambda>j. fresh_loop (fr j))"
  shows "pool_ok p \<and> lp_baseLoop p = base \<and> lp_loops p = map (\<lambda>j. fresh_loop (fr j)) [0..<nat n] \<and>
     (\<forall>j < nat n. \<exists>el. loops w' (fresh_loop (fr j)) = Some el \<and> el_threadId el = fresh_thread (fr j)) \<and>
     (0 < n \<longrightarrow> statics w' = lt_statics)"
proof -
  let ?p = "(EventLoopThreadPool_setThreadNum n (EventLoopThreadPool_new base name))\<lparr>lp_started := True\<rparr>"
  obtain w1 where sp: "pool_spawn run_init fr cb 0 (nat n) ?p w = Inr (p, w1)"
    and w': "w' = w1 \<or> (\<exists>f. run_init f base w1 = Inr w')"
    using start
    by (cases cb) (auto simp: EventLoopThreadPool_start_def EventLoopThreadPool_setThreadNum_def
        EventLoopThreadPool_new_def res_bind_eq_Inr split: if_splits, blast)
  have same: "loops w' = loops w1" "statics w' = statics w1"
    using w' frame by auto
  have out: "p = ?p\<lparr>lp_threads := lp_threads p, lp_loops := lp_loops ?p @ map (\<lambda>j. fresh_loop (fr j)) [0..<0 + nat n]\<rparr> \<and>
     (\<forall>j \<in> {0..<0 + nat n}. \<exists>el. loops w1 (fresh_loop (fr j)) = Some el \<and> el_threadId el = fresh_thread (fr j)) \<and>
     (\<forall>M. M \<notin> (\<lambda>j. fresh_loop (fr j)) ` {0..<0 + nat n} \<longrightarrow> loops w1 M = loops w M) \<and>
     (0 < nat n \<longrightarrow> statics w1 = lt_statics) \<and> (nat n = 0 \<longrightarrow> w1 = w)"
    using sp by (rule pool_spawn_Inr) (rule frame, assumption, rule inj)
  have "lp_loops p = map (\<lambda>j. fresh_loop (fr j)) [0..<nat n]" and "lp_started p" and "lp_next p = 0"
      and "lp_baseLoop p = base"
    using out by (cases p; auto simp: EventLoopThreadPool_setThreadNum_def EventLoopThreadPool_new_def)+
  then show ?thesis
    using out same by (auto simp: pool_ok_def)
qed

definition pool_demo_fresh :: "nat \<Rightarrow> fresh" where
  "pool_demo_fresh j = (10 + j, 100 + 10 * j, 101 + 10 * j, 102 + 10 * j)"

definition pool_demo :: tlog_world where
  "pool_demo = (timer_demo None None [] [SysNum 3, SysNum 4, SysNum 0, SysNum 6, SysNum 0])\<lparr>
     statics := et_statics\<rparr>"

lemma pool_demo_run:
  "\<exists>p w'. EventLoopThreadPool_start (\<lambda>f L. Inr) pool_demo_fresh 9 None
       (EventLoopThreadPool_setThreadNum 1 (EventLoopThreadPool_new 1 ''p'')) pool_demo = Inr (p, w')"
  by (simp add: EventLoopThreadPool_start_def EventLoopThreadPool_setThreadNum_def EventLoopThreadPool_new_def
      EventLoop_assertInLoopThread_def EventLoop_isInLoopThread_def pool_demo_def pool_demo_fresh_def timer_demo_def
      EventLoopThread_startLoop_def EventLoopThread_threadFunc_def EventLoopThread_new_def
      EventLoop_new_def Poller_newDefaultPoller_def EpollPoller_new_def sys_int_def sys_def
      TimerQueue_new_def timerfdCreate_def createEventfd_def loop_mod_def loop_get_def Channel_interest_def
      Channel_update_def EventLoop_updateChannel_def Channel_setReadCallback_def Channel_new_def
      EpollPoller_updateChannel_def EpollPoller_update_def Let_def kNew_def Channel_set_index_def)

theorem pool_start_outcome_witness:
  "\<exists>p w'. EventLoopThreadPool_start (\<lambda>f L. Inr) pool_demo_fresh 9 None
       (EventLoopThreadPool_setThreadNum 1 (EventLoopThreadPool_new 1 ''p'')) pool_demo = Inr (p, w') \<and>
     pool_ok p \<and> lp_loops p = [100] \<and> statics pool_demo = et_statics \<and> statics w' = lt_statics"
proof -
  obtain p w' where run: "EventLoopThreadPool_start (\<lambda>f L. Inr) pool_demo_fresh 9 None
       (EventLoopThreadPool_setThreadNum 1 (EventLoopThreadPool_new 1 ''p'')) pool_demo = Inr (p, w')"
    using pool_demo_run by blast
  have "inj (\<lambda>j. fresh_loop (pool_demo_fresh j))"
    by (simp add: inj_def fresh_loop_def pool_demo_fresh_def)
  from pool_start_outcome[OF run _ this] show ?thesis
    using run by (simp add: fresh_loop_def pool_demo_fresh_def pool_demo_def)
qed


section \<open>The life of a loop thread\<close>

text \<open>
  The protocol between the owner of an \<^verbatim>\<open>EventLoopThread\<close> and its thread. The thread constructs its
  loop, publishes it in \<^verbatim>\<open>loop_\<close> and wakes the owner, enters \<^verbatim>\<open>loop()\<close>, which first clears \<^verbatim>\<open>quit_\<close>, leaves
  it when it sees \<^verbatim>\<open>quit_\<close> set, and clears \<^verbatim>\<open>loop_\<close> before it ends. The owner starts the thread and waits for
  \<^verbatim>\<open>loop_\<close>; its destructor reads \<^verbatim>\<open>loop_\<close>, calls \<^verbatim>\<open>quit\<close> if it is set, and joins the thread.
\<close>

datatype thread_pc = TNone | TConstruct | TPublished | TLooping | TLeft | TDone

datatype owner_pc = OIdle | OWaiting | OReturned | OQuit | OJoin | ODestroyed

record elt =
  e_loop :: bool
  e_quit :: bool
  e_thread :: thread_pc
  e_owner :: owner_pc

definition elt_init :: elt where
  "elt_init = \<lparr>e_loop = False, e_quit = False, e_thread = TNone, e_owner = OIdle\<rparr>"

inductive elt_step :: "elt \<Rightarrow> elt \<Rightarrow> bool" where
  Start: "e_owner s = OIdle \<Longrightarrow> elt_step s (s\<lparr>e_owner := OWaiting, e_thread := TConstruct\<rparr>)"
| Publish: "e_thread s = TConstruct \<Longrightarrow> elt_step s (s\<lparr>e_loop := True, e_thread := TPublished\<rparr>)"
| Return: "e_owner s = OWaiting \<Longrightarrow> e_loop s \<Longrightarrow> elt_step s (s\<lparr>e_owner := OReturned\<rparr>)"
| Enter: "e_thread s = TPublished \<Longrightarrow> elt_step s (s\<lparr>e_quit := False, e_thread := TLooping\<rparr>)"
| Leave: "e_thread s = TLooping \<Longrightarrow> e_quit s \<Longrightarrow> elt_step s (s\<lparr>e_thread := TLeft\<rparr>)"
| Clear: "e_thread s = TLeft \<Longrightarrow> elt_step s (s\<lparr>e_loop := False, e_thread := TDone\<rparr>)"
| Dtor: "e_owner s = OReturned \<Longrightarrow> elt_step s (s\<lparr>e_owner := (if e_loop s then OQuit else OJoin)\<rparr>)"
| Quit: "e_owner s = OQuit \<Longrightarrow> elt_step s (s\<lparr>e_quit := True, e_owner := OJoin\<rparr>)"
| Join: "e_owner s = OJoin \<Longrightarrow> e_thread s = TDone \<Longrightarrow> elt_step s (s\<lparr>e_owner := ODestroyed\<rparr>)"

inductive_cases elt_stepE: "elt_step s s'"

abbreviation elt_steps :: "elt \<Rightarrow> elt \<Rightarrow> bool" where
  "elt_steps \<equiv> elt_step\<^sup>*\<^sup>*"

text \<open>\<^verbatim>\<open>startLoop\<close> returns only after the loop is there; only the owner ends it.\<close>

definition elt_inv :: "elt \<Rightarrow> bool" where
  "elt_inv s \<longleftrightarrow>
     (e_owner s = OIdle \<longleftrightarrow> e_thread s = TNone) \<and>
     (e_loop s \<longleftrightarrow> e_thread s \<in> {TPublished, TLooping, TLeft}) \<and>
     (e_quit s \<longrightarrow> e_owner s \<in> {OJoin, ODestroyed}) \<and>
     (e_thread s \<in> {TLeft, TDone} \<longrightarrow> e_quit s) \<and>
     (e_owner s \<in> {OReturned, OQuit, OJoin, ODestroyed} \<longrightarrow> e_thread s \<notin> {TNone, TConstruct}) \<and>
     (e_owner s = ODestroyed \<longrightarrow> e_thread s = TDone)"

lemma elt_inv_step: "elt_step s s' \<Longrightarrow> elt_inv s \<Longrightarrow> elt_inv s'"
  by (induction rule: elt_step.induct) (auto simp: elt_inv_def split: if_splits)

lemma elt_inv_steps: "elt_steps s s' \<Longrightarrow> elt_inv s \<Longrightarrow> elt_inv s'"
  by (induction rule: rtranclp_induct) (auto dest: elt_inv_step)

lemma elt_inv_init: "elt_inv elt_init"
  by (simp add: elt_inv_def elt_init_def)

text \<open>The steps left once the destructor has begun while the thread was in its loop.\<close>

definition elt_rank :: "elt \<Rightarrow> nat" where
  "elt_rank s =
     (case e_owner s of OReturned \<Rightarrow> 4 | OQuit \<Rightarrow> 3 | OJoin \<Rightarrow> 1 | _ \<Rightarrow> 0) +
     (case e_thread s of TLooping \<Rightarrow> 2 | TLeft \<Rightarrow> 1 | _ \<Rightarrow> 0)"

definition elt_ending :: "elt \<Rightarrow> bool" where
  "elt_ending s \<longleftrightarrow> elt_inv s \<and> e_owner s \<in> {OReturned, OQuit, OJoin, ODestroyed} \<and>
     e_thread s \<in> {TLooping, TLeft, TDone} \<and> (e_owner s = OJoin \<longrightarrow> e_quit s)"

lemma elt_ending_move:
  "elt_step s s' \<Longrightarrow> elt_ending s \<Longrightarrow> elt_inv s' \<Longrightarrow> elt_ending s' \<and> elt_rank s' < elt_rank s"
  by (induction rule: elt_step.induct) (auto simp: elt_ending_def elt_inv_def elt_rank_def split: if_splits)

lemma elt_ending_step: "elt_step s s' \<Longrightarrow> elt_ending s \<Longrightarrow> elt_ending s' \<and> elt_rank s' < elt_rank s"
  using elt_ending_move elt_inv_step unfolding elt_ending_def by blast

lemma elt_ending_steps: "elt_steps s s' \<Longrightarrow> elt_ending s \<Longrightarrow> elt_ending s'"
  by (induction rule: rtranclp_induct) (auto dest: elt_ending_step)

lemma elt_ending_moves:
  assumes "elt_ending s" and "e_owner s \<noteq> ODestroyed"
  shows "\<exists>s'. elt_step s s'"
proof -
  consider "e_owner s = OReturned" | "e_owner s = OQuit"
    | "e_owner s = OJoin" "e_thread s = TLooping" "e_quit s" | "e_thread s = TLeft" | "e_owner s = OJoin" "e_thread s = TDone"
    using assms by (auto simp: elt_ending_def)
  then show ?thesis
    by cases (blast intro: elt_step.intros)+
qed

text \<open>
  C29. Ending a loop thread that is running. Once the thread has entered its loop, the destructor always
  ends: from any state reached with the thread in its loop and the owner back from \<^verbatim>\<open>startLoop\<close>, every
  further step lowers a rank, and a step is possible until the destructor has returned and the
  thread is gone.
\<close>

theorem loop_thread_join_ends:
  assumes reach: "elt_steps elt_init s" and run: "e_thread s = TLooping" "e_owner s = OReturned"
    and later: "elt_steps s s'"
  shows "(\<forall>s''. elt_step s' s'' \<longrightarrow> elt_rank s'' < elt_rank s') \<and>
     (e_owner s' \<noteq> ODestroyed \<longrightarrow> (\<exists>s''. elt_step s' s'')) \<and>
     (e_owner s' = ODestroyed \<longrightarrow> e_thread s' = TDone)"
proof -
  have "elt_ending s"
    using elt_inv_steps[OF reach elt_inv_init] run by (simp add: elt_ending_def)
  then have ending: "elt_ending s'"
    using later elt_ending_steps by blast
  then have "e_owner s' = ODestroyed \<longrightarrow> e_thread s' = TDone"
    by (simp add: elt_ending_def elt_inv_def)
  then show ?thesis
    using elt_ending_step[OF _ ending] elt_ending_moves[OF ending] by blast
qed

theorem loop_thread_join_ends_witness:
  "\<exists>s'. elt_step \<lparr>e_loop = True, e_quit = False, e_thread = TLooping, e_owner = OReturned\<rparr> s'"
proof -
  let ?s = "\<lparr>e_loop = True, e_quit = False, e_thread = TLooping, e_owner = OReturned\<rparr>"
  have "elt_steps elt_init ?s"
    unfolding elt_init_def
    by (rule converse_rtranclp_into_rtranclp, rule Start, simp,
        rule converse_rtranclp_into_rtranclp, rule Publish, simp,
        rule converse_rtranclp_into_rtranclp, rule Return, simp, simp,
        rule converse_rtranclp_into_rtranclp, rule Enter, simp, simp)
  from loop_thread_join_ends[OF this, of ?s] show ?thesis
    by simp
qed

text \<open>
  C30. Ending a loop thread too early. If the destructor calls \<^verbatim>\<open>quit\<close> after the loop was published but
  before the thread entered \<^verbatim>\<open>loop()\<close>, the request is erased when \<^verbatim>\<open>loop()\<close> clears \<^verbatim>\<open>quit_\<close>: a state is
  reachable from which the destructor never returns, whatever happens.
\<close>

theorem loop_thread_join_deadlock:
  "\<exists>s. elt_steps elt_init s \<and> (\<forall>s'. elt_steps s s' \<longrightarrow> e_owner s' = OJoin \<and> e_thread s' = TLooping)"
proof -
  let ?s = "\<lparr>e_loop = True, e_quit = False, e_thread = TLooping, e_owner = OJoin\<rparr>"
  have "elt_steps elt_init ?s"
    unfolding elt_init_def
    by (rule converse_rtranclp_into_rtranclp, rule Start, simp,
        rule converse_rtranclp_into_rtranclp, rule Publish, simp,
        rule converse_rtranclp_into_rtranclp, rule Return, simp, simp,
        rule converse_rtranclp_into_rtranclp, rule Dtor, simp,
        rule converse_rtranclp_into_rtranclp, rule Quit, simp,
        rule converse_rtranclp_into_rtranclp, rule Enter, simp, simp)
  moreover have "s' = ?s" if "elt_steps ?s s'" for s'
    using that by (induction rule: rtranclp_induct) (auto elim: elt_stepE)
  ultimately show ?thesis
    by (metis elt.select_convs(3,4))
qed

theorem loop_thread_join_deadlock_witness:
  "\<exists>s. elt_steps elt_init s \<and> e_owner s = OJoin \<and> e_thread s = TLooping"
  using loop_thread_join_deadlock by blast

end
