(* ===== verification/Tcp_Server.thy ===== *)
theory Tcp_Server
  imports Connector Loop_Pool
begin

text \<open>
  \<^verbatim>\<open>TcpServer\<close> (\<^verbatim>\<open>twnl/TcpServer.h\<close>, \<^verbatim>\<open>twnl/TcpServer.cc\<close>) and \<^verbatim>\<open>TcpClient\<close> (\<^verbatim>\<open>twnl/TcpClient.h\<close>, \<^verbatim>\<open>twnl/TcpClient.cc\<close>):
  the owners of connections. Both live on the heap. \<^verbatim>\<open>std::map<string, TcpConnectionPtr>\<close> is a list
  sorted by key. The addresses of the objects an operation allocates are arguments; \<open>run_ev\<close> is what
  a connection's callbacks do, \<open>run_init\<close> what a thread initialisation callback does, \<open>lib\<close> the text
  form of addresses.
\<close>

section \<open>A map with string keys\<close>

text \<open>\<^verbatim>\<open>std::string\<close> compares bytes as unsigned numbers.\<close>

fun str_less :: "string \<Rightarrow> string \<Rightarrow> bool" where
  "str_less xs [] = False"
| "str_less [] (y # ys) = True"
| "str_less (x # xs) (y # ys) =
     (if x = y then str_less xs ys else (of_char x :: nat) < of_char y)"

type_synonym conn_map = "(string \<times> ptr) list"

fun map_put :: "string \<Rightarrow> ptr \<Rightarrow> conn_map \<Rightarrow> conn_map" where
  "map_put k v [] = [(k, v)]"
| "map_put k v ((k', v') # m) =
     (if k = k' then (k, v) # m
      else if str_less k k' then (k, v) # (k', v') # m
      else (k', v') # map_put k v m)"

definition map_erase :: "string \<Rightarrow> conn_map \<Rightarrow> conn_map" where
  "map_erase k m = filter (\<lambda>e. fst e \<noteq> k) m"


section \<open>TcpServer\<close>

record tcp_server =
  sv_loop :: ptr
  sv_ipPort :: string
  sv_name :: string
  sv_acceptor :: ptr
  sv_threadPool :: loop_pool
  sv_connectionCallback :: "nat option"
  sv_messageCallback :: "nat option"
  sv_writeCompleteCallback :: "nat option"
  sv_threadInitCallback :: "nat option"
  sv_started :: bool
  sv_nextConnId :: int
  sv_connections :: conn_map

record srv_world = con_world +
  servers :: "ptr \<Rightarrow> tcp_server option"

definition server_get :: "ptr \<Rightarrow> 'z srv_world_scheme \<Rightarrow> tcp_server res" where
  "server_get S w =
     (case servers w S of
        None \<Rightarrow> Inl (Undefined ''use of a destroyed TcpServer'')
      | Some sv \<Rightarrow> Inr sv)"

definition server_put :: "ptr \<Rightarrow> tcp_server \<Rightarrow> 'z srv_world_scheme \<Rightarrow> 'z srv_world_scheme" where
  "server_put S sv w = w\<lparr>servers := (servers w)(S := Some sv)\<rparr>"

definition server_mod ::
    "ptr \<Rightarrow> (tcp_server \<Rightarrow> tcp_server) \<Rightarrow> 'z srv_world_scheme \<Rightarrow> 'z srv_world_scheme res" where
  "server_mod S f w = res_bind (server_get S w) (\<lambda>sv. Inr (server_put S (f sv) w))"

definition int_inc :: "int \<Rightarrow> int res" where
  "int_inc n = (if n = 2147483647 then Inl (Undefined ''signed overflow'') else Inr (n + 1))"

text \<open>\<^verbatim>\<open>ipPort_\<close> is not in the initialiser list: it stays empty.\<close>

definition TcpServer_new ::
    "inet_lib \<Rightarrow> ptr \<Rightarrow> ptr \<Rightarrow> ptr \<Rightarrow> ptr \<Rightarrow> inet_address \<Rightarrow> string \<Rightarrow> bool \<Rightarrow>
     'z srv_world_scheme \<Rightarrow> 'z srv_world_scheme res" where
  "TcpServer_new lib S A ch L listenAddr nameArg kReusePort w =
     res_bind (Acceptor_new A ch L listenAddr kReusePort w) (\<lambda>w1.
     res_bind (Acceptor_setNewConnectionCallback S A w1) (\<lambda>w2.
       Inr (server_put S
         \<lparr>sv_loop = L, sv_ipPort = [], sv_name = InetAddress_toIpPort lib listenAddr, sv_acceptor = A,
          sv_threadPool = EventLoopThreadPool_new L nameArg, sv_connectionCallback = None,
          sv_messageCallback = None, sv_writeCompleteCallback = None, sv_threadInitCallback = None,
          sv_started = False, sv_nextConnId = 1, sv_connections = []\<rparr> w2)))"

definition TcpServer_setConnectionCallback :: "nat option \<Rightarrow> tcp_server \<Rightarrow> tcp_server" where
  "TcpServer_setConnectionCallback cb sv = sv\<lparr>sv_connectionCallback := cb\<rparr>"

definition TcpServer_setMessageCallback :: "nat option \<Rightarrow> tcp_server \<Rightarrow> tcp_server" where
  "TcpServer_setMessageCallback cb sv = sv\<lparr>sv_messageCallback := cb\<rparr>"

definition TcpServer_setWriteCompleteCallback :: "nat option \<Rightarrow> tcp_server \<Rightarrow> tcp_server" where
  "TcpServer_setWriteCompleteCallback cb sv = sv\<lparr>sv_writeCompleteCallback := cb\<rparr>"

definition TcpServer_setThreadInitCallback :: "nat option \<Rightarrow> tcp_server \<Rightarrow> tcp_server" where
  "TcpServer_setThreadInitCallback cb sv = sv\<lparr>sv_threadInitCallback := cb\<rparr>"

definition TcpServer_setThreadNum :: "int \<Rightarrow> ptr \<Rightarrow> 'z srv_world_scheme \<Rightarrow> 'z srv_world_scheme res" where
  "TcpServer_setThreadNum numThreads S w =
     res_bind (cassert (0 \<le> numThreads) ''0 <= numThreads'') (\<lambda>_.
       server_mod S (\<lambda>sv. sv\<lparr>sv_threadPool :=
         EventLoopThreadPool_setThreadNum numThreads (sv_threadPool sv)\<rparr>) w)"

definition TcpServer_start ::
    "(nat \<Rightarrow> ptr \<Rightarrow> 'z srv_world_scheme \<Rightarrow> 'z srv_world_scheme res) \<Rightarrow> (nat \<Rightarrow> fresh) \<Rightarrow> nat \<Rightarrow> ptr \<Rightarrow>
     'z srv_world_scheme \<Rightarrow> 'z srv_world_scheme res" where
  "TcpServer_start run_init fr me S w =
     res_bind (server_get S w) (\<lambda>sv.
       if sv_started sv then Inr w
       else
         res_bind (EventLoopThreadPool_start run_init fr me (sv_threadInitCallback sv)
                    (sv_threadPool sv) (server_put S (sv\<lparr>sv_started := True\<rparr>) w)) (\<lambda>(p, w1).
         res_bind (server_mod S (\<lambda>sv. sv\<lparr>sv_threadPool := p\<rparr>) w1) (\<lambda>w2.
         res_bind (acceptor_get (sv_acceptor sv) w2) (\<lambda>ac.
         res_bind (cassert (\<not> ac_listenning ac) ''!acceptor_->listenning()'') (\<lambda>_.
           Acceptor_listen me (sv_acceptor sv) w2)))))"

text \<open>\<^verbatim>\<open>snprintf(buf, 64, "-%s#%d", ...)\<close> after the server's name.\<close>

definition server_conn_name :: "tcp_server \<Rightarrow> string" where
  "server_conn_name sv =
     sv_name sv @ take 63 (''-'' @ c_str (sv_ipPort sv) @ ''#'' @ decimal (sv_nextConnId sv))"

definition TcpServer_newConnection ::
    "(conn_event \<Rightarrow> ptr \<Rightarrow> 'z srv_world_scheme \<Rightarrow> 'z srv_world_scheme res) \<Rightarrow> nat \<Rightarrow> ptr \<Rightarrow> ptr \<Rightarrow> ptr \<Rightarrow>
     int \<Rightarrow> inet_address \<Rightarrow> 'z srv_world_scheme \<Rightarrow> 'z srv_world_scheme res" where
  "TcpServer_newConnection run_ev me C ch S sockfd peerAddr w =
     res_bind (server_get S w) (\<lambda>sv.
     res_bind (EventLoop_assertInLoopThread me (sv_loop sv) w) (\<lambda>_.
     res_bind (EventLoopThreadPool_getNextLoop me (sv_threadPool sv) w) (\<lambda>(ioLoop, p).
     res_bind (int_inc (sv_nextConnId sv)) (\<lambda>next.
     let connName = server_conn_name sv in
     res_bind (TcpConnection_new C ch ioLoop connName sockfd (sockets_getLocalAddr sockfd w) peerAddr
                (server_put S (sv\<lparr>sv_threadPool := p, sv_nextConnId := next\<rparr>) w)) (\<lambda>w1.
     res_bind (server_mod S (\<lambda>sv. sv\<lparr>sv_connections := map_put connName C (sv_connections sv)\<rparr>) w1) (\<lambda>w2.
     res_bind (conn_mod C (\<lambda>tc.
         TcpConnection_setCloseCallback (Some (CloseServer S))
           (TcpConnection_setWriteCompleteCallback (sv_writeCompleteCallback sv)
             (TcpConnection_setMessageCallback (sv_messageCallback sv)
               (TcpConnection_setConnectionCallback (sv_connectionCallback sv) tc)))) w2) (\<lambda>w3.
       EventLoop_runInLoop me ioLoop (FConnEstablished C)
         (TcpConnection_connectEstablished run_ev me C) w3)))))))"

text \<open>\<^verbatim>\<open>assert(n = 1)\<close> assigns, so it tests nothing.\<close>

definition TcpServer_removeConnectionInLoop ::
    "nat \<Rightarrow> ptr \<Rightarrow> ptr \<Rightarrow> 'z srv_world_scheme \<Rightarrow> 'z srv_world_scheme res" where
  "TcpServer_removeConnectionInLoop me S C w =
     res_bind (server_get S w) (\<lambda>sv.
     res_bind (EventLoop_assertInLoopThread me (sv_loop sv) w) (\<lambda>_.
     res_bind (conn_get C w) (\<lambda>tc.
       EventLoop_queueInLoop me (tc_loop tc) (FConnDestroyed C)
         (server_put S (sv\<lparr>sv_connections := map_erase (tc_name tc) (sv_connections sv)\<rparr>) w))))"

definition TcpServer_removeConnection ::
    "nat \<Rightarrow> ptr \<Rightarrow> ptr \<Rightarrow> 'z srv_world_scheme \<Rightarrow> 'z srv_world_scheme res" where
  "TcpServer_removeConnection me S C w =
     res_bind (server_get S w) (\<lambda>sv.
       EventLoop_runInLoop me (sv_loop sv) (FServerRemove S C)
         (TcpServer_removeConnectionInLoop me S C) w)"

text \<open>
  The destructor and those of the members, in reverse order: the pool, then the acceptor. The reference
  of each connection moves from the map to a local pointer, which goes at the end of each round; what
  that does is the argument \<open>release\<close>. A pointer that was reset is taken out of the map.
\<close>

definition TcpServer_dtor ::
    "(conn_event \<Rightarrow> ptr \<Rightarrow> 'z srv_world_scheme \<Rightarrow> 'z srv_world_scheme res) \<Rightarrow>
     (ptr \<Rightarrow> 'z srv_world_scheme \<Rightarrow> 'z srv_world_scheme res) \<Rightarrow> nat \<Rightarrow> ptr \<Rightarrow>
     'z srv_world_scheme \<Rightarrow> 'z srv_world_scheme res" where
  "TcpServer_dtor run_ev release me S w =
     res_bind (server_get S w) (\<lambda>sv.
     res_bind (EventLoop_assertInLoopThread me (sv_loop sv) w) (\<lambda>_.
     res_bind (run_all (\<lambda>(name, C) v.
                 res_bind (server_mod S (\<lambda>sv. sv\<lparr>sv_connections := map_erase name (sv_connections sv)\<rparr>) v) (\<lambda>v1.
                 res_bind (conn_get C v1) (\<lambda>tc.
                 res_bind (EventLoop_runInLoop me (tc_loop tc) (FConnDestroyed C)
                     (TcpConnection_connectDestroyed run_ev me C) v1) (release C))))
                (sv_connections sv) w) (\<lambda>w1.
     res_bind (EventLoopThreadPool_dtor me (sv_threadPool sv) w1) (\<lambda>w2.
     res_bind (Acceptor_dtor (sv_acceptor sv) w2) (\<lambda>w3.
       Inr (w3\<lparr>servers := (servers w3)(S := None)\<rparr>))))))"


section \<open>TcpClient\<close>

record tcp_client =
  cl_loop :: ptr
  cl_connector :: ptr
  cl_connectionCallback :: "nat option"
  cl_messageCallback :: "nat option"
  cl_writeCompleteCallback :: "nat option"
  cl_retry :: bool
  cl_connect :: bool
  cl_nextConnId :: int
  cl_connection :: "ptr option"

record cli_world = srv_world +
  clients :: "ptr \<Rightarrow> tcp_client option"

definition client_get :: "ptr \<Rightarrow> 'z cli_world_scheme \<Rightarrow> tcp_client res" where
  "client_get T w =
     (case clients w T of
        None \<Rightarrow> Inl (Undefined ''use of a destroyed TcpClient'')
      | Some cl \<Rightarrow> Inr cl)"

definition client_put :: "ptr \<Rightarrow> tcp_client \<Rightarrow> 'z cli_world_scheme \<Rightarrow> 'z cli_world_scheme" where
  "client_put T cl w = w\<lparr>clients := (clients w)(T := Some cl)\<rparr>"

definition client_mod ::
    "ptr \<Rightarrow> (tcp_client \<Rightarrow> tcp_client) \<Rightarrow> 'z cli_world_scheme \<Rightarrow> 'z cli_world_scheme res" where
  "client_mod T f w = res_bind (client_get T w) (\<lambda>cl. Inr (client_put T (f cl) w))"

text \<open>The numbers of \<^verbatim>\<open>defaultConnectionCallback\<close> and \<^verbatim>\<open>defaultMessageCallback\<close> among the callbacks.\<close>

definition default_connection_cb :: nat where "default_connection_cb = 0"
definition default_message_cb :: nat where "default_message_cb = 1"

definition TcpClient_new ::
    "ptr \<Rightarrow> ptr \<Rightarrow> ptr \<Rightarrow> inet_address \<Rightarrow> 'z cli_world_scheme \<Rightarrow> 'z cli_world_scheme res" where
  "TcpClient_new T K L serverAddr w =
     Connector_setNewConnectionCallback T K
       (client_put T
         \<lparr>cl_loop = L, cl_connector = K, cl_connectionCallback = Some default_connection_cb,
          cl_messageCallback = Some default_message_cb, cl_writeCompleteCallback = None,
          cl_retry = False, cl_connect = True, cl_nextConnId = 1, cl_connection = None\<rparr>
         (Connector_new K L serverAddr w))"

definition TcpClient_enableRetry :: "tcp_client \<Rightarrow> tcp_client" where
  "TcpClient_enableRetry cl = cl\<lparr>cl_retry := True\<rparr>"

definition TcpClient_setConnectionCallback :: "nat option \<Rightarrow> tcp_client \<Rightarrow> tcp_client" where
  "TcpClient_setConnectionCallback cb cl = cl\<lparr>cl_connectionCallback := cb\<rparr>"

definition TcpClient_setMessageCallback :: "nat option \<Rightarrow> tcp_client \<Rightarrow> tcp_client" where
  "TcpClient_setMessageCallback cb cl = cl\<lparr>cl_messageCallback := cb\<rparr>"

definition TcpClient_setWriteCompleteCallback :: "nat option \<Rightarrow> tcp_client \<Rightarrow> tcp_client" where
  "TcpClient_setWriteCompleteCallback cb cl = cl\<lparr>cl_writeCompleteCallback := cb\<rparr>"

definition TcpClient_connect ::
    "nat \<Rightarrow> ptr \<Rightarrow> ptr \<Rightarrow> ptr \<Rightarrow> 'z cli_world_scheme \<Rightarrow> 'z cli_world_scheme res" where
  "TcpClient_connect me ch tm T w =
     res_bind (client_get T w) (\<lambda>cl.
       Connector_start me ch tm (cl_connector cl) (client_put T (cl\<lparr>cl_connect := True\<rparr>) w))"

definition TcpClient_disconnect :: "nat \<Rightarrow> ptr \<Rightarrow> 'z cli_world_scheme \<Rightarrow> 'z cli_world_scheme res" where
  "TcpClient_disconnect me T w =
     res_bind (client_get T w) (\<lambda>cl.
     let w1 = client_put T (cl\<lparr>cl_connect := False\<rparr>) w in
       case cl_connection cl of
         None \<Rightarrow> Inr w1
       | Some C \<Rightarrow> TcpConnection_shutdown me C w1)"

definition TcpClient_stop :: "nat \<Rightarrow> ptr \<Rightarrow> 'z cli_world_scheme \<Rightarrow> 'z cli_world_scheme res" where
  "TcpClient_stop me T w =
     res_bind (client_get T w) (\<lambda>cl.
       Connector_stop me (cl_connector cl) (client_put T (cl\<lparr>cl_connect := False\<rparr>) w))"

text \<open>\<^verbatim>\<open>snprintf(buf, 32, ":%s#%d", ...)\<close>.\<close>

definition client_conn_name :: "inet_lib \<Rightarrow> inet_address \<Rightarrow> int \<Rightarrow> string" where
  "client_conn_name lib peerAddr connId =
     take 31 ('':'' @ c_str (InetAddress_toIpPort lib peerAddr) @ ''#'' @ decimal connId)"

definition TcpClient_newConnection ::
    "inet_lib \<Rightarrow> (conn_event \<Rightarrow> ptr \<Rightarrow> 'z cli_world_scheme \<Rightarrow> 'z cli_world_scheme res) \<Rightarrow> nat \<Rightarrow> ptr \<Rightarrow> ptr \<Rightarrow>
     ptr \<Rightarrow> int \<Rightarrow> 'z cli_world_scheme \<Rightarrow> 'z cli_world_scheme res" where
  "TcpClient_newConnection lib run_ev me C ch T sockfd w =
     res_bind (client_get T w) (\<lambda>cl.
     res_bind (EventLoop_assertInLoopThread me (cl_loop cl) w) (\<lambda>_.
     let peerAddr = sockets_getPeerAddr sockfd w;
         connName = client_conn_name lib peerAddr (cl_nextConnId cl) in
     res_bind (int_inc (cl_nextConnId cl)) (\<lambda>next.
     res_bind (TcpConnection_new C ch (cl_loop cl) connName sockfd (sockets_getLocalAddr sockfd w) peerAddr
                (client_put T (cl\<lparr>cl_nextConnId := next\<rparr>) w)) (\<lambda>w1.
     res_bind (conn_mod C (\<lambda>tc.
         TcpConnection_setCloseCallback (Some (CloseClient T))
           (TcpConnection_setWriteCompleteCallback (cl_writeCompleteCallback cl)
             (TcpConnection_setMessageCallback (cl_messageCallback cl)
               (TcpConnection_setConnectionCallback (cl_connectionCallback cl) tc)))) w1) (\<lambda>w2.
     res_bind (client_mod T (\<lambda>cl. cl\<lparr>cl_connection := Some C\<rparr>) w2) (\<lambda>w3.
       TcpConnection_connectEstablished run_ev me C w3))))))"

definition TcpClient_removeConnection ::
    "nat \<Rightarrow> ptr \<Rightarrow> ptr \<Rightarrow> ptr \<Rightarrow> ptr \<Rightarrow> 'z cli_world_scheme \<Rightarrow> 'z cli_world_scheme res" where
  "TcpClient_removeConnection me ch tm T C w =
     res_bind (client_get T w) (\<lambda>cl.
     res_bind (EventLoop_assertInLoopThread me (cl_loop cl) w) (\<lambda>_.
     res_bind (conn_get C w) (\<lambda>tc.
     res_bind (cassert (cl_loop cl = tc_loop tc) ''loop_ == conn->getLoop()'') (\<lambda>_.
     res_bind (cassert (cl_connection cl = Some C) ''connection_ == conn'') (\<lambda>_.
     res_bind (EventLoop_queueInLoop me (cl_loop cl) (FConnDestroyed C)
                (client_put T (cl\<lparr>cl_connection := None\<rparr>) w)) (\<lambda>w1.
       if cl_retry cl \<and> cl_connect cl then Connector_restart me ch tm (cl_connector cl) w1
       else Inr w1))))))"

text \<open>The function bound by \<^verbatim>\<open>~TcpClient\<close> as the close callback of a connection that outlives the client.\<close>

definition client_removeConnection ::
    "nat \<Rightarrow> ptr \<Rightarrow> ptr \<Rightarrow> 'z cli_world_scheme \<Rightarrow> 'z cli_world_scheme res" where
  "client_removeConnection me L C w = EventLoop_queueInLoop me L (FConnDestroyed C) w"

text \<open>The functor \<^verbatim>\<open>~TcpClient\<close> gives to its loop: \<^verbatim>\<open>conn->setCloseCallback(cb)\<close>.\<close>

definition client_detach :: "ptr \<Rightarrow> ptr \<Rightarrow> 'z conn_world_scheme \<Rightarrow> 'z conn_world_scheme res" where
  "client_detach C L w = conn_mod C (TcpConnection_setCloseCallback (Some (CloseDetached L))) w"

text \<open>
  \<^verbatim>\<open>~TcpClient\<close>, and its members in reverse order: the reference to the connection goes (argument \<open>release\<close>),
  and the connector, which only the client points to, is destroyed.
\<close>

definition TcpClient_dtor ::
    "(ptr \<Rightarrow> 'z cli_world_scheme \<Rightarrow> 'z cli_world_scheme res) \<Rightarrow> nat \<Rightarrow> ptr \<Rightarrow>
     'z cli_world_scheme \<Rightarrow> 'z cli_world_scheme res" where
  "TcpClient_dtor release me T w =
     res_bind (client_get T w) (\<lambda>cl.
     res_bind (case cl_connection cl of
                 Some C \<Rightarrow>
                   res_bind (EventLoop_runInLoop me (cl_loop cl) (FConnSetClose C (cl_loop cl))
                              (client_detach C (cl_loop cl)) w) (\<lambda>w1.
                   res_bind (client_mod T (\<lambda>cl. cl\<lparr>cl_connection := None\<rparr>) w1) (release C))
               | None \<Rightarrow> Connector_stop me (cl_connector cl) w) (\<lambda>w1.
     res_bind (Connector_dtor me (cl_connector cl) w1) (\<lambda>w2.
       Inr (w2\<lparr>clients := (clients w2)(T := None)\<rparr>))))"

end
