(* ===== verification/Server_Laws.thy ===== *)
theory Server_Laws
  imports Tcp_Server Conn_Output
begin

text \<open>
  Properties of the owners of connections: which connections a \<^verbatim>\<open>TcpServer\<close> holds, how an \<^verbatim>\<open>Acceptor\<close> uses
  descriptors, and when and how a \<^verbatim>\<open>Connector\<close> tries again.
\<close>

section \<open>The map of connections\<close>

fun map_sorted :: "conn_map \<Rightarrow> bool" where
  "map_sorted [] = True"
| "map_sorted ((k, v) # m) = ((\<forall>k' \<in> fst ` set m. str_less k k') \<and> map_sorted m)"

lemma str_less_irrefl [simp]: "\<not> str_less xs xs"
  by (induction xs) simp_all

lemma str_less_total: "xs \<noteq> ys \<Longrightarrow> str_less xs ys \<or> str_less ys xs"
proof (induction xs ys rule: str_less.induct)
  case (3 x xs y ys)
  show ?case
  proof (cases "x = y")
    case False
    then have "(of_char x :: nat) \<noteq> of_char y"
      by simp
    then have "(of_char x :: nat) < of_char y \<or> (of_char y :: nat) < of_char x"
      by (rule linorder_neq_iff[THEN iffD1])
    then show ?thesis
      using False by simp
  qed (use 3 in simp)
next
  case (1 xs)
  then show ?case by (cases xs) simp_all
qed simp

lemma str_less_trans: "str_less xs ys \<Longrightarrow> str_less ys zs \<Longrightarrow> str_less xs zs"
proof (induction xs zs arbitrary: ys rule: str_less.induct)
  case (3 x xs z zs)
  then show ?case
    by (cases ys) (auto split: if_splits dest: less_trans)
next
  case (1 xs)
  then show ?case by simp
next
  case (2 y ys)
  then show ?case by simp
qed

lemma map_put_set:
  "map_sorted m \<Longrightarrow> set (map_put k v m) = insert (k, v) {e \<in> set m. fst e \<noteq> k}"
  by (induction m rule: map_sorted.induct) (auto dest: str_less_trans)

lemma map_put_keys: "fst ` set (map_put k v m) = insert k (fst ` set m)"
  by (induction m rule: map_sorted.induct) auto

lemma map_put_sorted: "map_sorted m \<Longrightarrow> map_sorted (map_put k v m)"
  by (induction m rule: map_sorted.induct)
    (auto simp: map_put_keys dest: str_less_total str_less_trans)

lemma map_erase_sorted: "map_sorted m \<Longrightarrow> map_sorted (map_erase k m)"
  by (induction m rule: map_sorted.induct) (auto simp: map_erase_def)

lemma map_sorted_functional:
  "map_sorted m \<Longrightarrow> (k, v) \<in> set m \<Longrightarrow> (k, v') \<in> set m \<Longrightarrow> v = v'"
proof (induction m rule: map_sorted.induct)
  case (2 k0 v0 m)
  have "k0 \<notin> fst ` set m"
    using 2(2) by force
  then show ?case
    using 2 by force
qed simp


section \<open>What a server holds\<close>

lemma decimal_inject: "decimal i = decimal j \<Longrightarrow> i = j"
  by (metis parse_decimal_decimal)

lemma server_name:
  assumes "sv_ipPort sv = []" and "1 \<le> sv_nextConnId sv" and "sv_nextConnId sv \<le> 2147483647"
  shows "server_conn_name sv = sv_name sv @ ''-#'' @ decimal (sv_nextConnId sv)"
  using assms length_decimal[of "sv_nextConnId sv"] by (simp add: server_conn_name_def c_str_def)

definition name_of :: "ptr \<Rightarrow> 'z conn_world_scheme \<Rightarrow> string option" where
  "name_of C w = map_option tc_name (conns w C)"

definition held :: "ptr \<Rightarrow> 'z srv_world_scheme \<Rightarrow> ptr set" where
  "held S w = (case servers w S of None \<Rightarrow> {} | Some sv \<Rightarrow> snd ` set (sv_connections sv))"

text \<open>The invariant of a server: its map is sorted, and each entry is filed under its connection's name, which
  carries a number already given out.\<close>

definition server_inv :: "ptr \<Rightarrow> 'z srv_world_scheme \<Rightarrow> bool" where
  "server_inv S w \<longleftrightarrow>
     (case servers w S of
        None \<Rightarrow> False
      | Some sv \<Rightarrow>
          map_sorted (sv_connections sv) \<and> sv_ipPort sv = [] \<and>
          1 \<le> sv_nextConnId sv \<and> sv_nextConnId sv \<le> 2147483647 \<and>
          (\<forall>(k, C) \<in> set (sv_connections sv). name_of C w = Some k \<and>
             (\<exists>i. 1 \<le> i \<and> i < sv_nextConnId sv \<and> k = sv_name sv @ ''-#'' @ decimal i)))"

lemma server_get_Inr [simp]: "server_get S w = Inr sv \<longleftrightarrow> servers w S = Some sv"
  by (simp add: server_get_def split: option.splits)

lemma server_put_simps [simp]:
  "servers (server_put S sv w) = (servers w)(S := Some sv)" "conns (server_put S sv w) = conns w"
  "loops (server_put S sv w) = loops w" "chans (server_put S sv w) = chans w"
  by (simp_all add: server_put_def)

lemma conn_put_servers [simp]: "servers (conn_put C tc w) = servers w"
  by (simp add: conn_put_def)

lemma world_more_srv:
  assumes "world.more w' = world.more w"
  shows "conns w' = conns w \<and> servers w' = servers w"
  using assms by (cases w; cases w'; simp)

text \<open>What callbacks are assumed to leave alone: the servers and the names of connections.\<close>

definition tracks :: "'z srv_world_scheme \<Rightarrow> 'z srv_world_scheme \<Rightarrow> bool" where
  "tracks v v' \<longleftrightarrow> servers v' = servers v \<and> (\<forall>D. name_of D v' = name_of D v)"

lemma tracks_trans: "tracks w w1 \<Longrightarrow> tracks w1 w2 \<Longrightarrow> tracks w w2"
  by (simp add: tracks_def)

lemma tracks_more: "world.more w' = world.more w \<Longrightarrow> tracks w w'"
  using world_more_srv[of w' w] by (simp add: tracks_def name_of_def)

lemma tracks_put: "conns w C = Some tc \<Longrightarrow> tc_name tc' = tc_name tc \<Longrightarrow> tracks w (conn_put C tc' w)"
  by (simp add: tracks_def name_of_def)

lemma tracks_queue: "EventLoop_queueInLoop me L f w = Inr w' \<Longrightarrow> tracks w w'"
  using EventLoop_queueInLoop_Inr[of me L f w w'] by (intro tracks_more) blast

lemma tracks_established:
  assumes run: "TcpConnection_connectEstablished run_ev me C w = Inr w'"
    and frame: "\<And>ev D v v'. run_ev ev D v = Inr v' \<Longrightarrow> tracks v v'"
  shows "tracks w w'"
proof -
  obtain tc w2 where tc: "conns w C = Some tc"
    and int: "Channel_interest me EnableReading (tc_channel tc) (conn_put C (tc\<lparr>tc_state := kConnected\<rparr>) w) = Inr w2"
    and call: "call_connection run_ev C w2 = Inr w'"
    using run by (auto simp: TcpConnection_connectEstablished_def TcpConnection_setState_def conn_mod_def res_bind_eq_Inr)
  have "tracks w (conn_put C (tc\<lparr>tc_state := kConnected\<rparr>) w)"
    using tc by (rule tracks_put) simp
  moreover have "tracks (conn_put C (tc\<lparr>tc_state := kConnected\<rparr>) w) w2"
    using int by (intro tracks_more Channel_interest_more)
  moreover have "tracks w2 w'"
    using call frame by (auto simp: call_connection_def res_bind_eq_Inr split: option.splits)
  ultimately show ?thesis
    using tracks_trans by blast
qed

lemma TcpConnection_new_Inr:
  assumes "TcpConnection_new C ch L name fd la pa w = Inr w1"
  shows "servers w1 = servers w \<and> loops w1 = loops w \<and>
     (\<exists>tc. conns w1 = (conns w)(C := Some tc) \<and> tc_name tc = name \<and> tc_loop tc = L)"
proof -
  obtain b c where "Socket_setKeepAlive True fd (conn_put C
       \<lparr>tc_loop = L, tc_name = name, tc_state = kConnecting, tc_reading = True,
        tc_socket = fd, tc_channel = ch, tc_localAddr = la,
        tc_peerAddr = pa, tc_connectionCallback = None, tc_messageCallback = None,
        tc_writeCompleteCallback = None, tc_highWaterMarkCallback = None,
        tc_closeCallback = None, tc_highWaterMark = 64 * 1024 * 1024,
        tc_inputBuffer = b, tc_outputBuffer = b, tc_context = None\<rparr> (chan_put ch c w)) = Inr w1"
    (is "Socket_setKeepAlive True fd ?v = _")
    using assms by (auto simp: TcpConnection_new_def res_bind_eq_Inr Let_def)
  then have "os_step ?v w1"
    by (auto simp: Socket_setKeepAlive_def Socket_setsockopt_def res_bind_eq_Inr dest: sys_int_os_step)
  then show ?thesis
    using os_step_world[of ?v w1] world_more_srv[of w1 ?v] by (auto simp: chan_put_def conn_put_def)
qed

lemma newConnection_effect:
  assumes run: "TcpServer_newConnection run_ev me C ch S fd pa w = Inr w'"
    and frame: "\<And>ev D v v'. run_ev ev D v = Inr v' \<Longrightarrow> tracks v v'"
    and sv: "servers w S = Some sv"
  shows "sv_nextConnId sv \<noteq> 2147483647 \<and>
     (\<exists>p. servers w' S = Some (sv\<lparr>sv_threadPool := p, sv_nextConnId := sv_nextConnId sv + 1,
        sv_connections := map_put (server_conn_name sv) C (sv_connections sv)\<rparr>)) \<and>
     name_of C w' = Some (server_conn_name sv) \<and> (\<forall>D. D \<noteq> C \<longrightarrow> name_of D w' = name_of D w)"
proof -
  obtain L p where pick: "EventLoopThreadPool_getNextLoop me (sv_threadPool sv) w = Inr (L, p)"
    and id: "sv_nextConnId sv \<noteq> 2147483647"
    using run sv by (auto simp: TcpServer_newConnection_def res_bind_eq_Inr int_inc_def split: if_splits)
  let ?name = "server_conn_name sv"
  let ?sv = "sv\<lparr>sv_threadPool := p, sv_nextConnId := sv_nextConnId sv + 1\<rparr>"
  let ?f = "\<lambda>tc. TcpConnection_setCloseCallback (Some (CloseServer S))
           (TcpConnection_setWriteCompleteCallback (sv_writeCompleteCallback sv)
             (TcpConnection_setMessageCallback (sv_messageCallback sv)
               (TcpConnection_setConnectionCallback (sv_connectionCallback sv) tc)))"
  obtain w1 w2 w3 where w1: "TcpConnection_new C ch L ?name fd (sockets_getLocalAddr fd w) pa (server_put S ?sv w) = Inr w1"
    and w2: "server_mod S (\<lambda>sv. sv\<lparr>sv_connections := map_put ?name C (sv_connections sv)\<rparr>) w1 = Inr w2"
    and w3: "conn_mod C ?f w2 = Inr w3"
    and est: "EventLoop_runInLoop me L (FConnEstablished C) (TcpConnection_connectEstablished run_ev me C) w3 = Inr w'"
    using run sv pick id by (auto simp: TcpServer_newConnection_def res_bind_eq_Inr int_inc_def Let_def)
  have f: "tc_name (?f tc) = tc_name tc" for tc
    by (simp add: TcpConnection_setCloseCallback_def TcpConnection_setWriteCompleteCallback_def
        TcpConnection_setMessageCallback_def TcpConnection_setConnectionCallback_def)
  obtain tc where tc: "conns w1 = (conns w)(C := Some tc)" "tc_name tc = ?name" "servers w1 = (servers w)(S := Some ?sv)"
    using TcpConnection_new_Inr[OF w1] by auto
  have s2: "servers w2 = (servers w)(S := Some (?sv\<lparr>sv_connections := map_put ?name C (sv_connections sv)\<rparr>))"
      "conns w2 = conns w1"
    using w2 tc by (auto simp: server_mod_def res_bind_eq_Inr)
  have s3: "servers w3 = servers w2" "conns w3 = (conns w2)(C := Some (?f tc))"
    using w3 tc s2 by auto
  have "tracks w3 w'"
    using est tracks_established[OF _ frame] tracks_queue
    by (auto simp: EventLoop_runInLoop_def res_bind_eq_Inr split: if_splits)
  then show ?thesis
    using id s2 s3 tc f by (auto simp: tracks_def name_of_def)
qed

lemma removeConnection_effect:
  assumes run: "TcpServer_removeConnectionInLoop me S C w = Inr w'" and sv: "servers w S = Some sv"
  shows "\<exists>k. name_of C w = Some k \<and> servers w' S = Some (sv\<lparr>sv_connections := map_erase k (sv_connections sv)\<rparr>) \<and>
     (\<forall>D. name_of D w' = name_of D w)"
proof -
  obtain tc where tc: "conns w C = Some tc"
    and q: "EventLoop_queueInLoop me (tc_loop tc) (FConnDestroyed C)
       (server_put S (sv\<lparr>sv_connections := map_erase (tc_name tc) (sv_connections sv)\<rparr>) w) = Inr w'"
    using run sv by (auto simp: TcpServer_removeConnectionInLoop_def res_bind_eq_Inr)
  from tracks_queue[OF q] show ?thesis
    using tc by (auto simp: tracks_def name_of_def)
qed

datatype server_op =
    SrvNew ptr ptr int inet_address
  | SrvRemove ptr

fun server_exec ::
    "(conn_event \<Rightarrow> ptr \<Rightarrow> 'z srv_world_scheme \<Rightarrow> 'z srv_world_scheme res) \<Rightarrow> nat \<Rightarrow> ptr \<Rightarrow> server_op \<Rightarrow>
     'z srv_world_scheme \<Rightarrow> 'z srv_world_scheme res" where
  "server_exec run_ev me S (SrvNew C ch fd pa) w = TcpServer_newConnection run_ev me C ch S fd pa w"
| "server_exec run_ev me S (SrvRemove C) w = TcpServer_removeConnectionInLoop me S C w"

text \<open>The specification: a set of connections.\<close>

fun server_spec :: "server_op \<Rightarrow> ptr set \<Rightarrow> ptr set" where
  "server_spec (SrvNew C ch fd pa) X = insert C X"
| "server_spec (SrvRemove C) X = X - {C}"

text \<open>The rules: a new connection is at a new address, only a connection that is held is removed.\<close>

fun server_legal :: "server_op list \<Rightarrow> ptr set \<Rightarrow> bool" where
  "server_legal [] X = True"
| "server_legal (SrvNew C ch fd pa # ops) X = (C \<notin> X \<and> server_legal ops (insert C X))"
| "server_legal (SrvRemove C # ops) X = (C \<in> X \<and> server_legal ops (X - {C}))"

lemma server_new_step:
  assumes inv: "server_inv S w" and new: "C \<notin> held S w"
    and run: "TcpServer_newConnection run_ev me C ch S fd pa w = Inr w'"
    and frame: "\<And>ev D v v'. run_ev ev D v = Inr v' \<Longrightarrow> tracks v v'"
  shows "server_inv S w' \<and> held S w' = insert C (held S w)"
proof -
  obtain sv where sv: "servers w S = Some sv"
    using inv by (auto simp: server_inv_def split: option.splits)
  let ?k = "server_conn_name sv" and ?m = "sv_connections sv"
  have id: "sv_nextConnId sv \<noteq> 2147483647" and C: "name_of C w' = Some ?k"
    and other: "\<And>D. D \<noteq> C \<Longrightarrow> name_of D w' = name_of D w"
    and upd: "\<exists>p. servers w' S = Some (sv\<lparr>sv_threadPool := p, sv_nextConnId := sv_nextConnId sv + 1,
        sv_connections := map_put ?k C ?m\<rparr>)"
    using newConnection_effect[OF run frame sv] by auto
  obtain p where sv': "servers w' S = Some (sv\<lparr>sv_threadPool := p, sv_nextConnId := sv_nextConnId sv + 1,
        sv_connections := map_put ?k C ?m\<rparr>)"
    using upd by blast
  have sorted: "map_sorted ?m" and nums: "sv_ipPort sv = []" "1 \<le> sv_nextConnId sv" "sv_nextConnId sv \<le> 2147483647"
    and entries: "\<And>k D. (k, D) \<in> set ?m \<Longrightarrow> name_of D w = Some k \<and>
        (\<exists>i. 1 \<le> i \<and> i < sv_nextConnId sv \<and> k = sv_name sv @ ''-#'' @ decimal i)"
    using inv sv by (auto simp: server_inv_def)
  note name = server_name[OF nums]
  have fresh: "?k \<notin> fst ` set ?m"
  proof
    assume "?k \<in> fst ` set ?m"
    then obtain D where "(?k, D) \<in> set ?m"
      by force
    then obtain i where "i < sv_nextConnId sv" and "?k = sv_name sv @ ''-#'' @ decimal i"
      using entries by blast
    then show False
      using name decimal_inject[of i "sv_nextConnId sv"] by simp
  qed
  have set': "set (map_put ?k C ?m) = insert (?k, C) (set ?m)"
  proof -
    have "fst e \<noteq> ?k" if "e \<in> set ?m" for e
      using fresh that by (metis imageI)
    then show ?thesis
      using map_put_set[OF sorted, of ?k C] by auto
  qed
  have notC: "D \<noteq> C" if "(k, D) \<in> set ?m" for k D
    using that new sv by (force simp: held_def)
  have "name_of D w' = Some k \<and>
      (\<exists>i. 1 \<le> i \<and> i < sv_nextConnId sv + 1 \<and> k = sv_name sv @ ''-#'' @ decimal i)"
    if "(k, D) \<in> set (map_put ?k C ?m)" for k D
  proof (cases "(k, D) \<in> set ?m")
    case True
    then obtain i where "1 \<le> i" "i < sv_nextConnId sv" "k = sv_name sv @ ''-#'' @ decimal i"
      using entries by blast
    then show ?thesis
      using entries[OF True] other[OF notC[OF True]] by (intro conjI exI[of _ i]) auto
  next
    case False
    then show ?thesis
      using that set' C name nums by (intro conjI exI[of _ "sv_nextConnId sv"]) auto
  qed
  then have "server_inv S w'"
    using sv' map_put_sorted[OF sorted] nums id by (auto simp: server_inv_def)
  then show ?thesis
    using sv sv' set' by (auto simp: held_def)
qed

lemma server_remove_step:
  assumes inv: "server_inv S w" and C: "C \<in> held S w"
    and run: "TcpServer_removeConnectionInLoop me S C w = Inr w'"
  shows "server_inv S w' \<and> held S w' = held S w - {C}"
proof -
  obtain sv where sv: "servers w S = Some sv"
    using inv by (auto simp: server_inv_def split: option.splits)
  let ?m = "sv_connections sv"
  obtain k where k: "name_of C w = Some k"
    and sv': "servers w' S = Some (sv\<lparr>sv_connections := map_erase k ?m\<rparr>)"
    and names: "\<And>D. name_of D w' = name_of D w"
    using removeConnection_effect[OF run sv] by auto
  have sorted: "map_sorted ?m" and entries: "\<And>j D. (j, D) \<in> set ?m \<Longrightarrow> name_of D w = Some j"
    using inv sv by (auto simp: server_inv_def)
  have kC: "(k, C) \<in> set ?m"
    using C sv entries k by (fastforce simp: held_def)
  have "j = k \<longleftrightarrow> D = C" if "(j, D) \<in> set ?m" for j D
    using that kC map_sorted_functional[OF sorted] entries k by fastforce
  then have "snd ` set (map_erase k ?m) = snd ` set ?m - {C}"
    by (force simp: map_erase_def)
  moreover have "server_inv S w'"
    using inv sv sv' names map_erase_sorted[OF sorted, of k]
    by (auto simp: server_inv_def map_erase_def)
  ultimately show ?thesis
    using sv sv' by (simp add: held_def)
qed

lemma server_execs:
  assumes "run_all (server_exec run_ev me S) ops w = Inr w'" and "server_inv S w"
    and "server_legal ops (held S w)"
    and frame: "\<And>ev D v v'. run_ev ev D v = Inr v' \<Longrightarrow> tracks v v'"
  shows "server_inv S w' \<and> held S w' = fold server_spec ops (held S w)"
  using assms(1-3)
proof (induction ops arbitrary: w)
  case (Cons op ops)
  then obtain w1 where op: "server_exec run_ev me S op w = Inr w1" and rest: "run_all (server_exec run_ev me S) ops w1 = Inr w'"
    by (auto simp: res_bind_eq_Inr)
  have "server_inv S w1 \<and> held S w1 = server_spec op (held S w) \<and> server_legal ops (held S w1)"
  proof (cases op)
    case (SrvNew C ch fd pa)
    have "server_inv S w1 \<and> held S w1 = insert C (held S w)"
    proof (rule server_new_step)
      show "TcpServer_newConnection run_ev me C ch S fd pa w = Inr w1"
        using op SrvNew by simp
    qed (use Cons.prems SrvNew frame in auto)
    then show ?thesis
      using Cons.prems SrvNew by simp
  next
    case (SrvRemove C)
    then show ?thesis
      using op Cons.prems server_remove_step[of S w C me w1] by simp
  qed
  then show ?case
    using Cons.IH[OF rest] by auto
qed simp

text \<open>
  C24. What a server holds. Start with a server that has had no connection yet and let any sequence of new
  connections and removals follow, where an address is not used for a new connection while the
  server holds it and only held connections are removed (a connection makes its close callback once).
  If each step runs through, the server holds exactly the connections that came and have not been
  removed: no entry of the map overwrites or removes another, since the names, which carry the
  running number, stay different, until the number would overflow, which is undefined.
\<close>

theorem server_tracks_connections:
  assumes sv: "servers w S = Some sv" "sv_connections sv = []" "sv_nextConnId sv = 1" "sv_ipPort sv = []"
    and legal: "server_legal ops {}" and run: "run_all (server_exec run_ev me S) ops w = Inr w'"
    and frame: "\<And>ev D v v'. run_ev ev D v = Inr v' \<Longrightarrow> tracks v v'"
  shows "server_inv S w' \<and> held S w' = fold server_spec ops {}"
proof -
  have "server_inv S w" and empty: "held S w = {}"
    using sv by (simp_all add: server_inv_def held_def)
  then have "server_inv S w' \<and> held S w' = fold server_spec ops (held S w)"
    using server_execs[OF run _ _ frame] legal by auto
  then show ?thesis
    by (simp add: empty)
qed

definition srv_demo_server :: tcp_server where
  "srv_demo_server =
     \<lparr>sv_loop = 7, sv_ipPort = [], sv_name = ''srv'', sv_acceptor = 6,
      sv_threadPool = (EventLoopThreadPool_new 7 ''p'')\<lparr>lp_started := True\<rparr>,
      sv_connectionCallback = Some 4, sv_messageCallback = Some 2, sv_writeCompleteCallback = None,
      sv_threadInitCallback = None, sv_started = True, sv_nextConnId = 1, sv_connections = []\<rparr>"

definition srv_demo :: "sys_ret list \<Rightarrow> srv_world" where
  "srv_demo answers =
     \<lparr>tape = answers, trace = [], os_local = (\<lambda>_. None), os_peer = (\<lambda>_. None),
      chans = (\<lambda>_. None), statics = lt_statics, loops = [7 \<mapsto> conn_demo_loop],
      timers = (\<lambda>_. None), t_loopInThisThread = [9 \<mapsto> 7], conns = (\<lambda>_. None),
      acceptors = (\<lambda>_. None), connectors = (\<lambda>_. None), servers = [5 \<mapsto> srv_demo_server]\<rparr>"

lemmas srv_run_defs =
  TcpServer_newConnection_def TcpServer_removeConnectionInLoop_def EventLoopThreadPool_getNextLoop_def
  int_inc_def TcpConnection_new_def Socket_setKeepAlive_def Socket_setsockopt_def server_mod_def
  server_get_def server_put_def TcpConnection_setCloseCallback_def
  TcpConnection_setWriteCompleteCallback_def TcpConnection_setMessageCallback_def
  TcpConnection_setConnectionCallback_def Channel_setReadCallback_def Channel_setWriteCallback_def
  Channel_setCloseCallback_def Channel_setErrorCallback_def

lemma srv_demo_run:
  "\<exists>w'. run_all (server_exec (\<lambda>ev D. Inr) 9 5) [SrvNew 20 21 30 zero_address, SrvNew 22 23 31 zero_address, SrvRemove 20]
     (srv_demo [SysNum 0, SysNum 0]) = Inr w'"
proof -
  obtain b where b: "Buffer_new kInitialSize = Inr b"
    by (simp add: Buffer_new_def vector_new_def kInitialSize_def max_size_def Let_def
        Buffer_readableBytes_def Buffer_writableBytes_def)
  show ?thesis
    by (simp add: b srv_demo_def srv_demo_server_def EventLoopThreadPool_new_def srv_run_defs
        conn_demo_loop_def conn_run_defs del: replicate.simps)
qed

theorem server_tracks_connections_witness:
  "\<exists>w'. run_all (server_exec (\<lambda>ev D. Inr) 9 5) [SrvNew 20 21 30 zero_address, SrvNew 22 23 31 zero_address, SrvRemove 20]
     (srv_demo [SysNum 0, SysNum 0]) = Inr w' \<and> server_inv 5 w' \<and> held 5 w' = {22}"
proof -
  let ?ops = "[SrvNew 20 21 30 zero_address, SrvNew 22 23 31 zero_address, SrvRemove 20]"
  obtain w' where run: "run_all (server_exec (\<lambda>ev D. Inr) 9 5) ?ops (srv_demo [SysNum 0, SysNum 0]) = Inr w'"
    using srv_demo_run by blast
  have "server_inv 5 w' \<and> held 5 w' = fold server_spec ?ops {}"
  proof (rule server_tracks_connections)
    show "servers (srv_demo [SysNum 0, SysNum 0]) 5 = Some srv_demo_server"
      by (simp add: srv_demo_def)
    show "run_all (server_exec (\<lambda>ev D. Inr) 9 5) ?ops (srv_demo [SysNum 0, SysNum 0]) = Inr w'"
      by (rule run)
    show "server_legal ?ops {}"
      by simp
    show "tracks v v'" if "(\<lambda>ev D. Inr) ev D v = Inr v'" for ev :: conn_event and D :: ptr and v v' :: srv_world
      using that by (simp add: tracks_def)
  qed (simp_all add: srv_demo_server_def)
  moreover have "fold server_spec ?ops {} = {22}"
    by auto
  ultimately show ?thesis
    using run by metis
qed

end
