(* ===== verification/Client_Laws.thy ===== *)
theory Client_Laws
  imports Tcp_Server Connector_Laws
begin

text \<open>
  Properties of \<^verbatim>\<open>TcpClient\<close>: what it does when its connection is made and when it goes down, that it keeps
  to the contract its connector relies on, and the stop of a client that has no retry timer.
\<close>

lemma world_more_cli:
  assumes "world.more w' = world.more w"
  shows "clients w' = clients w"
  using assms by (cases w; cases w') simp

interpretation the_clients: connector_view clients
  by unfold_locales (erule world_more_cli, simp add: connector_put_def)

lemma client_get_Inr [simp]: "client_get T w = Inr cl \<longleftrightarrow> clients w T = Some cl"
  by (simp add: client_get_def split: option.splits)

lemma client_put_simps [simp]:
  "clients (client_put T cl w) = (clients w)(T := Some cl)" "connectors (client_put T cl w) = connectors w"
  "conns (client_put T cl w) = conns w" "loops (client_put T cl w) = loops w"
  "timers (client_put T cl w) = timers w"
  by (simp_all add: client_put_def)

lemma client_mod_Inr [simp]:
  "client_mod T f w = Inr w' \<longleftrightarrow> (\<exists>cl. clients w T = Some cl \<and> w' = client_put T (f cl) w)"
  by (auto simp: client_mod_def res_bind_eq_Inr)

lemma conn_put_con [simp]: "connectors (conn_put C tc w) = connectors w"
  by (simp add: conn_put_def)

lemma conn_put_cli [simp]: "clients (conn_put C tc w) = clients w"
  by (simp add: conn_put_def)


section \<open>The connection is made\<close>

lemma setKeepAlive_os_step: "Socket_setKeepAlive on fd w = Inr w' \<Longrightarrow> os_step w w'"
  by (auto simp: Socket_setKeepAlive_def Socket_setsockopt_def res_bind_eq_Inr dest: sys_int_os_step)

lemma connection_new_view:
  assumes "TcpConnection_new C ch L name fd la pa w = Inr w'"
  shows "connectors w' = connectors w"
  using assms
  by (auto simp: TcpConnection_new_def res_bind_eq_Inr Let_def
      dest!: setKeepAlive_os_step the_connectors.view_os_step)

lemma established_connectors:
  assumes run: "TcpConnection_connectEstablished run_ev me C w = Inr w'"
    and frame: "\<And>ev D v v'. run_ev ev D v = Inr v' \<Longrightarrow> connectors v' K = connectors v K"
  shows "connectors w' K = connectors w K"
proof -
  obtain tc w2 where int: "Channel_interest me EnableReading (tc_channel tc)
        (conn_put C (tc\<lparr>tc_state := kConnected\<rparr>) w) = Inr w2"
    and call: "call_connection run_ev C w2 = Inr w'"
    using run by (auto simp: TcpConnection_connectEstablished_def TcpConnection_setState_def conn_mod_def res_bind_eq_Inr)
  have "connectors w' K = connectors w2 K"
    using call frame by (auto simp: call_connection_def res_bind_eq_Inr split: option.splits)
  then show ?thesis
    using the_connectors.view_interest[OF int] by simp
qed

text \<open>
  The client keeps to what the connector assumes of its callback, when the application's callbacks
  leave the connector alone.
\<close>

lemma client_keeps_connector:
  assumes run: "TcpClient_newConnection lib run_ev me C ch T fd w = Inr w'"
    and frame: "\<And>ev D v v'. run_ev ev D v = Inr v' \<Longrightarrow> connectors v' K = connectors v K"
  shows "connectors w' K = connectors w K"
proof -
  obtain cl w1 tc where new: "TcpConnection_new C ch (cl_loop cl)
        (client_conn_name lib (sockets_getPeerAddr fd w) (cl_nextConnId cl)) fd
        (sockets_getLocalAddr fd w) (sockets_getPeerAddr fd w)
        (client_put T (cl\<lparr>cl_nextConnId := cl_nextConnId cl + 1\<rparr>) w) = Inr w1"
    and est: "\<exists>cl'. TcpConnection_connectEstablished run_ev me C (client_put T cl' (conn_put C tc w1)) = Inr w'"
    using run
    by (auto simp: TcpClient_newConnection_def int_inc_def Let_def res_bind_eq_Inr conn_mod_def split: if_splits)
  then obtain cl' where "TcpConnection_connectEstablished run_ev me C (client_put T cl' (conn_put C tc w1)) = Inr w'"
    by blast
  from established_connectors[OF this frame] show ?thesis
    using connection_new_view[OF new] by simp
qed


section \<open>The connection goes down\<close>

text \<open>A functor waits in the queue of a loop; what the connector does leaves it there.\<close>

definition awaits :: "ptr \<Rightarrow> loop_functor \<Rightarrow> 'z world_scheme \<Rightarrow> bool" where
  "awaits L f w \<longleftrightarrow> (\<exists>el. loops w L = Some el \<and> f \<in> set (el_pendingFunctors el))"

lemma awaits_put [simp]:
  "awaits L f (chan_put p c w) = awaits L f w" "awaits L f (timer_put t tm w) = awaits L f w"
  by (simp_all add: awaits_def)

lemma awaits_connector [simp]: "awaits L f (connector_put K co w) = awaits L f w"
  by (simp add: awaits_def)

lemma awaits_os_step: "os_step w w' \<Longrightarrow> awaits L f w \<Longrightarrow> awaits L f w'"
  by (simp add: awaits_def os_step_world)

lemma awaits_close: "sockets_close fd w = Inr w' \<Longrightarrow> awaits L f w \<Longrightarrow> awaits L f w'"
  by (auto simp: sockets_close_def res_bind_eq_Inr dest!: sys_int_os_step intro: awaits_os_step)

lemma awaits_queue:
  assumes "EventLoop_queueInLoop me L' g w = Inr w'"
  shows "awaits L f w \<Longrightarrow> awaits L f w'" "awaits L' g w'"
  using EventLoop_queueInLoop_Inr[OF assms] by (auto simp: awaits_def queue_push_def)

lemma awaits_interest: "Channel_interest me i p w = Inr w' \<Longrightarrow> awaits L f w \<Longrightarrow> awaits L f w'"
  using Channel_interest_live[of me i p w w'] Channel_interest_Inr[of me i p w w'] by (auto simp: awaits_def)

lemma awaits_addInLoop: "TimerQueue_addInLoop L' wh t w = Inr w' \<Longrightarrow> awaits L f w \<Longrightarrow> awaits L f w'"
  by (auto simp: TimerQueue_addInLoop_def res_bind_eq_Inr Let_def case_prod_beta awaits_def split: if_splits
      dest!: TimerQueue_arm_Inr)

lemma awaits_runAfter:
  assumes run: "EventLoop_runAfter me L' t iv cb w = Inr (t', w')" and f: "awaits L f w"
  shows "awaits L f w'"
proof -
  obtain now w1 where now: "clock_now w = Inr (now, w1)"
    and add: "EventLoop_runInLoop me L' (FAddTimer L' (now + iv) t) (TimerQueue_addInLoop L' (now + iv) t)
      (timer_put t (Timer_new cb (now + iv) 0) w1) = Inr w'" (is "EventLoop_runInLoop _ _ _ _ ?w = _")
    using run by (auto simp: EventLoop_runAfter_def EventLoop_runAt_def TimerQueue_addTimer_def
        res_bind_eq_Inr split: if_splits)
  have "awaits L f ?w"
    using awaits_os_step[OF clock_now_os_step[OF now] f] by simp
  then show ?thesis
    using add awaits_addInLoop[of L' "now + iv" t ?w w'] awaits_queue(1)[of me L' _ ?w w']
    by (auto simp: EventLoop_runInLoop_def res_bind_eq_Inr split: if_splits)
qed

lemma awaits_retry:
  assumes run: "Connector_retry me tm fd K w = Inr w'" and f: "awaits L f w"
  shows "awaits L f w'"
proof -
  obtain w1 where close: "sockets_close fd w = Inr w1"
    and rest: "\<exists>co. w' = connector_put K (co\<lparr>co_state := ckDisconnected\<rparr>) w1 \<or>
      (\<exists>t w3. EventLoop_runAfter me (co_loop co) tm (co_retryDelayMs co * 1000000)
         (Some (TmConnectorStart K)) (connector_put K (co\<lparr>co_state := ckDisconnected\<rparr>) w1) = Inr (t, w3) \<and>
       (\<exists>co3. w' = connector_put K co3 w3))"
    by (rule retry_cases[OF run])
  show ?thesis
    using rest awaits_close[OF close f] by (auto dest: awaits_runAfter)
qed

lemma awaits_connecting:
  "Connector_connecting me ch fd K w = Inr w' \<Longrightarrow> awaits L f w \<Longrightarrow> awaits L f w'"
  by (auto simp: Connector_connecting_def Connector_setState_def res_bind_eq_Inr Let_def dest!: awaits_interest)

lemma awaits_startInLoop:
  assumes run: "Connector_startInLoop me ch tm K w = Inr w'" and f: "awaits L f w"
  shows "awaits L f w'"
proof -
  consider "w' = w" | w2 fd where "os_step w w2"
      "Connector_connecting me ch fd K w2 = Inr w' \<or> Connector_retry me tm fd K w2 = Inr w' \<or> sockets_close fd w2 = Inr w'"
    using run by (auto simp: Connector_startInLoop_def Connector_connect_def sockets_createNonblockingOrDie_def
        sockets_connect_def res_bind_eq_Inr Let_def split: if_splits dest!: sys_int_os_step intro: os_step_trans)
  then show ?thesis
    using f by cases (auto dest: awaits_os_step awaits_connecting awaits_retry awaits_close)
qed

text \<open>
  When its connection goes down the client lets go of it and queues its destruction. If
  \<^verbatim>\<open>enableRetry\<close> was called and \<^verbatim>\<open>disconnect\<close> or \<^verbatim>\<open>stop\<close> was not, the connector starts over at once, with the
  shortest delay for the attempts after; otherwise the connector is left as it is.
\<close>

theorem client_connection_lost:
  assumes cl: "clients w T = Some cl" and co: "connectors w (cl_connector cl) = Some co"
    and run: "TcpClient_removeConnection me ch tm T C w = Inr w'"
  shows "clients w' T = Some (cl\<lparr>cl_connection := None\<rparr>) \<and> cl_connection cl = Some C \<and>
     awaits (cl_loop cl) (FConnDestroyed C) w' \<and>
     (\<exists>co'. connectors w' (cl_connector cl) = Some co' \<and>
        (if cl_retry cl \<and> cl_connect cl
         then co' \<in> attempted ch tm (co\<lparr>co_state := ckDisconnected, co_retryDelayMs := 50, co_connect := True\<rparr>)
         else co' = co))"
proof -
  let ?w = "client_put T (cl\<lparr>cl_connection := None\<rparr>) w"
  obtain w1 where C: "cl_connection cl = Some C"
    and queue: "EventLoop_queueInLoop me (cl_loop cl) (FConnDestroyed C) ?w = Inr w1"
    and rest: "if cl_retry cl \<and> cl_connect cl then Connector_restart me ch tm (cl_connector cl) w1 = Inr w'
       else w' = w1"
    using run cl by (auto simp: TcpClient_removeConnection_def res_bind_eq_Inr split: if_splits)
  have w1: "connectors w1 (cl_connector cl) = Some co" "clients w1 T = Some (cl\<lparr>cl_connection := None\<rparr>)"
    using the_connectors.view_queue[OF queue] the_clients.view_queue[OF queue] co by simp_all
  show ?thesis
  proof (cases "cl_retry cl \<and> cl_connect cl")
    case True
    let ?co = "co\<lparr>co_state := ckDisconnected, co_retryDelayMs := kInitRetryDelayMs, co_connect := True\<rparr>"
    have start: "Connector_startInLoop me ch tm (cl_connector cl) (connector_put (cl_connector cl) ?co w1) = Inr w'"
      using True rest w1 by (auto simp: Connector_restart_def res_bind_eq_Inr)
    have "clients w' = clients w1"
      using the_clients.view_startInLoop[OF start] by simp
    moreover have "awaits (cl_loop cl) (FConnDestroyed C) w'"
      using awaits_startInLoop[OF start] awaits_queue(2)[OF queue] by simp
    ultimately show ?thesis
      using startInLoop_effect[OF start] True C w1 by (auto simp: kInitRetryDelayMs_def)
  next
    case False
    then show ?thesis
      using rest w1 C awaits_queue(2)[OF queue] by auto
  qed
qed

text \<open>
  C40. A connector that never had to retry has no timer, yet \<^verbatim>\<open>stop\<close> and the destructor cancel the
  uninitialised \<^verbatim>\<open>timer_\<close>: stopping such a client is undefined behaviour, and destroying it never ends
  normally. Once a retry timer has fired and was deleted, \<^verbatim>\<open>stop\<close> in the loop's thread uses the deleted
  timer.
\<close>

theorem client_stop_undefined:
  assumes cl: "clients w T = Some cl" and co: "connectors w (cl_connector cl) = Some co"
    and frame: "\<And>C v v'. release C v = Inr v' \<Longrightarrow> connectors v' = connectors v"
  shows "(co_timer co = None \<longrightarrow>
       TcpClient_stop me T w = Inl (Undefined ''use of the uninitialised timer_'') \<and>
       (\<forall>w'. TcpClient_dtor release me T w \<noteq> Inr w')) \<and>
     (\<forall>t el. co_timer co = Some t \<and> timers w t = None \<and> loops w (co_loop co) = Some el \<and>
       el_threadId el = me \<longrightarrow> TcpClient_stop me T w = Inl (Undefined ''use of a destroyed Timer''))"
proof (intro conjI impI allI)
  assume none: "co_timer co = None"
  show stop: "TcpClient_stop me T w = Inl (Undefined ''use of the uninitialised timer_'')"
    using cl co none by (simp add: TcpClient_stop_def Connector_stop_def Connector_cancel_def
        client_get_def connector_get_def)
  fix w'
  show "TcpClient_dtor release me T w \<noteq> Inr w'"
  proof
    assume "TcpClient_dtor release me T w = Inr w'"
    then obtain w1 w2 where first: "(case cl_connection cl of
          Some C \<Rightarrow> res_bind (EventLoop_runInLoop me (cl_loop cl) (FConnSetClose C (cl_loop cl)) (client_detach C (cl_loop cl)) w)
            (\<lambda>w1. res_bind (client_mod T (\<lambda>cl. cl\<lparr>cl_connection := None\<rparr>) w1) (release C))
        | None \<Rightarrow> Connector_stop me (cl_connector cl) w) = Inr w1"
      and dtor: "Connector_dtor me (cl_connector cl) w1 = Inr w2"
      using cl by (auto simp: TcpClient_dtor_def res_bind_eq_Inr)
    have "connectors w1 = connectors w"
    proof (cases "cl_connection cl")
      case None
      then show ?thesis
        using first co none by (auto simp: Connector_stop_def Connector_cancel_def res_bind_eq_Inr)
    next
      case (Some C)
      obtain v v1 where v: "EventLoop_runInLoop me (cl_loop cl) (FConnSetClose C (cl_loop cl))
            (client_detach C (cl_loop cl)) w = Inr v"
          "client_mod T (\<lambda>cl. cl\<lparr>cl_connection := None\<rparr>) v = Inr v1" "release C v1 = Inr w1"
        using first Some by (auto simp: res_bind_eq_Inr)
      have "client_detach C (cl_loop cl) w = Inr v \<Longrightarrow> connectors v = connectors w"
        by (auto simp: client_detach_def)
      then have "connectors v = connectors w"
        using v(1) the_connectors.view_runInLoop[of "client_detach C (cl_loop cl)" w v me] by simp
      then show ?thesis
        using v(2) frame[OF v(3)] by (auto simp: client_mod_def res_bind_eq_Inr)
    qed
    then show False
      using dtor co none by (auto simp: Connector_dtor_def Connector_cancel_def res_bind_eq_Inr)
  qed
next
  fix t el
  assume "co_timer co = Some t \<and> timers w t = None \<and> loops w (co_loop co) = Some el \<and> el_threadId el = me"
  then show "TcpClient_stop me T w = Inl (Undefined ''use of a destroyed Timer'')"
    using cl co
    by (simp add: TcpClient_stop_def Connector_stop_def Connector_cancel_def client_get_def connector_get_def
        EventLoop_cancelTimer_def TimerQueue_cancelTimer_def EventLoop_runInLoop_def
        EventLoop_isInLoopThread_def TimerQueue_cancelInLoop_def timer_get_def)
qed

definition cli_demo :: "connector \<Rightarrow> sys_ret list \<Rightarrow> cli_world" where
  "cli_demo co answers =
     \<lparr>tape = answers, trace = [], os_local = (\<lambda>_. None), os_peer = (\<lambda>_. None),
      chans = (\<lambda>_. None), statics = lt_statics, loops = [7 \<mapsto> conn_demo_loop],
      timers = (\<lambda>_. None), t_loopInThisThread = [9 \<mapsto> 7], conns = [2 \<mapsto> conn_demo_tc],
      acceptors = (\<lambda>_. None), connectors = [3 \<mapsto> co], servers = (\<lambda>_. None),
      clients = [4 \<mapsto> \<lparr>cl_loop = 7, cl_connector = 3, cl_connectionCallback = Some 0,
        cl_messageCallback = Some 1, cl_writeCompleteCallback = None, cl_retry = True,
        cl_connect = True, cl_nextConnId = 2, cl_connection = Some 2\<rparr>]\<rparr>"

theorem client_stop_undefined_witness:
  "TcpClient_stop 9 4 (cli_demo con_demo_co []) = Inl (Undefined ''use of the uninitialised timer_'') \<and>
   TcpClient_stop 9 4 (cli_demo (con_demo_co\<lparr>co_timer := Some 21\<rparr>) []) =
     Inl (Undefined ''use of a destroyed Timer'') \<and>
   (\<forall>w'. TcpClient_dtor TcpConnection_dtor 9 4 (cli_demo con_demo_co []) \<noteq> Inr w')"
proof -
  have frame: "connectors v' = connectors v" if "TcpConnection_dtor C v = Inr v'" for C and v v' :: cli_world
    using that by (auto simp: TcpConnection_dtor_def res_bind_eq_Inr chan_delete_def Socket_dtor_def
        sockets_close_def sys_int_Inr)
  have no_timer: "co_timer con_demo_co = None"
    by (simp add: con_demo_co_def)
  let ?cl = "the (clients (cli_demo con_demo_co []) 4)"
  have cl: "clients (cli_demo co []) 4 = Some ?cl" "cl_connector ?cl = 3" for co
    by (simp_all add: cli_demo_def)
  have "connectors (cli_demo co []) (cl_connector ?cl) = Some co" for co
    by (simp add: cl cli_demo_def)
  note undef = client_stop_undefined[OF cl(1) this, where me = 9 and release = TcpConnection_dtor]
  have "timers (cli_demo (con_demo_co\<lparr>co_timer := Some 21\<rparr>) []) 21 = None"
      "loops (cli_demo (con_demo_co\<lparr>co_timer := Some 21\<rparr>) []) (co_loop (con_demo_co\<lparr>co_timer := Some 21\<rparr>)) =
         Some conn_demo_loop" "el_threadId conn_demo_loop = 9"
    by (simp_all add: cli_demo_def con_demo_co_def conn_demo_loop_def)
  then show ?thesis
    using undef[of con_demo_co, OF frame] undef[of "con_demo_co\<lparr>co_timer := Some 21\<rparr>", OF frame] no_timer by simp
qed

lemma cli_demo_run:
  "\<exists>w'. TcpClient_removeConnection 9 20 21 4 2
     (cli_demo (con_demo_co\<lparr>co_state := ckConnected\<rparr>) [SysNum 8, SysErr EINPROGRESS]) = Inr w'"
  by (simp add: cli_demo_def con_demo_co_def TcpClient_removeConnection_def client_get_def client_put_def
      Connector_restart_def con_run_defs conn_demo_loop_def conn_demo_tc_def conn_run_defs)

theorem client_connection_lost_witness:
  "\<exists>w' cl co. TcpClient_removeConnection 9 20 21 4 2
     (cli_demo (con_demo_co\<lparr>co_state := ckConnected\<rparr>) [SysNum 8, SysErr EINPROGRESS]) = Inr w' \<and>
     clients w' 4 = Some cl \<and> cl_connection cl = None \<and> connectors w' 3 = Some co \<and>
     awaits 7 (FConnDestroyed 2) w'"
proof -
  let ?w = "cli_demo (con_demo_co\<lparr>co_state := ckConnected\<rparr>) [SysNum 8, SysErr EINPROGRESS]"
  obtain w' where run: "TcpClient_removeConnection 9 20 21 4 2 ?w = Inr w'"
    using cli_demo_run by blast
  obtain cl where cl: "clients ?w 4 = Some cl" "cl_connector cl = 3" "cl_loop cl = 7"
    by (simp add: cli_demo_def)
  have "connectors ?w (cl_connector cl) = Some (con_demo_co\<lparr>co_state := ckConnected\<rparr>)"
    by (simp add: cl cli_demo_def)
  from client_connection_lost[OF cl(1) this run] show ?thesis
    using run cl by auto
qed

end
