(* ===== verification/Net.thy ===== *)
theory Net
  imports Server_Laws Client_Laws
begin

text \<open>
  The components put together. Each component's theory takes as arguments what the callables it
  stores do; here they get their meaning. \<open>net_ev\<close>, \<open>net_timer\<close>, \<open>net_functor\<close> and \<open>net_channel\<close> map the name of a
  bound member function to that function, applied as the \<^verbatim>\<open>std::bind\<close> expressions of the sources apply
  it, so that \<open>EventLoop_loop\<close> with them runs the whole library. What the application's own functions
  do is the record \<open>app\<close>; callback numbers from 2 on are theirs, \<open>ap_holds\<close> are the connections they hold. \<open>brk\<close> gives the addresses of new objects.
  Connections are the objects with shared ownership: \<open>held_conns\<close> lists the references that exist, and a
  connection is destroyed when the last of them goes (\<open>net_release\<close>, \<open>net_drop\<close>).
\<close>

record net_world = cli_world +
  brk :: nat

record app =
  ap_connection :: "nat \<Rightarrow> nat \<Rightarrow> ptr \<Rightarrow> net_world \<Rightarrow> net_world res"
  ap_message :: "nat \<Rightarrow> nat \<Rightarrow> int \<Rightarrow> ptr \<Rightarrow> net_world \<Rightarrow> net_world res"
  ap_writeComplete :: "nat \<Rightarrow> nat \<Rightarrow> ptr \<Rightarrow> net_world \<Rightarrow> net_world res"
  ap_highWaterMark :: "nat \<Rightarrow> nat \<Rightarrow> ptr \<Rightarrow> nat \<Rightarrow> net_world \<Rightarrow> net_world res"
  ap_timer :: "nat \<Rightarrow> nat \<Rightarrow> net_world \<Rightarrow> net_world res"
  ap_functor :: "nat \<Rightarrow> nat \<Rightarrow> net_world \<Rightarrow> net_world res"
  ap_holds :: "net_world \<Rightarrow> ptr list"

text \<open>Two new objects: the operations that allocate take two addresses.\<close>

definition with_new :: "(ptr \<Rightarrow> ptr \<Rightarrow> net_world \<Rightarrow> net_world res) \<Rightarrow> net_world \<Rightarrow> net_world res" where
  "with_new f w = f (brk w) (brk w + 1) (w\<lparr>brk := brk w + 2\<rparr>)"

definition defaultConnectionCallback :: "ptr \<Rightarrow> net_world \<Rightarrow> net_world res" where
  "defaultConnectionCallback C w = res_bind (conn_get C w) (\<lambda>tc. Inr w)"

fun net_ev :: "app \<Rightarrow> nat \<Rightarrow> conn_event \<Rightarrow> ptr \<Rightarrow> net_world \<Rightarrow> net_world res" where
  "net_ev a me (EvConnection f) C w =
     (if f = default_connection_cb then defaultConnectionCallback C w else ap_connection a me f C w)"
| "net_ev a me (EvMessage f t) C w =
     (if f = default_message_cb then defaultMessageCallback C w else ap_message a me f t C w)"
| "net_ev a me (EvClose (CloseServer S)) C w = TcpServer_removeConnection me S C w"
| "net_ev a me (EvClose (CloseClient T)) C w =
     with_new (\<lambda>ch tm. TcpClient_removeConnection me ch tm T C) w"
| "net_ev a me (EvClose (CloseDetached L)) C w = client_removeConnection me L C w"

fun net_timer :: "app \<Rightarrow> nat \<Rightarrow> timer_cb \<Rightarrow> net_world \<Rightarrow> net_world res" where
  "net_timer a me (TmUser n) w = ap_timer a me n w"
| "net_timer a me (TmConnectorStart K) w = with_new (\<lambda>ch tm. Connector_startInLoop me ch tm K) w"

fun net_functor :: "app \<Rightarrow> nat \<Rightarrow> loop_functor \<Rightarrow> net_world \<Rightarrow> net_world res" where
  "net_functor a me (FAddTimer L wh t) w = TimerQueue_addInLoop L wh t w"
| "net_functor a me (FCancelTimer L t) w = TimerQueue_cancelInLoop L t w"
| "net_functor a me (FConnShutdown C) w = TcpConnection_shutdownInLoop me C w"
| "net_functor a me (FConnForceClose C) w = TcpConnection_forceCloseInLoop (net_ev a me) me C w"
| "net_functor a me (FConnStartRead C) w = TcpConnection_startReadInLoop me C w"
| "net_functor a me (FConnStopRead C) w = TcpConnection_stopReadInLoop me C w"
| "net_functor a me (FConnSend C d) w = TcpConnection_sendInLoop me C d w"
| "net_functor a me (FConnWriteComplete f C) w = ap_writeComplete a me f C w"
| "net_functor a me (FConnHighWaterMark f C n) w = ap_highWaterMark a me f C n w"
| "net_functor a me (FConnSetClose C L) w = client_detach C L w"
| "net_functor a me (FConnEstablished C) w = TcpConnection_connectEstablished (net_ev a me) me C w"
| "net_functor a me (FConnDestroyed C) w = TcpConnection_connectDestroyed (net_ev a me) me C w"
| "net_functor a me (FConnectorStart K) w = with_new (\<lambda>ch tm. Connector_startInLoop me ch tm K) w"
| "net_functor a me (FConnectorReset K) w = Connector_resetChannel K w"
| "net_functor a me (FServerRemove S C) w = TcpServer_removeConnectionInLoop me S C w"
| "net_functor a me (FUser n) w = ap_functor a me n w"

fun net_channel :: "inet_lib \<Rightarrow> app \<Rightarrow> nat \<Rightarrow> channel_cb \<Rightarrow> int \<Rightarrow> net_world \<Rightarrow> net_world res" where
  "net_channel lib a me (CbTimerQueueRead L) t w = TimerQueue_handleRead (net_timer a me) me L w"
| "net_channel lib a me (CbWakeupRead L) t w = EventLoop_handleRead L w"
| "net_channel lib a me (CbAcceptorRead A) t w =
     Acceptor_handleRead (\<lambda>S fd pa. with_new (\<lambda>C ch. TcpServer_newConnection (net_ev a me) me C ch S fd pa)) me A w"
| "net_channel lib a me (CbConnRead C) t w = TcpConnection_handleRead (net_ev a me) me t C w"
| "net_channel lib a me (CbConnWrite C) t w = TcpConnection_handleWrite me C w"
| "net_channel lib a me (CbConnClose C) t w = TcpConnection_handleClose (net_ev a me) me C w"
| "net_channel lib a me (CbConnError C) t w = TcpConnection_handleError C w"
| "net_channel lib a me (CbConnectorWrite K) t w =
     with_new (\<lambda>tm _. Connector_handleWrite
       (\<lambda>T fd. with_new (\<lambda>C ch. TcpClient_newConnection lib (net_ev a me) me C ch T fd)) me tm K) w"
| "net_channel lib a me (CbConnectorError K) t w = with_new (\<lambda>tm _. Connector_handleError me tm K) w"

section \<open>Shared ownership\<close>

text \<open>
  The functors made with a \<^verbatim>\<open>TcpConnectionPtr\<close> keep the connection alive; those made with \<^verbatim>\<open>this\<close>, of \<^verbatim>\<open>shutdown\<close>,
  \<^verbatim>\<open>startRead\<close>, \<^verbatim>\<open>stopRead\<close> and \<^verbatim>\<open>send\<close>, do not.
\<close>

fun functor_conn :: "loop_functor \<Rightarrow> ptr option" where
  "functor_conn (FConnForceClose C) = Some C"
| "functor_conn (FConnWriteComplete f C) = Some C"
| "functor_conn (FConnHighWaterMark f C n) = Some C"
| "functor_conn (FConnSetClose C L) = Some C"
| "functor_conn (FConnEstablished C) = Some C"
| "functor_conn (FConnDestroyed C) = Some C"
| "functor_conn (FServerRemove S C) = Some C"
| "functor_conn f = None"

definition functor_conns :: "loop_functor list \<Rightarrow> ptr list" where
  "functor_conns fs = List.map_filter functor_conn fs"

text \<open>
  All references: of the servers' maps, the clients' \<^verbatim>\<open>connection_\<close>, the functors that wait in the loops, and
  the application. Objects are at addresses below \<open>brk\<close>.
\<close>

definition held_conns :: "app \<Rightarrow> net_world \<Rightarrow> ptr list" where
  "held_conns a w =
     concat (map (\<lambda>S. case servers w S of None \<Rightarrow> [] | Some sv \<Rightarrow> map snd (sv_connections sv)) [0..<brk w]) @
     concat (map (\<lambda>T. case clients w T of None \<Rightarrow> [] | Some cl \<Rightarrow> (case cl_connection cl of None \<Rightarrow> [] | Some C \<Rightarrow> [C])) [0..<brk w]) @
     concat (map (\<lambda>L. case loops w L of None \<Rightarrow> [] | Some el \<Rightarrow> functor_conns (el_pendingFunctors el)) [0..<brk w]) @
     ap_holds a w"

text \<open>A reference goes; and the vector of functors that \<^verbatim>\<open>doPendingFunctors\<close> ran, element by element.\<close>

definition net_release :: "app \<Rightarrow> ptr \<Rightarrow> net_world \<Rightarrow> net_world res" where
  "net_release a C w = (if C \<in> set (held_conns a w) then Inr w else TcpConnection_dtor C w)"

fun net_drop :: "app \<Rightarrow> loop_functor list \<Rightarrow> net_world \<Rightarrow> net_world res" where
  "net_drop a [] w = Inr w"
| "net_drop a (f # fs) w =
     (case functor_conn f of
        None \<Rightarrow> net_drop a fs w
      | Some C \<Rightarrow>
          if C \<in> set (functor_conns fs) then net_drop a fs w
          else res_bind (net_release a C w) (net_drop a fs))"


section \<open>The loop\<close>

text \<open>One iteration of a loop, and the loop, of the whole library.\<close>

definition net_iterate :: "inet_lib \<Rightarrow> app \<Rightarrow> nat \<Rightarrow> ptr \<Rightarrow> net_world \<Rightarrow> net_world res" where
  "net_iterate lib a me L w =
     EventLoop_iterate me (net_channel lib a me) (net_functor a me) (net_drop a) L w"

definition net_loop :: "nat \<Rightarrow> inet_lib \<Rightarrow> app \<Rightarrow> nat \<Rightarrow> ptr \<Rightarrow> net_world \<Rightarrow> (bool \<times> net_world) res" where
  "net_loop n lib a me L w =
     EventLoop_loop n me (net_channel lib a me) (net_functor a me) (net_drop a) L w"

end
