(* ===== verification/Echo.thy ===== *)
theory Echo
  imports Net
begin

text \<open>
  The program \<^verbatim>\<open>example/echo.cc\<close> on the whole library: the class \<^verbatim>\<open>EchoServer\<close> and \<^verbatim>\<open>main\<close>, what the server does
  with a message, and the system calls of a complete session.
\<close>

section \<open>The echo server\<close>

text \<open>The numbers of \<^verbatim>\<open>EchoServer::onConnection\<close> and \<^verbatim>\<open>EchoServer::onMessage\<close>.\<close>

definition echo_connection_cb :: nat where "echo_connection_cb = 2"
definition echo_message_cb :: nat where "echo_message_cb = 3"

definition EchoServer_new ::
    "inet_lib \<Rightarrow> ptr \<Rightarrow> ptr \<Rightarrow> ptr \<Rightarrow> ptr \<Rightarrow> inet_address \<Rightarrow> string \<Rightarrow> int \<Rightarrow> net_world \<Rightarrow> net_world res" where
  "EchoServer_new lib S A ch L listenAddr name numThread w =
     res_bind (TcpServer_new lib S A ch L listenAddr name False w) (\<lambda>w1.
     res_bind (server_mod S (TcpServer_setConnectionCallback (Some echo_connection_cb)) w1) (\<lambda>w2.
     res_bind (server_mod S (TcpServer_setMessageCallback (Some echo_message_cb)) w2) (\<lambda>w3.
       TcpServer_setThreadNum numThread S w3)))"

definition EchoServer_start :: "(nat \<Rightarrow> fresh) \<Rightarrow> nat \<Rightarrow> ptr \<Rightarrow> net_world \<Rightarrow> net_world res" where
  "EchoServer_start fr me S w = TcpServer_start (\<lambda>f L. Inr) fr me S w"

definition EchoServer_onConnection :: "ptr \<Rightarrow> net_world \<Rightarrow> net_world res" where
  "EchoServer_onConnection C w = res_bind (conn_get C w) (\<lambda>tc. Inr w)"

definition EchoServer_onMessage :: "nat \<Rightarrow> ptr \<Rightarrow> net_world \<Rightarrow> net_world res" where
  "EchoServer_onMessage me C w =
     res_bind (conn_get C w) (\<lambda>tc.
     res_bind (Buffer_retrieveAllAsString (tc_inputBuffer tc)) (\<lambda>(msg, b).
       TcpConnection_send me C msg (conn_put C (tc\<lparr>tc_inputBuffer := b\<rparr>) w)))"

definition echo_app :: app where
  "echo_app =
     \<lparr>ap_connection = (\<lambda>me f C w. if f = echo_connection_cb then EchoServer_onConnection C w else Inl BadFunctionCall),
      ap_message = (\<lambda>me f t C w. if f = echo_message_cb then EchoServer_onMessage me C w else Inl BadFunctionCall),
      ap_writeComplete = (\<lambda>me f C w. Inl BadFunctionCall), ap_highWaterMark = (\<lambda>me f C n w. Inl BadFunctionCall),
      ap_timer = (\<lambda>me n w. Inl BadFunctionCall), ap_functor = (\<lambda>me n w. Inl BadFunctionCall),
      ap_holds = (\<lambda>w. [])\<rparr>"

text \<open>
  \<^verbatim>\<open>main\<close>, for \<open>n\<close> iterations of the loop. The fourth argument of \<^verbatim>\<open>EchoServer\<close> is the number of threads, and
  \<^verbatim>\<open>TcpServer::kNoReusePort\<close> is 0 there; so no thread is started, and the names for one go unused.
\<close>

definition echo_main :: "nat \<Rightarrow> inet_lib \<Rightarrow> nat \<Rightarrow> net_world \<Rightarrow> (bool \<times> net_world) res" where
  "echo_main n lib me w =
     (let L = brk w; S = brk w + 3 in
      res_bind (EventLoop_new me EPOLL LT L (brk w + 1) (brk w + 2) (w\<lparr>brk := brk w + 6\<rparr>)) (\<lambda>w1.
      let listenAddr = InetAddress_port zero_address 12345 False False in
      res_bind (EchoServer_new lib S (brk w + 4) (brk w + 5) L listenAddr ''EchoServer'' 0 w1) (\<lambda>w2.
      res_bind (EchoServer_start (\<lambda>_. (me, 0, 0, 0)) me S w2) (\<lambda>w3.
        net_loop n lib echo_app me L w3))))"


section \<open>What the echo server does with a message\<close>

interpretation the_conns: world_view conns
  by unfold_locales (erule world_more_conn)

lemma send_rest_input:
  assumes run: "send_rest me C d w = Inr w'" and tc: "conns w C = Some tc"
  shows "\<exists>b. conns w' C = Some (tc\<lparr>tc_outputBuffer := b\<rparr>)"
  using run
proof (rule send_rest_cases)
  fix tc' w1 b
  assume tc': "conns w C = Some tc'" and w': "w' = conn_put C (tc'\<lparr>tc_outputBuffer := b\<rparr>) w1 \<or>
     Channel_interest me EnableWriting (tc_channel tc') (conn_put C (tc'\<lparr>tc_outputBuffer := b\<rparr>) w1) = Inr w'"
  have "conns w' = conns (conn_put C (tc\<lparr>tc_outputBuffer := b\<rparr>) w1)"
    using w' tc' tc the_conns.view_interest[of me EnableWriting "tc_channel tc" _ w'] by fastforce
  then show ?thesis
    by auto
qed

lemma sendInLoop_input:
  assumes run: "TcpConnection_sendInLoop me C d w = Inr w'" and tc: "conns w C = Some tc"
  shows "\<exists>b. conns w' C = Some (tc\<lparr>tc_outputBuffer := b\<rparr>)"
  using run
proof (rule sendInLoop_cases)
  assume "w' = w"
  then show ?thesis
    using tc by (auto intro: exI[of _ "tc_outputBuffer tc"])
next
  fix tc' fd n e w1 w2 d'
  assume wr: "sockets_write fd d w = Inr (n, e, w1)" and wc: "w2 = w1 \<or> queue_write_complete me tc' C w1 = Inr w2"
    and rest: "w' = w2 \<or> send_rest me C d' w2 = Inr w'"
  have "conns w2 = conns w1"
    using wc the_conns.view_queue[of me "tc_loop tc'" _ w1 w2]
    by (auto simp: queue_write_complete_def split: option.splits)
  then have "conns w2 C = Some tc"
    using the_conns.view_os_step[OF sockets_write_os_step[OF wr]] tc by simp
  then show ?thesis
    using rest send_rest_input[of me C _ w2 w' tc] by (auto intro: exI[of _ "tc_outputBuffer tc"])
qed

text \<open>A read that fits the input buffer, up to the reply.\<close>

lemma echo_read:
  assumes pl: "plugged me C tc el p w" and st: "tc_state tc = kConnected"
    and cb: "tc_messageCallback tc = Some echo_message_cb"
    and inp: "Buffer_inv (tc_inputBuffer tc)" "Buffer_contents (tc_inputBuffer tc) = []"
    and tape: "tape w = SysData d # rest" "d \<noteq> []" "length d \<le> Buffer_writableBytes (tc_inputBuffer tc)"
  obtains b w1 where "Buffer_inv b" "Buffer_contents b = []"
    "net_channel lib echo_app me (CbConnRead C) t w = TcpConnection_sendInLoop me C d w1"
    "plugged me C (tc\<lparr>tc_inputBuffer := b\<rparr>) el p w1"
    "os_calls [(CallReadv (tc_socket tc), SysData d)] w w1"
proof -
  let ?fd = "tc_socket tc"
  let ?w1 = "w\<lparr>tape := rest, trace := trace w @ [CallReadv ?fd]\<rparr>"
  obtain b1 where b1: "Buffer_readFd (SysData d) (tc_inputBuffer tc) 0 = Inr (int (length d), 0, b1)"
      "Buffer_inv b1" "Buffer_contents b1 = d"
    using Buffer_readFd_fits[OF inp(1) tape(3), of 0] inp(2) by auto
  obtain b where b: "Buffer_retrieveAllAsString b1 = Inr (d, b)" "Buffer_inv b" "Buffer_contents b = []"
    using Buffer_retrieveAsString_ok[OF b1(2), of "length d"] b1 by (auto simp: Buffer_retrieveAllAsString_def buffer_simps)
  let ?tc1 = "tc\<lparr>tc_inputBuffer := b1\<rparr>" and ?tc = "tc\<lparr>tc_inputBuffer := b\<rparr>"
  let ?w2 = "conn_put C ?tc1 ?w1"
  let ?w3 = "conn_put C ?tc ?w2"
  have step: "os_step w ?w1" and calls: "os_calls [(CallReadv ?fd, SysData d)] w ?w1"
    using tape(1) by (auto simp: os_step_def os_calls_def)
  have pl3: "plugged me C ?tc el p ?w3"
    using plugged_os[OF pl step calls] by (intro plugged_put[of me C ?tc1] plugged_put[of me C tc]) simp_all
  obtain c where c: "chans w (tc_channel tc) = Some c" "ch_fd c = ?fd"
    using pluggedD(5)[OF pl] by blast
  have "conn_readFd (Channel_isET (statics w)) (ch_fd c) (tc_inputBuffer tc) w = Inr (int (length d), b1, ?w1)"
    using pluggedD(3)[OF pl] tape(1) b1(1) c
    by (simp add: conn_readFd_def Channel_isET_def sys_def)
  then have "net_channel lib echo_app me (CbConnRead C) t w = EchoServer_onMessage me C ?w2"
    using pluggedD(1)[OF pl] c tape(2) cb
    by (simp add: TcpConnection_handleRead_def call_message_def echo_app_def echo_message_cb_def default_message_cb_def)
  also have "\<dots> = TcpConnection_send me C d ?w3"
    using b(1) by (simp add: EchoServer_onMessage_def)
  also have "\<dots> = TcpConnection_sendInLoop me C d ?w3"
    using st pluggedD(2)[OF pl3] pl3
    by (simp add: TcpConnection_send_def EventLoop_runInLoop_def EventLoop_isInLoopThread_def plugged_def)
  finally show ?thesis
    by (rule that[OF b(2,3) _ pl3]) (use calls in \<open>simp add: os_calls_def\<close>)
qed


text \<open>A connection of the echo server in mid-session, with its output and the kernel's answers to choose.\<close>

definition echo_tc :: "char list \<Rightarrow> tcp_connection" where
  "echo_tc out = (wired_tc kConnected out)\<lparr>tc_connectionCallback := Some echo_connection_cb,
     tc_messageCallback := Some echo_message_cb, tc_writeCompleteCallback := None\<rparr>"

definition echo_demo :: "char list \<Rightarrow> sys_ret list \<Rightarrow> net_world" where
  "echo_demo out answers =
     \<lparr>tape = answers, trace = [], os_local = (\<lambda>_. None), os_peer = (\<lambda>_. None),
      chans = [3 \<mapsto> (Channel_new 7 8)\<lparr>ch_index := 0, ch_events := lt_mask (True, out \<noteq> [])\<rparr>],
      statics = lt_statics, loops = [7 \<mapsto> conn_demo_loop\<lparr>el_poller := wired_poller (True, out \<noteq> [])\<rparr>],
      timers = (\<lambda>_. None), t_loopInThisThread = [9 \<mapsto> 7], conns = [2 \<mapsto> echo_tc out],
      acceptors = (\<lambda>_. None), connectors = (\<lambda>_. None), servers = (\<lambda>_. None),
      clients = (\<lambda>_. None), brk = 100\<rparr>"

lemma echo_demo_plugged:
  "plugged 9 2 (echo_tc out) (conn_demo_loop\<lparr>el_poller := wired_poller (True, out \<noteq> [])\<rparr>) (True, out \<noteq> [])
     (echo_demo out answers)"
proof -
  have "poll_table [8 \<mapsto> 3] (chans (echo_demo out answers)) [8]"
    by (auto simp: poll_table_def echo_demo_def Channel_new_def intro: exI[of _ "0::nat"])
  then have "Poller_consistent (wired_poller (True, out \<noteq> []), echo_demo out answers)"
    by (auto simp: Poller_consistent_def wired_poller_def poll_inv_def real_fd_def poll_mask_def
        echo_demo_def Channel_new_def poll_view_def lt_mask_def split: if_splits)
  then show ?thesis
    by (simp add: plugged_def echo_demo_def echo_tc_def wired_tc_def conn_demo_tc_def conn_demo_loop_def
        Channel_new_def wired_poller_def)
qed

lemma echo_demo_ready:
  "length out \<le> max_size \<Longrightarrow> conn_ready 9 2 (echo_demo out answers) \<and> pending 2 (echo_demo out answers) = out"
  using plugged_ready[of 9 2 "echo_tc out" _ True] echo_demo_plugged[of out answers]
    plugged_pending(1)[OF echo_demo_plugged[of out answers]]
  by (simp add: echo_tc_def wired_tc_def Buffer_inv_def Buffer_contents_def segment_def)

lemma echo_demo_run:
  "\<exists>w'. net_channel lib echo_app 9 (CbConnRead 2) 0 (echo_demo [] [SysData ''hey'', SysNum 2]) = Inr w' \<and>
     pending 2 w' = ''y''"
  by (simp add: echo_demo_def echo_tc_def wired_tc_def wired_poller_def conn_demo_tc_def conn_demo_loop_def
      conn_demo_buffer_def EchoServer_onMessage_def echo_app_def echo_message_cb_def default_message_cb_def
      Buffer_retrieveAllAsString_def Buffer_retrieveAsString_def Buffer_peek_def conn_run_defs lt_mask_def
      pending_def)



section \<open>A session\<close>

text \<open>
  The kernel's side of a session: descriptors 3 to 7 for epoll, timer, wakeup, listening socket and
  spare, a client that connects (descriptor 8), sends \<open>d\<close>, is answered and closes. Objects are at
  addresses from 100 on: 105 is the channel of the acceptor, 107 that of the connection.
\<close>

definition echo_start :: "sys_ret list \<Rightarrow> net_world" where
  "echo_start answers =
     \<lparr>tape = answers, trace = [], os_local = (\<lambda>_. None), os_peer = (\<lambda>_. None),
      chans = (\<lambda>_. None), statics = lt_statics, loops = (\<lambda>_. None),
      timers = (\<lambda>_. None), t_loopInThisThread = (\<lambda>_. None), conns = (\<lambda>_. None),
      acceptors = (\<lambda>_. None), connectors = (\<lambda>_. None), servers = (\<lambda>_. None),
      clients = (\<lambda>_. None), brk = 100\<rparr>"

definition session_answers :: "int \<Rightarrow> int \<Rightarrow> int \<Rightarrow> char list \<Rightarrow> sys_ret list" where
  "session_answers t1 t2 t3 d =
     [SysNum 3, SysNum 4, SysNum 0, SysNum 5, SysNum 0, SysNum 6, SysNum 7, SysNum 0, SysNum 0, SysNum 0,
      SysNum 0, SysNum 0,
      SysReady [(105, EPOLLIN)], SysNum t1, SysNum 8, SysNum 0, SysNum 0,
      SysReady [(107, EPOLLIN)], SysNum t2, SysData d, SysNum (int (length d)),
      SysReady [(107, EPOLLIN)], SysNum t3, SysData [], SysNum 0, SysNum 0]"

lemmas echo_setup_defs =
  echo_main_def EchoServer_new_def EchoServer_start_def TcpServer_new_def TcpServer_start_def
  TcpServer_setThreadNum_def TcpServer_setConnectionCallback_def TcpServer_setMessageCallback_def
  EventLoopThreadPool_setThreadNum_def EventLoopThreadPool_start_def EventLoopThreadPool_new_def
  Acceptor_new_def Acceptor_setNewConnectionCallback_def Acceptor_listen_def acceptor_get_def
  acceptor_put_def open_dev_null_def Socket_setReuseAddr_def Socket_setReusePort_def
  Socket_bindAddress_def Socket_listen_def sockets_bindOrDie_def sockets_listenOrDie_def
  sockets_createNonblockingOrDie_def EventLoop_new_def TimerQueue_new_def timerfdCreate_def
  createEventfd_def Poller_newDefaultPoller_def EpollPoller_new_def EpollPoller_updateChannel_def
  EpollPoller_update_def EventLoop_loop_def net_loop_def kInitEventListSize_def kNew_def kDeleted_def
  kAdded_def

lemmas echo_loop_defs =
  EventLoop_iterate_def EpollPoller_poll_def clock_now_def Channel_handleEvent_def Channel_callback_def
  revents_close_def revents_error_def revents_read_def revents_write_def Channel_set_revents_def
  EventLoop_doPendingFunctors_def pending_swap_def EventLoop_queueInLoop_def queue_push_def
  queue_must_wake_def EventLoop_assertInLoopThread_def EventLoop_isInLoopThread_def
  EventLoop_runInLoop_def EventLoop_updateChannel_def EventLoop_removeChannel_def
  EpollPoller_removeChannel_def Channel_interest_def Channel_update_def Channel_remove_def
  Channel_new_def Channel_isWriting_def Channel_isET_def Channel_isNoneEvent_def Channel_set_index_def
  loop_mod_def sys_int_def sys_def Let_def conn_get_def conn_put_def chan_get_def chan_put_def
  loop_get_def loop_put_def kPollTimeMs_def EPOLLIN_def EPOLLPRI_def EPOLLOUT_def EPOLLERR_def
  EPOLLHUP_def EPOLLRDHUP_def

lemmas echo_conn_defs =
  Acceptor_handleRead_def Socket_accept_def sockets_accept_def with_new_def srv_run_defs
  TcpServer_removeConnection_def map_erase_def TcpConnection_connectEstablished_def
  TcpConnection_handleRead_def TcpConnection_handleClose_def TcpConnection_connectDestroyed_def
  TcpConnection_send_def TcpConnection_sendInLoop_def TcpConnection_setState_def call_connection_def
  call_message_def call_close_def conn_readFd_def sockets_write_def queue_write_complete_def
  conn_mod_def EchoServer_onConnection_def EchoServer_onMessage_def echo_app_def
  echo_connection_cb_def echo_message_cb_def default_connection_cb_def default_message_cb_def

lemmas echo_drop_defs =
  net_release_def held_conns_def functor_conns_def List.map_filter_def TcpConnection_dtor_def
  chan_delete_def Channel_dtor_def Socket_dtor_def sockets_close_def

text \<open>The input buffer of the session: it takes the message, gives it back and takes the end of the stream.\<close>

lemma session_buffer:
  assumes "length d \<le> kInitialSize"
  obtains B b1 b2 where "Buffer_new kInitialSize = Inr B" "Buffer_readableBytes B = 0"
    "Buffer_readFd (SysData d) B 0 = Inr (int (length d), 0, b1)"
    "Buffer_retrieveAllAsString b1 = Inr (d, b2)" "\<exists>b3. Buffer_readFd (SysData []) b2 0 = Inr (0, 0, b3)"
proof -
  obtain B where B: "Buffer_new kInitialSize = Inr B" "Buffer_inv B" "Buffer_contents B = []"
      "Buffer_writableBytes B = kInitialSize" "Buffer_readableBytes B = 0"
    by (simp add: Buffer_new_def vector_new_def kInitialSize_def max_size_def Let_def Buffer_inv_def
        Buffer_readableBytes_def Buffer_writableBytes_def Buffer_contents_def segment_def size_minus_def)
  obtain b1 where b1: "Buffer_readFd (SysData d) B 0 = Inr (int (length d), 0, b1)"
      "Buffer_inv b1" "Buffer_contents b1 = d"
    using Buffer_readFd_fits[OF B(2), of d 0] B(3,4) assms by auto
  obtain b2 where b2: "Buffer_retrieveAllAsString b1 = Inr (d, b2)" "Buffer_inv b2"
    using Buffer_retrieveAsString_ok[OF b1(2), of "length d"] b1
    by (auto simp: Buffer_retrieveAllAsString_def buffer_simps)
  have "\<exists>b3. Buffer_readFd (SysData []) b2 0 = Inr (0, 0, b3)"
    using Buffer_readFd_fits[OF b2(2), of "[]" 0] by auto
  then show ?thesis
    by (rule that[OF B(1,5) b1(1) b2(1)])
qed

text \<open>
  C1. The echo program from its start to the end of a session, for every message of up to 1024 bytes:
  with a kernel that grants its calls, the program makes exactly these system calls. It sets up epoll,
  timer, wakeup and listening socket, waits, accepts, registers the connection, waits, reads and
  writes back the same bytes, waits, reads the end of the stream, unregisters the connection and
  closes its descriptor; in the end the server holds no connection, the connection and its channel are
  destroyed and the loop goes on.
\<close>

theorem echo_session:
  assumes "d \<noteq> []" and "length d \<le> kInitialSize"
  shows "case echo_main 3 lib 9 (echo_start (session_answers t1 t2 t3 d)) of
      Inl e \<Rightarrow> False
    | Inr (ended, w) \<Rightarrow>
        \<not> ended \<and> tape w = [] \<and>
        trace w =
          [CallEpollCreate, CallTimerfdCreate, CallEpollCtl 3 EPOLL_CTL_ADD 4 3 101, CallEventfd,
           CallEpollCtl 3 EPOLL_CTL_ADD 5 3 102,
           CallSocket (InetAddress_family (InetAddress_port zero_address 12345 False False)), CallOpenDevNull,
           CallSetSockOpt 6 ''SO_REUSEADDR'' True, CallSetSockOpt 6 ''SO_REUSEPORT'' False,
           CallBind 6 (InetAddress_port zero_address 12345 False False), CallListen 6,
           CallEpollCtl 3 EPOLL_CTL_ADD 6 3 105,
           CallEpollWait 3 16 10000, CallNow, CallAccept 6, CallSetSockOpt 8 ''SO_KEEPALIVE'' True,
           CallEpollCtl 3 EPOLL_CTL_ADD 8 3 107,
           CallEpollWait 3 16 10000, CallNow, CallReadv 8, CallWrite 8 d,
           CallEpollWait 3 16 10000, CallNow, CallReadv 8, CallEpollCtl 3 EPOLL_CTL_DEL 8 0 107,
           CallClose 8] \<and>
        map_option sv_connections (servers w 103) = Some [] \<and>
        conns w 106 = None \<and> chans w 107 = None"
proof -
  obtain B b1 b2 b3 where B: "Buffer_new kInitialSize = Inr B" "Buffer_readableBytes B = 0"
      "Buffer_readFd (SysData d) B 0 = Inr (int (length d), 0, b1)"
      "Buffer_retrieveAllAsString b1 = Inr (d, b2)" "Buffer_readFd (SysData []) b2 0 = Inr (0, 0, b3)"
    using session_buffer[OF assms(2)] by metis
  then show ?thesis
    using assms(1)
    by (simp add: echo_start_def session_answers_def echo_setup_defs echo_loop_defs echo_conn_defs
        echo_drop_defs numeral_3_eq_3)
qed

theorem echo_session_witness:
  "case echo_main 3 \<lparr>ntop4 = (\<lambda>_. []), ntop6 = (\<lambda>_. []), pton4 = (\<lambda>_. None), pton6 = (\<lambda>_. None)\<rparr> 9
     (echo_start (session_answers 10 20 30 ''hello'')) of
     Inl e \<Rightarrow> False
   | Inr (ended, w) \<Rightarrow> CallWrite 8 ''hello'' \<in> set (trace w) \<and> CallClose 8 \<in> set (trace w) \<and> conns w 106 = None"
proof -
  have "length ''hello'' \<le> kInitialSize"
    by (simp add: kInitialSize_def)
  from echo_session[OF _ this, where ?t1.0 = 10 and ?t2.0 = 20 and ?t3.0 = 30 and
      lib = "\<lparr>ntop4 = (\<lambda>_. []), ntop6 = (\<lambda>_. []), pton4 = (\<lambda>_. None), pton6 = (\<lambda>_. None)\<rparr>"]
  show ?thesis
    by (auto split: sum.splits)
qed

end
