(* ===== verification/Lifetimes.thy ===== *)
theory Lifetimes
  imports Net
begin

text \<open>
  Who keeps a connection alive: what the release of the functors of a round does, and the functors that do
  not keep their connection.
\<close>

section \<open>The destruction of a connection\<close>

text \<open>
  A connection that can be destroyed: it and its channel exist, and the channel is not in the middle of
  handling an event.
\<close>

definition deletable :: "net_world \<Rightarrow> ptr \<Rightarrow> bool" where
  "deletable w C \<longleftrightarrow>
     (case conns w C of
        None \<Rightarrow> False
      | Some tc \<Rightarrow> (case chans w (tc_channel tc) of None \<Rightarrow> False | Some c \<Rightarrow> \<not> ch_eventHanding c))"

definition conn_fd :: "net_world \<Rightarrow> ptr \<Rightarrow> int" where
  "conn_fd w C = tc_socket (the (conns w C))"

definition conn_chan :: "net_world \<Rightarrow> ptr \<Rightarrow> ptr" where
  "conn_chan w C = tc_channel (the (conns w C))"

definition channels_owned :: "net_world \<Rightarrow> bool" where
  "channels_owned w \<longleftrightarrow>
     (\<forall>C D tc td. conns w C = Some tc \<and> conns w D = Some td \<and> tc_channel tc = tc_channel td \<longrightarrow> C = D)"

text \<open>What an application holds does not depend on the connections and channels themselves.\<close>

definition app_steady :: "app \<Rightarrow> bool" where
  "app_steady a \<longleftrightarrow> (\<forall>rs tr cs ks w. ap_holds a (w\<lparr>tape := rs, trace := tr, chans := cs, conns := ks\<rparr>) = ap_holds a w)"

lemma dtor_outcome:
  assumes "deletable w C"
  shows "(\<exists>e. TcpConnection_dtor C w = Inl e \<and> external e) \<or>
    (\<exists>r rs. tape w = r # rs \<and> TcpConnection_dtor C w =
       Inr (w\<lparr>tape := rs, trace := trace w @ [CallClose (conn_fd w C)],
         chans := (chans w)(conn_chan w C := None), conns := (conns w)(C := None)\<rparr>))"
proof -
  obtain tc c where tc: "conns w C = Some tc" "chans w (tc_channel tc) = Some c" "\<not> ch_eventHanding c"
    using assms by (auto simp: deletable_def split: option.splits)
  let ?w = "w\<lparr>chans := (chans w)(tc_channel tc := None)\<rparr>"
  have run: "TcpConnection_dtor C w = res_bind (sockets_close (tc_socket tc) ?w) (\<lambda>w2. Inr (w2\<lparr>conns := (conns w2)(C := None)\<rparr>))"
    using tc by (simp add: TcpConnection_dtor_def chan_delete_def Channel_dtor_def Socket_dtor_def)
  show ?thesis
  proof (cases "sys_int (CallClose (tc_socket tc)) ?w")
    case (Inl e)
    then show ?thesis
      using run sys_int_Inl[OF Inl] by (auto simp: sockets_close_def)
  next
    case (Inr x)
    obtain n e v where x: "x = (n, e, v)"
      by (cases x)
    have "TcpConnection_dtor C w = Inr (v\<lparr>conns := (conns v)(C := None)\<rparr>)"
      using run Inr x by (simp add: sockets_close_def)
    then show ?thesis
      using Inr x tc(1) by (auto simp: sys_int_Inr conn_fd_def conn_chan_def)
  qed
qed

lemma held_conns_steady:
  "app_steady a \<Longrightarrow>
   held_conns a (w\<lparr>tape := rs, trace := tr, chans := cs, conns := ks\<rparr>) = held_conns a w"
  by (simp add: held_conns_def app_steady_def)

lemma functor_conns_Cons:
  "functor_conns (f # fs) = (case functor_conn f of None \<Rightarrow> functor_conns fs | Some C \<Rightarrow> C # functor_conns fs)"
  by (simp add: functor_conns_def split: option.split)


section \<open>What a round's functors held\<close>

text \<open>The connections that die with a list of functors, in the order in which they die.\<close>

definition last_held :: "app \<Rightarrow> loop_functor list \<Rightarrow> net_world \<Rightarrow> ptr list" where
  "last_held a fs w = filter (\<lambda>C. C \<notin> set (held_conns a w)) (remdups (functor_conns fs))"

definition buried :: "ptr list \<Rightarrow> net_world \<Rightarrow> net_world \<Rightarrow> bool" where
  "buried Cs w w' \<longleftrightarrow>
     conns w' = (\<lambda>C. if C \<in> set Cs then None else conns w C) \<and>
     chans w' = (\<lambda>p. if p \<in> conn_chan w ` set Cs then None else chans w p) \<and>
     (\<exists>cs. os_calls cs w w' \<and> map fst cs = map (\<lambda>C. CallClose (conn_fd w C)) Cs)"

lemma buried_Nil: "buried [] w w"
  unfolding buried_def by (auto intro!: exI[of _ "[]"])

lemma buried_step:
  assumes own: "channels_owned w" and C: "deletable w C" "C \<notin> set Cs" and live: "\<forall>D \<in> set Cs. deletable w D"
    and w1: "tape w = r # rs"
      "w1 = w\<lparr>tape := rs, trace := trace w @ [CallClose (conn_fd w C)],
         chans := (chans w)(conn_chan w C := None), conns := (conns w)(C := None)\<rparr>"
  shows "channels_owned w1" "\<forall>D \<in> set Cs. deletable w1 D" "buried Cs w1 w' \<Longrightarrow> buried (C # Cs) w w'"
proof -
  show "channels_owned w1"
    using own w1(2) unfolding channels_owned_def by (simp split: if_splits)
  have other: "conn_chan w D \<noteq> conn_chan w C" "conns w1 D = conns w D" if D: "D \<in> set Cs" for D
  proof -
    obtain tc td where "conns w C = Some tc" "conns w D = Some td"
      using C(1) live D by (fastforce simp: deletable_def split: option.splits)
    then show "conn_chan w D \<noteq> conn_chan w C" "conns w1 D = conns w D"
      using own C(2) D w1(2) by (auto simp: channels_owned_def conn_chan_def)
  qed
  have "chans w1 (conn_chan w D) = chans w (conn_chan w D)" if "D \<in> set Cs" for D
    using other(1)[OF that] w1(2) by simp
  then show "\<forall>D \<in> set Cs. deletable w1 D"
    using live other(2) by (fastforce simp: deletable_def conn_chan_def split: option.splits)
  assume bur: "buried Cs w1 w'"
  have same: "conn_fd w1 D = conn_fd w D" "conn_chan w1 D = conn_chan w D" if "D \<in> set Cs" for D
    using other(2)[OF that] by (simp_all add: conn_fd_def conn_chan_def)
  obtain cs where cs: "os_calls cs w1 w'" "map fst cs = map (\<lambda>C. CallClose (conn_fd w1 C)) Cs"
    using bur by (auto simp: buried_def)
  have "os_calls ((CallClose (conn_fd w C), r) # cs) w w'"
    using cs(1) w1 by (simp add: os_calls_def)
  moreover have "map fst ((CallClose (conn_fd w C), r) # cs) = map (\<lambda>C. CallClose (conn_fd w C)) (C # Cs)"
    using cs(2) same(1) by simp
  moreover have "conn_chan w1 ` set Cs = conn_chan w ` set Cs"
    using same(2) by simp
  ultimately show "buried (C # Cs) w w'"
    using bur w1(2) unfolding buried_def by (auto simp: fun_eq_iff)
qed


text \<open>Two connections of a server: 2 is removed from it, 6 is in its map; both have functors in the round.\<close>

definition round_demo :: "loop_functor list \<Rightarrow> sys_ret list \<Rightarrow> net_world" where
  "round_demo waiting answers =
     \<lparr>tape = answers, trace = [], os_local = (\<lambda>_. None), os_peer = (\<lambda>_. None),
      chans = [3 \<mapsto> Channel_new 7 8, 5 \<mapsto> Channel_new 7 10], statics = lt_statics,
      loops = [7 \<mapsto> conn_demo_loop\<lparr>el_pendingFunctors := waiting\<rparr>], timers = (\<lambda>_. None),
      t_loopInThisThread = [9 \<mapsto> 7],
      conns = [2 \<mapsto> conn_demo_tc, 6 \<mapsto> conn_demo_tc\<lparr>tc_channel := 5, tc_socket := 10\<rparr>],
      acceptors = (\<lambda>_. None), connectors = (\<lambda>_. None),
      servers = [4 \<mapsto> \<lparr>sv_loop = 7, sv_ipPort = [], sv_name = [], sv_acceptor = 1,
        sv_threadPool = EventLoopThreadPool_new 7 [], sv_connectionCallback = None,
        sv_messageCallback = None, sv_writeCompleteCallback = None, sv_threadInitCallback = None,
        sv_started = True, sv_nextConnId = 3, sv_connections = [(''b'', 6)]\<rparr>],
      clients = (\<lambda>_. None), brk = 8\<rparr>"

definition idle_app :: app where
  "idle_app =
     \<lparr>ap_connection = (\<lambda>me f C w. Inr w), ap_message = (\<lambda>me f t C w. Inr w),
      ap_writeComplete = (\<lambda>me f C w. Inr w), ap_highWaterMark = (\<lambda>me f C n w. Inr w),
      ap_timer = (\<lambda>me n w. Inr w), ap_functor = (\<lambda>me n w. Inr w), ap_holds = (\<lambda>w. [])\<rparr>"

lemma idle_app_steady: "app_steady idle_app"
  by (simp add: app_steady_def idle_app_def)

lemma round_demo_held [simp]: "held_conns idle_app (round_demo fs answers) = 6 # functor_conns fs"
  by (simp add: round_demo_def held_conns_def idle_app_def upt_rec conn_demo_loop_def)

lemma round_demo_dtor:
  "TcpConnection_dtor 2 (round_demo fs [SysNum 0]) =
     Inr ((round_demo fs [SysNum 0])\<lparr>tape := [], trace := [CallClose 8],
       chans := (chans (round_demo fs [SysNum 0]))(3 := None),
       conns := (conns (round_demo fs [SysNum 0]))(2 := None)\<rparr>)"
  by (simp add: round_demo_def TcpConnection_dtor_def conn_get_def conn_demo_tc_def chan_delete_def chan_get_def
      Channel_new_def Channel_dtor_def Socket_dtor_def sockets_close_def sys_int_def sys_def)



section \<open>Functors that hold their connection, and functors that do not\<close>

fun raw_functor :: "loop_functor \<Rightarrow> ptr option" where
  "raw_functor (FConnShutdown C) = Some C"
| "raw_functor (FConnStartRead C) = Some C"
| "raw_functor (FConnStopRead C) = Some C"
| "raw_functor (FConnSend C d) = Some C"
| "raw_functor f = None"



end
