(* ===== verification/Client_Session.thy ===== *)
theory Client_Session
  imports Echo Lifetimes
begin

text \<open>
  A client from its start over a lost connection to the next one: the system calls of a complete run
  of \<^verbatim>\<open>TcpClient\<close>, \<^verbatim>\<open>Connector\<close>, \<^verbatim>\<open>TcpConnection\<close> and \<^verbatim>\<open>EventLoop\<close> together.
\<close>

text \<open>
  A program with one client that keeps no connection of its own: a loop, a client with \<^verbatim>\<open>enableRetry\<close>,
  \<^verbatim>\<open>connect\<close>, and \<open>n\<close> iterations of the loop.
\<close>

definition client_main :: "nat \<Rightarrow> inet_lib \<Rightarrow> nat \<Rightarrow> inet_address \<Rightarrow> net_world \<Rightarrow> (bool \<times> net_world) res" where
  "client_main n lib me serverAddr w =
     (let L = brk w; T = brk w + 3 in
      res_bind (EventLoop_new me EPOLL LT L (brk w + 1) (brk w + 2) (w\<lparr>brk := brk w + 7\<rparr>)) (\<lambda>w1.
      res_bind (TcpClient_new T (brk w + 4) L serverAddr w1) (\<lambda>w2.
      res_bind (client_mod T TcpClient_enableRetry w2) (\<lambda>w3.
      res_bind (TcpClient_connect me (brk w + 5) (brk w + 6) T w3) (\<lambda>w4.
        net_loop n lib idle_app me L w4)))))"

text \<open>
  The kernel's side: descriptors 3 to 5 for epoll, timer and wakeup, 6 for the first attempt. The connection
  is up when 6 is writable and has no error, the server closes it, and the second attempt has
  descriptor 7.
\<close>

definition client_answers :: "int \<Rightarrow> int \<Rightarrow> int \<Rightarrow> sys_ret list" where
  "client_answers t1 t2 t3 =
     [SysNum 3, SysNum 4, SysNum 0, SysNum 5, SysNum 0, SysNum 6, SysErr EINPROGRESS, SysNum 0,
      SysReady [(105, EPOLLOUT)], SysNum t1, SysNum 0, SysNum 0, SysNum 0, SysNum 0,
      SysReady [(110, EPOLLIN)], SysNum t2, SysData [], SysNum 0, SysNum 7, SysErr EINPROGRESS, SysNum 0, SysNum 0,
      SysReady [(111, EPOLLOUT)], SysNum t3, SysNum 0, SysNum 0, SysNum 0, SysNum 0]"

lemmas client_setup_defs =
  client_main_def TcpClient_new_def TcpClient_connect_def TcpClient_enableRetry_def Connector_new_def
  Connector_setNewConnectionCallback_def Connector_start_def Connector_startInLoop_def Connector_connect_def
  Connector_connecting_def Connector_setState_def Connector_handleWrite_def Connector_removeAndResetChannel_def
  Connector_resetChannel_def Connector_restart_def connector_mod_def connector_get_def connector_put_def
  client_get_def client_put_def client_mod_def sockets_connect_def sockets_getSocketError_def
  sockets_isSelfConnect_fd_def TcpClient_newConnection_def TcpClient_removeConnection_def
  defaultConnectionCallback_def default_connection_cb_def default_message_cb_def EINPROGRESS_def

text \<open>The addresses the kernel reports for the two sockets.\<close>

definition client_start ::
    "inet_address \<Rightarrow> inet_address \<Rightarrow> inet_address \<Rightarrow> inet_address \<Rightarrow> sys_ret list \<Rightarrow> net_world" where
  "client_start l6 p6 l7 p7 answers =
     (echo_start answers)\<lparr>os_local := [6 \<mapsto> l6, 7 \<mapsto> l7], os_peer := [6 \<mapsto> p6, 7 \<mapsto> p7]\<rparr>"

text \<open>
  C4. A client with retry, from its start: with a kernel that completes the first attempt, a server that
  then closes the connection, and a kernel that completes the second attempt, the program makes exactly
  these system calls. It connects without blocking, waits until the socket is writable, asks for its
  error, takes the socket over into a connection; when the server closes it reads the end of the
  stream, unregisters the connection, at once starts a second attempt, and closes the descriptor
  of the first connection; in the end the client holds the second connection, which is up, and the first one
  is destroyed.
\<close>

theorem client_session:
  assumes "\<not> sockets_isSelfConnect l6 p6" and "\<not> sockets_isSelfConnect l7 p7"
  shows "case client_main 3 lib 9 addr (client_start l6 p6 l7 p7 (client_answers t1 t2 t3)) of
      Inl e \<Rightarrow> False
    | Inr (ended, w) \<Rightarrow> \<not> ended \<and> tape w = [] \<and>
        trace w =
          [CallEpollCreate, CallTimerfdCreate, CallEpollCtl 3 EPOLL_CTL_ADD 4 3 101, CallEventfd,
           CallEpollCtl 3 EPOLL_CTL_ADD 5 3 102,
           CallSocket (InetAddress_family addr), CallConnect 6 addr, CallEpollCtl 3 EPOLL_CTL_ADD 6 4 105,
           CallEpollWait 3 16 10000, CallNow,
           CallEpollCtl 3 EPOLL_CTL_DEL 6 0 105, CallSockError 6, CallSetSockOpt 6 ''SO_KEEPALIVE'' True,
           CallEpollCtl 3 EPOLL_CTL_ADD 6 3 110,
           CallEpollWait 3 16 10000, CallNow, CallReadv 6, CallEpollCtl 3 EPOLL_CTL_DEL 6 0 110,
           CallSocket (InetAddress_family addr), CallConnect 7 addr, CallEpollCtl 3 EPOLL_CTL_ADD 7 4 111,
           CallClose 6,
           CallEpollWait 3 16 10000, CallNow,
           CallEpollCtl 3 EPOLL_CTL_DEL 7 0 111, CallSockError 7, CallSetSockOpt 7 ''SO_KEEPALIVE'' True,
           CallEpollCtl 3 EPOLL_CTL_ADD 7 3 116] \<and>
        map_option cl_connection (clients w 103) = Some (Some 115) \<and>
        map_option tc_state (conns w 115) = Some kConnected \<and> map_option tc_peerAddr (conns w 115) = Some p7 \<and>
        conns w 109 = None \<and> chans w 105 = None \<and> chans w 111 = None"
proof -
  obtain B b3 where B: "Buffer_new kInitialSize = Inr B" "Buffer_readFd (SysData []) B 0 = Inr (0, 0, b3)"
    by (rule session_buffer[of "[]"]) auto
  then show ?thesis
    using assms
    by (simp add: client_start_def echo_start_def client_answers_def client_setup_defs echo_setup_defs
        echo_loop_defs echo_conn_defs echo_drop_defs idle_app_def numeral_3_eq_3
        sockets_getLocalAddr_def sockets_getPeerAddr_def)
qed

text \<open>Ports 1 and 2 on our side, port 9 on the server's.\<close>

definition ipv4_port :: "16 word \<Rightarrow> inet_address" where
  "ipv4_port n = zero_address\<lparr>ia_family := AF_INET, ia_port := n\<rparr>"

theorem client_session_witness:
  "case client_main 3 \<lparr>ntop4 = (\<lambda>_. []), ntop6 = (\<lambda>_. []), pton4 = (\<lambda>_. None), pton6 = (\<lambda>_. None)\<rparr> 9 (ipv4_port 9)
     (client_start (ipv4_port 1) (ipv4_port 9) (ipv4_port 2) (ipv4_port 9) (client_answers 10 20 30)) of
     Inl e \<Rightarrow> False
   | Inr (ended, w) \<Rightarrow> CallClose 6 \<in> set (trace w) \<and> map_option tc_state (conns w 115) = Some kConnected"
proof -
  have "\<not> sockets_isSelfConnect (ipv4_port n) (ipv4_port 9)" if "n \<noteq> 9" for n
    using that by (simp add: ipv4_port_def sockets_isSelfConnect_def zero_address_def)
  from client_session[OF this[of 1] this[of 2], where addr = "ipv4_port 9" and ?t1.0 = 10 and ?t2.0 = 20 and ?t3.0 = 30
      and lib = "\<lparr>ntop4 = (\<lambda>_. []), ntop6 = (\<lambda>_. []), pton4 = (\<lambda>_. None), pton6 = (\<lambda>_. None)\<rparr>"]
  show ?thesis
    by (auto split: sum.splits)
qed

end
