(* ===== verification/Heap_Types.thy ===== *)
theory Heap_Types
  imports Echo Lifetimes
begin

text \<open>
  The types of the heap. Every connection owns a live channel of its loop and its descriptor, whose four
  callbacks are bound to that connection, and no other channel has a callback bound to it; the channel of
  a connector calls that connector; every reference to a connection leads to a live one; and no address
  that is still to be given out is in use. Every step of the library keeps this, provided the
  application's functions do. A program with one thread (\<open>solo\<close>) also never has a functor bound to \<^verbatim>\<open>this\<close>
  waiting.
\<close>

section \<open>Typed heaps\<close>

definition chan_kind ::
    "channel \<Rightarrow> ptr \<times> int \<times> channel_cb option \<times> channel_cb option \<times> channel_cb option \<times> channel_cb option" where
  "chan_kind c =
     (ch_loop c, ch_fd c, ch_readCallback c, ch_writeCallback c, ch_errorCallback c, ch_closeCallback c)"

definition conn_kind :: "tcp_connection \<Rightarrow> ptr \<times> int \<times> ptr" where
  "conn_kind tc = (tc_loop tc, tc_socket tc, tc_channel tc)"

definition wired :: "ptr \<Rightarrow> tcp_connection \<Rightarrow> channel \<Rightarrow> bool" where
  "wired C tc c \<longleftrightarrow>
     chan_kind c = (tc_loop tc, tc_socket tc, Some (CbConnRead C), Some (CbConnWrite C), Some (CbConnError C),
       Some (CbConnClose C))"

text \<open>The connections a channel calls.\<close>

definition conn_cbs :: "ptr \<Rightarrow> channel_cb option set" where
  "conn_cbs C = {Some (CbConnRead C), Some (CbConnWrite C), Some (CbConnError C), Some (CbConnClose C)}"

definition speaks_for :: "channel \<Rightarrow> ptr \<Rightarrow> bool" where
  "speaks_for c C \<longleftrightarrow>
     {ch_readCallback c, ch_writeCallback c, ch_errorCallback c, ch_closeCallback c} \<inter> conn_cbs C \<noteq> {}"

text \<open>The library's own references to a connection.\<close>

definition referenced :: "net_world \<Rightarrow> ptr \<Rightarrow> bool" where
  "referenced w C \<longleftrightarrow>
     (\<exists>S sv. servers w S = Some sv \<and> C \<in> snd ` set (sv_connections sv)) \<or>
     (\<exists>T cl. clients w T = Some cl \<and> cl_connection cl = Some C) \<or>
     (\<exists>L el. loops w L = Some el \<and> C \<in> set (functor_conns (el_pendingFunctors el)))"

definition unused :: "net_world \<Rightarrow> ptr \<Rightarrow> bool" where
  "unused w p \<longleftrightarrow> chans w p = None \<and> conns w p = None"

definition heap_typed :: "net_world \<Rightarrow> bool" where
  "heap_typed w \<longleftrightarrow>
     (\<forall>C tc. conns w C = Some tc \<longrightarrow> (\<exists>c. chans w (tc_channel tc) = Some c \<and> wired C tc c)) \<and>
     (\<forall>p c C. chans w p = Some c \<longrightarrow> speaks_for c C \<longrightarrow> (\<exists>tc. conns w C = Some tc \<and> tc_channel tc = p)) \<and>
     (\<forall>K co ch. connectors w K = Some co \<longrightarrow> co_channel co = Some ch \<longrightarrow>
        (\<exists>c. chans w ch = Some c \<and> ch_writeCallback c = Some (CbConnectorWrite K))) \<and>
     (\<forall>C. referenced w C \<longrightarrow> conns w C \<noteq> None) \<and>
     (\<forall>p. brk w \<le> p \<longrightarrow> unused w p \<and> servers w p = None \<and> clients w p = None \<and> loops w p = None)"

lemma heap_typed_conn:
  "heap_typed w \<Longrightarrow> conns w C = Some tc \<Longrightarrow> \<exists>c. chans w (tc_channel tc) = Some c \<and> wired C tc c"
  by (simp add: heap_typed_def)

lemma heap_typed_speaks:
  "heap_typed w \<Longrightarrow> chans w p = Some c \<Longrightarrow> speaks_for c C \<Longrightarrow> \<exists>tc. conns w C = Some tc \<and> tc_channel tc = p"
  by (simp add: heap_typed_def)

lemma heap_typed_connector:
  "heap_typed w \<Longrightarrow> connectors w K = Some co \<Longrightarrow> co_channel co = Some ch \<Longrightarrow>
   \<exists>c. chans w ch = Some c \<and> ch_writeCallback c = Some (CbConnectorWrite K)"
  by (simp add: heap_typed_def)

lemma heap_typed_referenced: "heap_typed w \<Longrightarrow> referenced w C \<Longrightarrow> conns w C \<noteq> None"
  by (simp add: heap_typed_def)

lemma heap_typed_fresh:
  "heap_typed w \<Longrightarrow> brk w \<le> p \<Longrightarrow> unused w p \<and> servers w p = None \<and> clients w p = None \<and> loops w p = None"
  by (simp add: heap_typed_def)

text \<open>
  A loop's thread, and the functors bound to \<^verbatim>\<open>this\<close> that wait: a loop is steady when the first is the
  same and there are no new ones of the second.
\<close>

definition steady :: "evloop \<Rightarrow> evloop \<Rightarrow> bool" where
  "steady el el' \<longleftrightarrow> el_threadId el' = el_threadId el \<and>
     (\<forall>f \<in> set (el_pendingFunctors el'). f \<in> set (el_pendingFunctors el) \<or> raw_functor f = None)"

text \<open>
  A program with the one thread \<open>me\<close> (\<open>Some me\<close>), where no such functor waits; \<open>None\<close> allows every program.
\<close>

definition solo :: "nat option \<Rightarrow> net_world \<Rightarrow> bool" where
  "solo th w \<longleftrightarrow>
     (\<forall>me. th = Some me \<longrightarrow>
       (\<forall>L el. loops w L = Some el \<longrightarrow>
          el_threadId el = me \<and> (\<forall>f \<in> set (el_pendingFunctors el). raw_functor f = None)))"

definition may_run :: "nat option \<Rightarrow> nat \<Rightarrow> bool" where
  "may_run th me \<longleftrightarrow> th = None \<or> th = Some me"

definition sound :: "nat option \<Rightarrow> net_world \<Rightarrow> bool" where
  "sound th w \<longleftrightarrow> heap_typed w \<and> solo th w"

text \<open>What most operations do: objects change, but not their kinds, and a new reference is to a live connection.\<close>

definition tame :: "net_world \<Rightarrow> net_world \<Rightarrow> bool" where
  "tame w w' \<longleftrightarrow>
     (\<forall>p. map_option chan_kind (chans w' p) = map_option chan_kind (chans w p)) \<and>
     (\<forall>C. map_option conn_kind (conns w' C) = map_option conn_kind (conns w C)) \<and>
     (\<forall>K. map_option co_channel (connectors w' K) = map_option co_channel (connectors w K)) \<and>
     (\<forall>p. (servers w' p = None) = (servers w p = None) \<and> (clients w' p = None) = (clients w p = None)) \<and>
     (\<forall>L. rel_option steady (loops w L) (loops w' L)) \<and>
     (\<forall>C. referenced w' C \<longrightarrow> referenced w C \<or> conns w C \<noteq> None) \<and> brk w' = brk w"

text \<open>What every operation does to a typed heap, except those that destroy connections.\<close>

definition good :: "nat option \<Rightarrow> net_world \<Rightarrow> net_world \<Rightarrow> bool" where
  "good th w w' \<longleftrightarrow> (sound th w \<longrightarrow> sound th w' \<and> (\<forall>C. conns w C \<noteq> None \<longrightarrow> conns w' C \<noteq> None))"

lemma kind_None: "map_option f x = map_option f y \<Longrightarrow> (x = None) = (y = None)"
  by (cases x; cases y) auto

lemma steady_refl [simp]: "steady el el" "rel_option steady x x"
  by (simp_all add: steady_def option.rel_refl)

lemma tame_refl [simp]: "tame w w"
  by (simp add: tame_def)

lemma steady_trans: "rel_option steady x y \<Longrightarrow> rel_option steady y z \<Longrightarrow> rel_option steady x z"
  unfolding steady_def by (cases x; cases y; cases z; simp) metis

lemma solo_steady:
  assumes "\<And>L. rel_option steady (loops w L) (loops w' L)" and "solo th w"
  shows "solo th w'"
  unfolding solo_def
proof (intro allI impI)
  fix me L el'
  assume th: "th = Some me" and el': "loops w' L = Some el'"
  then obtain el where el: "loops w L = Some el" "steady el el'"
    using assms(1)[of L] by (cases "loops w L") auto
  then show "el_threadId el' = me \<and> (\<forall>f \<in> set (el_pendingFunctors el'). raw_functor f = None)"
    using assms(2) th unfolding solo_def steady_def by metis
qed

lemma solo_same: "loops w' = loops w \<Longrightarrow> solo th w' = solo th w"
  by (simp add: solo_def)

lemma solo_None [simp]: "solo None w"
  by (simp add: solo_def)

lemma tame_live: "tame w w' \<Longrightarrow> (conns w' C = None) = (conns w C = None)"
  unfolding tame_def by (metis kind_None)

lemma tame_trans: "tame w w1 \<Longrightarrow> tame w1 w2 \<Longrightarrow> tame w w2"
proof -
  assume 1: "tame w w1" and 2: "tame w1 w2"
  have "referenced w C \<or> conns w C \<noteq> None" if "referenced w2 C" for C
    using 1 2 that tame_live[OF 1] unfolding tame_def by metis
  moreover have "rel_option steady (loops w L) (loops w2 L)" for L
    using 1 2 steady_trans[of "loops w L" "loops w1 L"] unfolding tame_def by blast
  ultimately show ?thesis
    using 1 2 unfolding tame_def by simp
qed

lemma tame_unused: "tame w w' \<Longrightarrow> unused w' p = unused w p"
  unfolding tame_def unused_def by (metis kind_None)

lemma tame_loops: "tame w w' \<Longrightarrow> (loops w' p = None) = (loops w p = None)"
proof -
  assume "tame w w'"
  then have "rel_option steady (loops w p) (loops w' p)"
    by (simp add: tame_def)
  then show ?thesis
    by (cases "loops w p"; cases "loops w' p") auto
qed

lemma good_refl [simp]: "good th w w"
  by (simp add: good_def)

lemma good_trans: "good th w w1 \<Longrightarrow> good th w1 w2 \<Longrightarrow> good th w w2"
  by (simp add: good_def)

lemma good_sound: "good th w w' \<Longrightarrow> sound th w \<Longrightarrow> sound th w'"
  unfolding good_def by blast

lemma good_live: "good th w w' \<Longrightarrow> sound th w \<Longrightarrow> conns w C \<noteq> None \<Longrightarrow> conns w' C \<noteq> None"
  by (simp add: good_def)

text \<open>A step that leaves the loops alone.\<close>

lemma goodI:
  assumes "heap_typed w \<Longrightarrow> heap_typed w'" and "loops w' = loops w" and "\<And>C. conns w C \<noteq> None \<Longrightarrow> conns w' C \<noteq> None"
  shows "good th w w'"
  using assms solo_same[of w' w th] unfolding good_def sound_def by blast

lemma heap_typedI:
  assumes "\<And>C tc. conns w C = Some tc \<Longrightarrow> \<exists>c. chans w (tc_channel tc) = Some c \<and> wired C tc c"
    and "\<And>p c C. chans w p = Some c \<Longrightarrow> speaks_for c C \<Longrightarrow> \<exists>tc. conns w C = Some tc \<and> tc_channel tc = p"
    and "\<And>K co ch. connectors w K = Some co \<Longrightarrow> co_channel co = Some ch \<Longrightarrow>
        \<exists>c. chans w ch = Some c \<and> ch_writeCallback c = Some (CbConnectorWrite K)"
    and "\<And>C. referenced w C \<Longrightarrow> conns w C \<noteq> None"
    and "\<And>p. brk w \<le> p \<Longrightarrow> unused w p \<and> servers w p = None \<and> clients w p = None \<and> loops w p = None"
  shows "heap_typed w"
  using assms unfolding heap_typed_def by blast

lemma speaks_kind: "chan_kind c' = chan_kind c \<Longrightarrow> speaks_for c' C = speaks_for c C"
  by (simp add: chan_kind_def speaks_for_def)

lemma wired_speaks: "wired C tc c \<Longrightarrow> speaks_for c D \<longleftrightarrow> D = C"
  by (auto simp: wired_def chan_kind_def speaks_for_def conn_cbs_def)

lemma wired_kind: "wired C tc c \<Longrightarrow> chan_kind c' = chan_kind c \<Longrightarrow> conn_kind tc' = conn_kind tc \<Longrightarrow> wired C tc' c'"
  by (simp add: wired_def conn_kind_def)

lemma tame_good:
  assumes "tame w w'"
  shows "good th w w'"
  unfolding good_def sound_def
proof (intro impI conjI; elim conjE)
  assume ok: "heap_typed w"
  have kinds: "map_option chan_kind (chans w' p) = map_option chan_kind (chans w p)"
      "map_option conn_kind (conns w' p) = map_option conn_kind (conns w p)"
      "map_option co_channel (connectors w' p) = map_option co_channel (connectors w p)" for p
    using assms by (simp_all add: tame_def)
  have "\<exists>c. chans w' (tc_channel tc) = Some c \<and> wired C tc c" if conn: "conns w' C = Some tc" for C tc
  proof -
    obtain tc0 where tc0: "conns w C = Some tc0" "conn_kind tc = conn_kind tc0"
      using kinds(2)[of C] conn by (cases "conns w C") auto
    then obtain c0 where c0: "chans w (tc_channel tc) = Some c0" "wired C tc0 c0"
      using heap_typed_conn[OF ok tc0(1)] by (auto simp: conn_kind_def)
    then obtain c where "chans w' (tc_channel tc) = Some c" "chan_kind c = chan_kind c0"
      using kinds(1)[of "tc_channel tc"] by (cases "chans w' (tc_channel tc)") auto
    then show ?thesis
      using wired_kind[OF c0(2) _ tc0(2)] by blast
  qed
  moreover have "\<exists>tc. conns w' C = Some tc \<and> tc_channel tc = p" if c: "chans w' p = Some c" "speaks_for c C" for p c C
  proof -
    obtain c0 where "chans w p = Some c0" "chan_kind c = chan_kind c0"
      using kinds(1)[of p] c(1) by (cases "chans w p") auto
    then obtain tc0 where "conns w C = Some tc0" "tc_channel tc0 = p"
      using heap_typed_speaks[OF ok] speaks_kind c(2) by blast
    then show ?thesis
      using kinds(2)[of C] by (cases "conns w' C") (auto simp: conn_kind_def)
  qed
  moreover have "\<exists>c. chans w' ch = Some c \<and> ch_writeCallback c = Some (CbConnectorWrite K)"
    if co: "connectors w' K = Some co" "co_channel co = Some ch" for K co ch
  proof -
    obtain co0 where co0: "connectors w K = Some co0" "co_channel co0 = Some ch"
      using kinds(3)[of K] co by (cases "connectors w K") auto
    then obtain c0 where c0: "chans w ch = Some c0" "ch_writeCallback c0 = Some (CbConnectorWrite K)"
      using heap_typed_connector[OF ok] by blast
    then show ?thesis
      using kinds(1)[of ch] by (cases "chans w' ch") (auto simp: chan_kind_def)
  qed
  moreover have "conns w' C \<noteq> None" if "referenced w' C" for C
    using assms heap_typed_referenced[OF ok] that tame_live[OF assms] unfolding tame_def by metis
  moreover have "unused w' p \<and> servers w' p = None \<and> clients w' p = None \<and> loops w' p = None" if "brk w' \<le> p" for p
    using assms heap_typed_fresh[OF ok] that tame_unused[OF assms] tame_loops[OF assms] unfolding tame_def by metis
  ultimately show "heap_typed w'"
    by (rule heap_typedI)
next
  show "solo th w'" if "solo th w"
    using assms that by (intro solo_steady[of w w']) (simp_all add: tame_def)
  show "\<forall>C. conns w C \<noteq> None \<longrightarrow> conns w' C \<noteq> None"
    using tame_live[OF assms] by simp
qed


section \<open>Tame steps\<close>

lemma world_more_net:
  assumes "world.more w' = world.more (w :: net_world)"
  shows "conns w' = conns w" "connectors w' = connectors w" "servers w' = servers w" "clients w' = clients w"
    "brk w' = brk w"
  using assms by (cases w; cases w'; simp)+

text \<open>A step of the loop and its channels: kinds stay, and what waits is old or about a live connection.\<close>

definition waiting_ok :: "net_world \<Rightarrow> evloop \<Rightarrow> evloop \<Rightarrow> bool" where
  "waiting_ok w el el' \<longleftrightarrow> steady el el' \<and>
     (\<forall>C \<in> set (functor_conns (el_pendingFunctors el')).
        C \<in> set (functor_conns (el_pendingFunctors el)) \<or> conns w C \<noteq> None)"

lemma tame_world:
  assumes more: "world.more w' = world.more w"
    and kinds: "\<And>p. map_option chan_kind (chans w' p) = map_option chan_kind (chans w p)"
    and waiting: "\<And>L. rel_option (waiting_ok w) (loops w L) (loops w' L)"
  shows "tame w w'"
proof -
  note same = world_more_net[OF more]
  have "rel_option steady (loops w L) (loops w' L)" for L
    using waiting[of L] by (cases "loops w L"; cases "loops w' L") (auto simp: waiting_ok_def)
  moreover have "referenced w C \<or> conns w C \<noteq> None" if ref: "referenced w' C" for C
  proof (cases "\<exists>L el'. loops w' L = Some el' \<and> C \<in> set (functor_conns (el_pendingFunctors el'))")
    case True
    then obtain L el' where el': "loops w' L = Some el'" "C \<in> set (functor_conns (el_pendingFunctors el'))"
      by blast
    then obtain el where "loops w L = Some el" "waiting_ok w el el'"
      using waiting[of L] by (cases "loops w L") auto
    then show ?thesis
      using el'(2) by (auto simp: waiting_ok_def referenced_def)
  next
    case False
    then show ?thesis
      using ref same by (auto simp: referenced_def)
  qed
  ultimately show ?thesis
    using kinds same by (simp add: tame_def)
qed

lemma waiting_refl [simp]: "waiting_ok w el el" "rel_option (waiting_ok w) x x"
  by (simp_all add: waiting_ok_def option.rel_refl)

lemma waiting_same:
  "el_pendingFunctors el' = el_pendingFunctors el \<Longrightarrow> el_threadId el' = el_threadId el \<Longrightarrow> waiting_ok w el el'"
  by (simp add: waiting_ok_def steady_def)

lemma same_index_kind:
  "rel_option (\<lambda>d d'. d' = d\<lparr>ch_index := ch_index d'\<rparr>) x y \<Longrightarrow> map_option chan_kind y = map_option chan_kind x"
proof (cases x; cases y)
  fix d d'
  assume rel: "rel_option (\<lambda>d d'. d' = d\<lparr>ch_index := ch_index d'\<rparr>) x y" and d: "x = Some d" "y = Some d'"
  then have "d' = d\<lparr>ch_index := ch_index d'\<rparr>"
    by simp
  then have "chan_kind d' = chan_kind d"
    by (metis chan_kind_def channel.select_convs(1,2,9,10,11,12) channel.update_convs(5) channel.surjective)
  then show ?thesis
    by (simp add: d)
qed auto

lemma tame_os: "os_step w w' \<Longrightarrow> tame w w'"
  by (rule tame_world) (auto simp: os_step_world elim!: os_stepE)

lemma tame_interest:
  assumes run: "Channel_interest me i p w = Inr w'"
  shows "tame w w'"
proof -
  obtain c where c: "chans w p = Some c"
    using Channel_interest_live[OF run] by blast
  obtain el po where el: "loops w (ch_loop c) = Some el"
      "loops w' = (loops w)(ch_loop c := Some (el\<lparr>el_poller := po\<rparr>))" "world.more w' = world.more w"
    and ch: "\<And>q. rel_option (\<lambda>d d'. d' = d\<lparr>ch_index := ch_index d'\<rparr>)
        (((chans w)(p := Some (c\<lparr>ch_events := interest_mask (statics w) i (ch_events c), ch_addedToLoop := True\<rparr>))) q)
        (chans w' q)"
    using Channel_interest_Inr[OF run c] by blast
  show ?thesis
  proof (rule tame_world[OF el(3)])
    show "map_option chan_kind (chans w' q) = map_option chan_kind (chans w q)" for q
      using same_index_kind[OF ch[of q]] c by (simp add: chan_kind_def split: if_splits)
    show "rel_option (waiting_ok w) (loops w L) (loops w' L)" for L
      using el(1,2) by (simp add: waiting_same)
  qed
qed

lemma tame_queue:
  assumes run: "EventLoop_queueInLoop me L f w = Inr w'"
    and live: "\<And>C. functor_conn f = Some C \<Longrightarrow> conns w C \<noteq> None" and raw: "raw_functor f = None"
  shows "tame w w'"
proof -
  obtain el where el: "loops w L = Some el" "loops w' = (loops w)(L := Some (queue_push f el))"
      "chans w' = chans w" "world.more w' = world.more w"
    using EventLoop_queueInLoop_Inr[OF run] by blast
  have "functor_conns (xs @ [f]) = functor_conns xs @ functor_conns [f]" for xs
    by (simp add: functor_conns_def List.map_filter_def)
  then have "waiting_ok w el (queue_push f el)"
    using live raw by (auto simp: waiting_ok_def steady_def queue_push_def functor_conns_def split: option.splits)
  then show ?thesis
    using el by (intro tame_world) simp_all
qed

lemma tame_removeChannel:
  assumes run: "EventLoop_removeChannel me L p w = Inr w'"
  shows "tame w w'"
proof -
  obtain el po w1 where el: "loops w L = Some el"
    and up: "Poller_removeChannel (EventLoop_isInLoopThread me el) p (el_poller el, w) = Inr (po, w1)"
    and w': "w' = loop_put L (el\<lparr>el_poller := po\<rparr>) w1"
    using run by (auto simp: EventLoop_removeChannel_def res_bind_eq_Inr)
  have same: "same_chans w w1"
    using up by (rule Poller_remove_same)
  then have more: "hworld.more w1 = hworld.more w"
    by (simp add: same_chans_def)
  show ?thesis
  proof (rule tame_world)
    show "world.more w' = world.more w"
      using hworld_more_world(4)[OF more] by (simp add: w')
    show "map_option chan_kind (chans w' q) = map_option chan_kind (chans w q)" for q
      using same same_index_kind[of "chans w q" "chans w1 q"] by (simp add: w' same_chans_def)
    show "rel_option (waiting_ok w) (loops w L') (loops w' L')" for L'
      using el hworld_more_world(1)[OF more] by (simp add: w' waiting_same)
  qed
qed

lemma tame_chan_put: "chans w p = Some c \<Longrightarrow> chan_kind c' = chan_kind c \<Longrightarrow> tame w (chan_put p c' w)"
  by (rule tame_world) simp_all

lemma tame_remove:
  assumes "Channel_remove me p w = Inr w'"
  shows "tame w w'"
proof -
  obtain c where c: "chans w p = Some c"
    and rem: "EventLoop_removeChannel me (ch_loop c) p (chan_put p (c\<lparr>ch_addedToLoop := False\<rparr>) w) = Inr w'"
    using assms by (auto simp: Channel_remove_def res_bind_eq_Inr)
  have "tame w (chan_put p (c\<lparr>ch_addedToLoop := False\<rparr>) w)"
    using c by (rule tame_chan_put) (simp add: chan_kind_def)
  then show ?thesis
    by (rule tame_trans) (rule tame_removeChannel[OF rem])
qed

lemma tame_loop_put:
  "loops w L = Some el \<Longrightarrow> el_pendingFunctors el' = el_pendingFunctors el \<Longrightarrow> el_threadId el' = el_threadId el \<Longrightarrow>
   tame w (loop_put L el' w)"
  by (rule tame_world) (simp_all add: waiting_same)

lemma tame_timers: "tame w (w\<lparr>timers := ts\<rparr>)"
  by (rule tame_world) simp_all

lemma tame_conn_put:
  "conns w C = Some tc \<Longrightarrow> conn_kind tc' = conn_kind tc \<Longrightarrow> tame w (conn_put C tc' w)"
  by (auto simp: tame_def referenced_def conn_put_def)

lemma tame_connector_put:
  "connectors w K = Some co \<Longrightarrow> co_channel co' = co_channel co \<Longrightarrow> tame w (connector_put K co' w)"
  by (auto simp: tame_def referenced_def connector_put_def)

lemma tame_server_put:
  assumes "servers w S = Some sv"
    and "snd ` set (sv_connections sv') \<subseteq> snd ` set (sv_connections sv) \<union> {C. conns w C \<noteq> None}"
  shows "tame w (server_put S sv' w)"
proof -
  have "referenced w C \<or> conns w C \<noteq> None" if ref: "referenced (server_put S sv' w) C" for C
  proof (cases "C \<in> snd ` set (sv_connections sv')")
    case True
    then have "C \<in> snd ` set (sv_connections sv) \<or> conns w C \<noteq> None"
      using assms(2) by blast
    then show ?thesis
      using assms(1) unfolding referenced_def by blast
  next
    case False
    then have "(\<exists>S sv. servers w S = Some sv \<and> C \<in> snd ` set (sv_connections sv)) \<or>
        (\<exists>T cl. clients w T = Some cl \<and> cl_connection cl = Some C) \<or>
        (\<exists>L el. loops w L = Some el \<and> C \<in> set (functor_conns (el_pendingFunctors el)))"
      using ref unfolding referenced_def server_put_def by (simp split: if_splits) metis+
    then show ?thesis
      by (simp add: referenced_def)
  qed
  then show ?thesis
    using assms(1) by (simp add: tame_def server_put_def)
qed

lemma tame_client_put:
  assumes "clients w T = Some cl"
    and "\<And>C. cl_connection cl' = Some C \<Longrightarrow> cl_connection cl = Some C \<or> conns w C \<noteq> None"
  shows "tame w (client_put T cl' w)"
  using assms by (auto simp: tame_def referenced_def client_put_def split: if_splits)


section \<open>Timers\<close>

lemma tame_arm: "TimerQueue_arm L wh w = Inr w' \<Longrightarrow> tame w w'"
proof -
  assume "TimerQueue_arm L wh w = Inr w'"
  then obtain el w1 where step: "os_step w w1" and el: "loops w1 L = Some el"
    and w': "w' = loop_put L (el\<lparr>el_armedFor := Some wh\<rparr>) w1"
    by (auto simp: TimerQueue_arm_def res_bind_eq_Inr loop_mod_def dest!: timerfdSet_os_step)
  show ?thesis
    unfolding w' by (rule tame_trans[OF tame_os[OF step]], rule tame_loop_put[OF el]) simp_all
qed

lemma tame_addInLoop: "TimerQueue_addInLoop L wh t w = Inr w' \<Longrightarrow> tame w w'"
proof -
  assume "TimerQueue_addInLoop L wh t w = Inr w'"
  then obtain el where el: "loops w L = Some el"
    and w': "w' = loop_put L (el\<lparr>el_timers := snd (set_insert (wh, t) (el_timers el))\<rparr>) w \<or>
      TimerQueue_arm L wh (loop_put L (el\<lparr>el_timers := snd (set_insert (wh, t) (el_timers el))\<rparr>) w) = Inr w'"
    by (auto simp: TimerQueue_addInLoop_def res_bind_eq_Inr Let_def case_prod_beta split: if_splits)
  have "tame w (loop_put L (el\<lparr>el_timers := snd (set_insert (wh, t) (el_timers el))\<rparr>) w)"
    using el by (rule tame_loop_put) simp_all
  then show ?thesis
    using w' tame_arm tame_trans by blast
qed

lemma tame_runInLoop:
  assumes "EventLoop_runInLoop me L f body w = Inr w'" and "body w = Inr w' \<Longrightarrow> tame w w'"
    and "\<And>C. functor_conn f = Some C \<Longrightarrow> conns w C \<noteq> None" and "raw_functor f = None"
  shows "tame w w'"
  using assms by (auto simp: EventLoop_runInLoop_def res_bind_eq_Inr split: if_splits intro: tame_queue)

lemma tame_runAfter: "EventLoop_runAfter me L t iv cb w = Inr (t', w') \<Longrightarrow> tame w w'"
proof -
  assume "EventLoop_runAfter me L t iv cb w = Inr (t', w')"
  then obtain now w1 where step: "os_step w w1"
    and run: "EventLoop_runInLoop me L (FAddTimer L (now + iv) t) (TimerQueue_addInLoop L (now + iv) t)
      (timer_put t (Timer_new cb (now + iv) 0) w1) = Inr w'"
    by (auto simp: EventLoop_runAfter_def EventLoop_runAt_def TimerQueue_addTimer_def res_bind_eq_Inr
        split: if_splits dest!: clock_now_os_step)
  have "tame (timer_put t (Timer_new cb (now + iv) 0) w1) w'"
    using run by (rule tame_runInLoop) (auto intro: tame_addInLoop)
  then show ?thesis
    using tame_trans[OF tame_os[OF step]] tame_trans[OF tame_timers] unfolding timer_put_def by blast
qed

lemma tame_cancelInLoop: "TimerQueue_cancelInLoop L t w = Inr w' \<Longrightarrow> tame w w'"
  by (auto simp: TimerQueue_cancelInLoop_def res_bind_eq_Inr loop_mod_def
      intro!: tame_trans[OF tame_loop_put tame_timers])

lemma res_bindE:
  assumes "res_bind m f = Inr y"
  obtains x where "m = Inr x" and "f x = Inr y"
  using assms by (auto simp: res_bind_eq_Inr)

lemma good_fire:
  assumes run: "TimerQueue_fire run_t now L e w = Inr w'"
    and cb: "\<And>t v v'. run_t t v = Inr v' \<Longrightarrow> good th v v'"
  shows "good th w w'"
proof -
  obtain t w1 t1 where t: "(if \<not> tm_canceled t then Timer_run run_t t w else Inr w) = Inr w1"
    and t1: "timers w1 (snd e) = Some t1"
    and rest: "(if \<not> tm_canceled t1 \<and> tm_repeat t1
      then res_bind (Timer_restart t1) (\<lambda>t2.
             loop_mod L (\<lambda>el. el\<lparr>el_timers := snd (set_insert (tm_when t2, snd e) (el_timers el))\<rparr>)
               (timer_put (snd e) t2 w1))
      else Inr (w1\<lparr>timers := (timers w1)(snd e := None)\<rparr>)) = Inr w'"
    using run by (auto simp: TimerQueue_fire_def Let_def res_bind_eq_Inr timer_get_def split: option.splits)
  have "good th w w1"
    using t cb by (auto simp: Timer_run_def split: if_splits option.splits)
  moreover have "tame w1 w'"
    using rest tame_timers[of w1]
    by (auto simp: res_bind_eq_Inr loop_mod_def timer_put_def split: if_splits
        intro!: tame_trans[OF tame_timers tame_loop_put])
  ultimately show ?thesis
    using good_trans tame_good by blast
qed

lemma good_run_all:
  assumes "\<And>x v v'. f x v = Inr v' \<Longrightarrow> good th v v'" and "run_all f xs w = Inr w'"
  shows "good th w w'"
  using assms(2)
proof (induction xs arbitrary: w)
  case (Cons x xs)
  then obtain v where "f x w = Inr v" and "run_all f xs v = Inr w'"
    by (auto simp: res_bind_eq_Inr)
  then show ?case
    using assms(1) Cons.IH good_trans by blast
qed simp

lemma good_timers:
  assumes run: "TimerQueue_handleRead run_t me L w = Inr w'"
    and cb: "\<And>t v v'. run_t t v = Inr v' \<Longrightarrow> good th v v'"
  shows "good th w w'"
proof -
  obtain el el2 el3 :: evloop and w1 p w3 where step: "timerfdRead (el_timerfd el) w = Inr w1" "clock_now w1 = Inr p"
    and el2: "loop_get L (snd p) = Inr el2"
    and fire: "run_all (TimerQueue_fire run_t (fst p) L) (fst (getExpired (fst p) (el_timers el2)))
      (loop_put L (el2\<lparr>el_timers := snd (getExpired (fst p) (el_timers el2))\<rparr>) (snd p)) = Inr w3"
    and arm: "(if el_timers el3 \<noteq> [] then TimerQueue_arm L (fst (hd (el_timers el3))) w3 else Inr w3) = Inr w'"
    using run unfolding TimerQueue_handleRead_def case_prod_beta Let_def
    by (elim res_bindE) (rule that, assumption+)
  obtain now w2 where p: "p = (now, w2)"
    by (cases p)
  note step = step[unfolded p] and el2 = el2[unfolded p snd_conv loop_get_Inr] and fire = fire[unfolded p fst_conv snd_conv]
  let ?w = "loop_put L (el2\<lparr>el_timers := snd (getExpired now (el_timers el2))\<rparr>) w2"
  have "tame w w2"
    using step by (blast intro: tame_trans tame_os timerfdRead_os_step clock_now_os_step)
  then have "tame w ?w"
    by (rule tame_trans) (rule tame_loop_put[OF el2], simp_all)
  moreover have "good th ?w w3"
    using good_fire[OF _ cb] fire by (rule good_run_all)
  moreover have "good th w3 w'"
    using arm by (auto intro: tame_good tame_arm split: if_splits)
  ultimately show ?thesis
    using good_trans tame_good by blast
qed


section \<open>Connections\<close>

lemma tame_conn_mod: "conn_mod C f w = Inr w' \<Longrightarrow> (\<And>tc. conn_kind (f tc) = conn_kind tc) \<Longrightarrow> tame w w'"
  by (auto intro: tame_conn_put)

lemma tame_setState: "TcpConnection_setState s C w = Inr w' \<Longrightarrow> tame w w'"
  unfolding TcpConnection_setState_def by (erule tame_conn_mod) (simp add: conn_kind_def)

lemma tame_put_conn:
  assumes "os_step w w1" and "conns w C = Some tc" and "conn_kind tc' = conn_kind tc"
  shows "tame w (conn_put C tc' w1)"
  using tame_trans[OF tame_os[OF assms(1)] tame_conn_put[of w1 C tc tc']] assms by (simp add: os_step_conn)

lemma tame_shutdownInLoop: "TcpConnection_shutdownInLoop me C w = Inr w' \<Longrightarrow> tame w w'"
  by (auto simp: TcpConnection_shutdownInLoop_def res_bind_eq_Inr tame_os
      dest: Socket_calls_os_step(1) split: if_splits)

lemma tame_handleError: "TcpConnection_handleError C w = Inr w' \<Longrightarrow> tame w w'"
  by (auto simp: TcpConnection_handleError_def res_bind_eq_Inr tame_os dest: Socket_calls_os_step(3))

lemma tame_startRead: "TcpConnection_startReadInLoop me C w = Inr w' \<Longrightarrow> tame w w'"
  by (auto simp: TcpConnection_startReadInLoop_def res_bind_eq_Inr conn_kind_def split: if_splits
      intro: tame_trans[OF tame_interest tame_conn_put])

lemma tame_stopRead: "TcpConnection_stopReadInLoop me C w = Inr w' \<Longrightarrow> tame w w'"
  by (auto simp: TcpConnection_stopReadInLoop_def res_bind_eq_Inr conn_kind_def split: if_splits
      intro: tame_trans[OF tame_interest tame_conn_put])

lemma tame_write_complete:
  "queue_write_complete me tc C w = Inr w' \<Longrightarrow> conns w C \<noteq> None \<Longrightarrow> tame w w'"
  by (auto simp: queue_write_complete_def split: option.splits intro: tame_queue)

lemma tame_handleWrite:
  assumes run: "TcpConnection_handleWrite me C w = Inr w'"
  shows "tame w w'"
proof -
  obtain tc where tc: "conns w C = Some tc"
    using run by (auto simp: TcpConnection_handleWrite_def res_bind_eq_Inr)
  obtain c where c: "chans w (tc_channel tc) = Some c"
    using run tc by (auto simp: TcpConnection_handleWrite_def res_bind_eq_Inr)
  show ?thesis
  proof (cases "Channel_isWriting (statics w) c")
    case True
    obtain n b w1 where io: "conn_writeFd (Channel_isET (statics w)) (ch_fd c) (tc_outputBuffer tc) w = Inr (n, b, w1)"
      using run tc c True by (auto simp: TcpConnection_handleWrite_def res_bind_eq_Inr)
    let ?w2 = "conn_put C (tc\<lparr>tc_outputBuffer := b\<rparr>) w1"
    have w2: "tame w ?w2"
      using conn_writeFd_os_step[OF io] tc by (rule tame_put_conn) (simp add: conn_kind_def)
    consider "w' = ?w2" | w3 w4 where "Channel_interest me DisableWriting (tc_channel tc) ?w2 = Inr w3"
        "queue_write_complete me tc C w3 = Inr w4" "w' = w4 \<or> TcpConnection_shutdownInLoop me C w4 = Inr w'"
      using run tc c True io
      by (auto simp: TcpConnection_handleWrite_def res_bind_eq_Inr Let_def split: if_splits)
    then show ?thesis
    proof cases
      case (2 w3 w4)
      have w3: "tame w w3"
        using tame_trans[OF w2 tame_interest[OF 2(1)]] .
      then have "tame w w4"
        using tame_trans[OF w3 tame_write_complete[OF 2(2)]] tame_live[OF w3, of C] tc by simp
      then show ?thesis
        using 2(3) tame_shutdownInLoop tame_trans by blast
    qed (use w2 in simp)
  qed (use run tc c in \<open>auto simp: TcpConnection_handleWrite_def res_bind_eq_Inr\<close>)
qed

lemma tame_send_rest:
  assumes run: "send_rest me C d w = Inr w'"
  shows "tame w w'"
proof -
  obtain tc where tc: "conns w C = Some tc"
    using run by (auto simp: send_rest_def res_bind_eq_Inr)
  let ?old = "Buffer_readableBytes (tc_outputBuffer tc)"
  let ?put = "\<lambda>b. conn_put C (tc\<lparr>tc_outputBuffer := b\<rparr>)"
  obtain w1 b where mark: "(case tc_highWaterMarkCallback tc of None \<Rightarrow> Inr w
      | Some f \<Rightarrow> if tc_highWaterMark tc \<le> size_plus ?old (length d) \<and> ?old < tc_highWaterMark tc
          then EventLoop_queueInLoop me (tc_loop tc) (FConnHighWaterMark f C (size_plus ?old (length d))) w
          else Inr w) = Inr w1"
    and w': "w' = ?put b w1 \<or> Channel_interest me EnableWriting (tc_channel tc) (?put b w1) = Inr w'"
    using run tc by (simp add: send_rest_def res_bind_eq_Inr Let_def split: if_splits) blast+
  have w1: "tame w w1" "conns w1 = conns w"
    using mark tc the_conns.view_queue by (auto split: option.splits if_splits intro!: tame_queue)
  have "tame w (?put b w1)"
    using w1 tc by (intro tame_trans[OF w1(1) tame_conn_put[of w1 C tc]]) (simp_all add: conn_kind_def)
  then show ?thesis
    using w' tame_interest tame_trans by blast
qed

lemma tame_sendInLoop: "TcpConnection_sendInLoop me C d w = Inr w' \<Longrightarrow> tame w w'"
proof (erule sendInLoop_cases)
  fix tc fd n e w1 w2 d'
  assume tc: "conns w C = Some tc" and wr: "sockets_write fd d w = Inr (n, e, w1)"
    and wc: "w2 = w1 \<or> queue_write_complete me tc C w1 = Inr w2"
    and rest: "w' = w2 \<or> send_rest me C d' w2 = Inr w'"
  have w1: "tame w w1"
    using wr by (intro tame_os sockets_write_os_step)
  then have "tame w1 w2"
    using wc tc tame_live[OF w1, of C] by (auto intro: tame_write_complete)
  then show "tame w w'"
    using rest w1 tame_send_rest tame_trans by metis
qed simp

text \<open>A functor bound to \<^verbatim>\<open>this\<close> is queued by another thread only.\<close>

lemma good_queue_raw:
  assumes run: "EventLoop_queueInLoop me L f w = Inr w'" and raw: "functor_conn f = None"
  shows "good None w w'"
proof -
  obtain el where el: "loops w L = Some el" "loops w' = (loops w)(L := Some (queue_push f el))"
      "chans w' = chans w" "world.more w' = world.more w"
    using EventLoop_queueInLoop_Inr[OF run] by blast
  note same = world_more_net[OF el(4)]
  have "functor_conns (xs @ [f]) = functor_conns xs" for xs
    using raw by (simp add: functor_conns_def List.map_filter_def)
  then have "(\<exists>M el. loops w' M = Some el \<and> C \<in> set (functor_conns (el_pendingFunctors el))) \<longleftrightarrow>
      (\<exists>M el. loops w M = Some el \<and> C \<in> set (functor_conns (el_pendingFunctors el)))" for C
    using el(1) unfolding el(2) by (auto simp: queue_push_def split: if_splits) (metis option.inject)
  then have "referenced w' = referenced w"
    by (simp add: fun_eq_iff referenced_def same)
  moreover have "loops w' p = None \<longleftrightarrow> loops w p = None" for p
    using el by simp
  ultimately have "heap_typed w' = heap_typed w"
    using el(3) same unfolding heap_typed_def unused_def by simp
  then show ?thesis
    by (simp add: good_def sound_def same)
qed

lemma good_runInLoop_raw:
  assumes run: "EventLoop_runInLoop me L f body w = Inr w'" and body: "body w = Inr w' \<Longrightarrow> tame w w'"
    and raw: "functor_conn f = None" and me: "may_run th me"
  shows "good th w w'"
proof -
  obtain el where el: "loops w L = Some el"
      "(if el_threadId el = me then body w else EventLoop_queueInLoop me L f w) = Inr w'"
    using run by (auto simp: EventLoop_runInLoop_def EventLoop_isInLoopThread_def res_bind_eq_Inr)
  consider "body w = Inr w'" | "EventLoop_queueInLoop me L f w = Inr w'" "el_threadId el \<noteq> me"
    using el(2) by (auto split: if_splits)
  then show ?thesis
  proof cases
    case 2
    then show ?thesis
    proof (cases th)
      case None
      then show ?thesis
        using 2(1) raw good_queue_raw by blast
    next
      case (Some me')
      then have "\<not> solo th w"
        using el(1) 2(2) me by (auto simp: solo_def may_run_def)
      then show ?thesis
        by (simp add: good_def sound_def)
    qed
  qed (use body tame_good in blast)
qed

lemma good_send: "TcpConnection_send me C d w = Inr w' \<Longrightarrow> may_run th me \<Longrightarrow> good th w w'"
  by (auto simp: TcpConnection_send_def res_bind_eq_Inr split: if_splits
      elim!: good_runInLoop_raw intro: tame_sendInLoop)

lemma tame_detach: "client_detach C L w = Inr w' \<Longrightarrow> tame w w'"
  unfolding client_detach_def by (erule tame_conn_mod) (simp add: conn_kind_def TcpConnection_setCloseCallback_def)

text \<open>Callbacks are run on live connections only; what they do is an assumption here.\<close>

definition keeps_types :: "nat option \<Rightarrow> (conn_event \<Rightarrow> ptr \<Rightarrow> net_world \<Rightarrow> net_world res) \<Rightarrow> bool" where
  "keeps_types th run_ev \<longleftrightarrow> (\<forall>ev C v v'. run_ev ev C v = Inr v' \<longrightarrow> conns v C \<noteq> None \<longrightarrow> good th v v')"

lemma good_calls:
  assumes "keeps_types th run_ev"
  shows "call_connection run_ev C w = Inr w' \<Longrightarrow> good th w w'" "call_message run_ev t C w = Inr w' \<Longrightarrow> good th w w'"
    "call_close run_ev C w = Inr w' \<Longrightarrow> good th w w'"
  using assms unfolding keeps_types_def
  by (auto simp: call_connection_def call_message_def call_close_def res_bind_eq_Inr split: option.splits)

lemma good_handleClose:
  assumes run: "TcpConnection_handleClose run_ev me C w = Inr w'" and ev: "keeps_types th run_ev"
  shows "good th w w'"
proof -
  obtain s p w1 w2 w3 where "TcpConnection_setState s C w = Inr w1" "Channel_interest me DisableAll p w1 = Inr w2"
      "call_connection run_ev C w2 = Inr w3" "call_close run_ev C w3 = Inr w'"
    using run unfolding TcpConnection_handleClose_def by (elim res_bindE) (rule that; assumption)
  then show ?thesis
    by (blast intro: good_trans tame_good tame_setState tame_interest good_calls[OF ev])
qed

lemma good_forceClose:
  "TcpConnection_forceCloseInLoop run_ev me C w = Inr w' \<Longrightarrow> keeps_types th run_ev \<Longrightarrow> good th w w'"
  by (auto simp: TcpConnection_forceCloseInLoop_def res_bind_eq_Inr split: if_splits intro: good_handleClose)

lemma good_established:
  assumes run: "TcpConnection_connectEstablished run_ev me C w = Inr w'" and ev: "keeps_types th run_ev"
  shows "good th w w'"
proof -
  obtain s p w1 w2 where "TcpConnection_setState s C w = Inr w1" "Channel_interest me EnableReading p w1 = Inr w2"
      "call_connection run_ev C w2 = Inr w'"
    using run unfolding TcpConnection_connectEstablished_def by (elim res_bindE) (rule that; assumption)
  then show ?thesis
    by (blast intro: good_trans tame_good tame_setState tame_interest good_calls[OF ev])
qed

lemma good_destroyed:
  assumes run: "TcpConnection_connectDestroyed run_ev me C w = Inr w'" and ev: "keeps_types th run_ev"
  shows "good th w w'"
proof -
  obtain tc :: tcp_connection and w3 where off: "(if tc_state tc = kConnected
       then res_bind (TcpConnection_setState kDisconnected C w) (\<lambda>w1.
            res_bind (Channel_interest me DisableAll (tc_channel tc) w1) (\<lambda>w2.
              call_connection run_ev C w2))
       else Inr w) = Inr w3" and rem: "Channel_remove me (tc_channel tc) w3 = Inr w'"
    using run unfolding TcpConnection_connectDestroyed_def by (elim res_bindE) (rule that, assumption+)
  have "good th w w3"
    using off by (auto elim!: res_bindE split: if_splits
        intro: good_trans[OF tame_good[OF tame_trans[OF tame_setState tame_interest]] good_calls(1)[OF ev]])
  then show ?thesis
    using tame_good[OF tame_remove[OF rem]] good_trans by blast
qed

lemma good_handleRead:
  assumes run: "TcpConnection_handleRead run_ev me t C w = Inr w'" and ev: "keeps_types th run_ev"
  shows "good th w w'"
proof -
  obtain tc et fd n b w1 where tc: "conns w C = Some tc" and io: "conn_readFd et fd (tc_inputBuffer tc) w = Inr (n, b, w1)"
    and rest: "(let w2 = conn_put C (tc\<lparr>tc_inputBuffer := b\<rparr>) w1 in
     if n > 0 then call_message run_ev t C w2
     else if n = 0 then TcpConnection_handleClose run_ev me C w2
     else TcpConnection_handleError C w2) = Inr w'"
    using run by (auto simp: TcpConnection_handleRead_def res_bind_eq_Inr)
  have "good th w (conn_put C (tc\<lparr>tc_inputBuffer := b\<rparr>) w1)"
    using conn_readFd_os_step[OF io] tc by (intro tame_good tame_put_conn) (simp_all add: conn_kind_def)
  moreover have "good th (conn_put C (tc\<lparr>tc_inputBuffer := b\<rparr>) w1) w'"
    using rest good_calls(2)[OF ev] good_handleClose[OF _ ev] tame_good[OF tame_handleError]
    by (simp add: Let_def split: if_splits)
  ultimately show ?thesis
    by (rule good_trans)
qed


section \<open>New objects\<close>

definition fresh_at :: "net_world \<Rightarrow> ptr \<Rightarrow> bool" where
  "fresh_at w p \<longleftrightarrow> unused w p \<and> p < brk w"

lemma tame_fresh: "tame w w' \<Longrightarrow> fresh_at w' p = fresh_at w p"
  by (simp add: fresh_at_def tame_unused) (simp add: tame_def)

lemma sound_with_new:
  assumes "sound th w"
  shows "sound th (w\<lparr>brk := brk w + 2\<rparr>)" "fresh_at (w\<lparr>brk := brk w + 2\<rparr>) (brk w)" "fresh_at (w\<lparr>brk := brk w + 2\<rparr>) (brk w + 1)"
proof -
  let ?v = "w\<lparr>brk := brk w + 2\<rparr>"
  have "referenced ?v = referenced w" "unused ?v = unused w"
    by (simp_all add: fun_eq_iff referenced_def unused_def)
  then show "sound th ?v" "fresh_at ?v (brk w)" "fresh_at ?v (brk w + 1)"
    using assms by (simp_all add: sound_def solo_def heap_typed_def fresh_at_def)
qed

lemma good_with_new:
  assumes run: "with_new f w = Inr w'"
    and f: "\<And>p q v. fresh_at v p \<Longrightarrow> fresh_at v q \<Longrightarrow> f p q v = Inr w' \<Longrightarrow> good th v w'"
  shows "good th w w'"
proof (cases "sound th w")
  case True
  note new = sound_with_new[OF True]
  have "good th (w\<lparr>brk := brk w + 2\<rparr>) w'"
    using f[OF new(2,3)] run by (simp add: with_new_def)
  then show ?thesis
    using new(1) by (simp add: good_def)
qed (simp add: good_def)

lemma good_conn_new:
  assumes run: "TcpConnection_new C ch L name fd la pa w = Inr w'" and fresh: "fresh_at w C" "fresh_at w ch"
  shows "good th w w'" and "conns w' C \<noteq> None"
proof -
  obtain tc c where step: "os_step (conn_put C tc (chan_put ch c w)) w'" (is "os_step ?v _")
    and wired: "tc_channel tc = ch" "wired C tc c"
    using run by (auto simp: TcpConnection_new_def res_bind_eq_Inr Let_def wired_def chan_kind_def Channel_new_def
        Channel_setReadCallback_def Channel_setWriteCallback_def Channel_setErrorCallback_def
        Channel_setCloseCallback_def dest!: setKeepAlive_os_step)
  have free: "conns w C = None" "chans w ch = None" "C < brk w" "ch < brk w"
    using fresh by (simp_all add: fresh_at_def unused_def)
  have "heap_typed ?v" if ok: "heap_typed w"
  proof -
    have "\<exists>d. chans ?v (tc_channel td) = Some d \<and> wired D td d" if "conns ?v D = Some td" for D td
      using that wired free heap_typed_conn[OF ok, of D td] by (auto split: if_splits)
    moreover have "\<exists>td. conns ?v D = Some td \<and> tc_channel td = q" if "chans ?v q = Some d" "speaks_for d D" for q d D
      using that wired free heap_typed_speaks[OF ok, of q d D] by (auto simp: wired_speaks split: if_splits)
    moreover have "\<exists>d. chans ?v q = Some d \<and> ch_writeCallback d = Some (CbConnectorWrite K)"
      if "connectors ?v K = Some co" "co_channel co = Some q" for K co q
      using that free heap_typed_connector[OF ok, of K co q] by auto
    moreover have "referenced ?v = referenced w"
      by (simp add: fun_eq_iff referenced_def conn_put_def chan_put_def)
    moreover have "unused ?v p \<and> servers ?v p = None \<and> clients ?v p = None \<and> loops ?v p = None" if "brk w \<le> p" for p
      using that free heap_typed_fresh[OF ok that] by (auto simp: unused_def conn_put_def chan_put_def)
    ultimately show ?thesis
      using heap_typed_referenced[OF ok] by (intro heap_typedI) (simp_all add: conn_put_def chan_put_def)
  qed
  then have "good th w ?v"
    by (intro goodI) auto
  then show "good th w w'"
    using tame_good[OF tame_os[OF step]] good_trans by blast
  show "conns w' C \<noteq> None"
    using os_step_conn[OF step] by simp
qed

lemma good_runInLoop:
  assumes "EventLoop_runInLoop me L f body w = Inr w'" and "body w = Inr w' \<Longrightarrow> good th w w'"
    and "\<And>C. functor_conn f = Some C \<Longrightarrow> conns w C \<noteq> None" and "raw_functor f = None"
  shows "good th w w'"
  using assms by (auto simp: EventLoop_runInLoop_def res_bind_eq_Inr split: if_splits intro: tame_good[OF tame_queue])


section \<open>Servers\<close>

lemmas conn_setter_defs =
  TcpConnection_setCloseCallback_def TcpConnection_setWriteCompleteCallback_def
  TcpConnection_setMessageCallback_def TcpConnection_setConnectionCallback_def

lemma tame_server_mod:
  assumes "server_mod S f w = Inr w'"
    and "\<And>sv. snd ` set (sv_connections (f sv)) \<subseteq> snd ` set (sv_connections sv) \<union> {C. conns w C \<noteq> None}"
  shows "tame w w'"
  using assms by (auto simp: server_mod_def res_bind_eq_Inr intro!: tame_server_put)

lemma map_put_sub: "set (map_put k v m) \<subseteq> insert (k, v) (set m)"
  by (induction k v m rule: map_put.induct) auto

lemma good_server_new:
  assumes run: "TcpServer_newConnection run_ev me C ch S fd pa w = Inr w'" and ev: "keeps_types th run_ev"
    and fresh: "fresh_at w C" "fresh_at w ch"
  shows "good th w w'"
proof -
  obtain sv :: tcp_server and p n w1 w2 w3 where sv: "server_get S w = Inr sv"
    and new: "TcpConnection_new C ch (fst p) (server_conn_name sv) fd (sockets_getLocalAddr fd w) pa
      (server_put S (sv\<lparr>sv_threadPool := snd p, sv_nextConnId := n\<rparr>) w) = Inr w1" (is "_ = Inr _")
    and add: "server_mod S (\<lambda>sv'. sv'\<lparr>sv_connections := map_put (server_conn_name sv) C (sv_connections sv')\<rparr>) w1 = Inr w2"
    and set: "conn_mod C (\<lambda>tc.
         TcpConnection_setCloseCallback (Some (CloseServer S))
           (TcpConnection_setWriteCompleteCallback (sv_writeCompleteCallback sv)
             (TcpConnection_setMessageCallback (sv_messageCallback sv)
               (TcpConnection_setConnectionCallback (sv_connectionCallback sv) tc)))) w2 = Inr w3"
    and est: "EventLoop_runInLoop me (fst p) (FConnEstablished C) (TcpConnection_connectEstablished run_ev me C) w3 = Inr w'"
    using run unfolding TcpServer_newConnection_def Let_def case_prod_beta
    by (elim res_bindE) (rule that, assumption+)
  let ?v = "server_put S (sv\<lparr>sv_threadPool := snd p, sv_nextConnId := n\<rparr>) w"
  have v: "tame w ?v"
    using sv by (intro tame_server_put) auto
  note w1 = good_conn_new[OF new fresh[folded tame_fresh[OF v]]]
  have w2: "tame w1 w2"
    using add by (rule tame_server_mod) (use w1(2) in \<open>auto dest!: subsetD[OF map_put_sub]\<close>)
  have w3: "tame w2 w3"
    using set by (rule tame_conn_mod) (simp add: conn_kind_def conn_setter_defs)
  have "good th w3 w'"
    using est tame_live[OF tame_trans[OF w2 w3], of C] w1(2)
    by (auto intro: good_established ev elim!: good_runInLoop)
  then show ?thesis
    by (rule good_trans[OF tame_good[OF v] good_trans[OF w1(1) good_trans[OF tame_good[OF tame_trans[OF w2 w3]]]]])
qed


lemma tame_serverRemoveInLoop:
  assumes run: "TcpServer_removeConnectionInLoop me S C w = Inr w'"
  shows "tame w w'"
proof -
  obtain sv :: tcp_server and tc where sv: "servers w S = Some sv" and tc: "conns w C = Some tc"
    and queue: "EventLoop_queueInLoop me (tc_loop tc) (FConnDestroyed C)
       (server_put S (sv\<lparr>sv_connections := map_erase (tc_name tc) (sv_connections sv)\<rparr>) w) = Inr w'"
    using run by (auto simp: TcpServer_removeConnectionInLoop_def res_bind_eq_Inr)
  have "tame w (server_put S (sv\<lparr>sv_connections := map_erase (tc_name tc) (sv_connections sv)\<rparr>) w)"
    using sv by (rule tame_server_put) (auto simp: map_erase_def)
  then show ?thesis
    by (rule tame_trans) (rule tame_queue[OF queue], use tc in simp_all)
qed

lemma tame_serverRemove:
  "TcpServer_removeConnection me S C w = Inr w' \<Longrightarrow> conns w C \<noteq> None \<Longrightarrow> tame w w'"
  by (auto simp: TcpServer_removeConnection_def res_bind_eq_Inr elim!: tame_runInLoop intro: tame_serverRemoveInLoop)

lemma tame_close: "sockets_close fd w = Inr w' \<Longrightarrow> tame w w'"
  by (auto simp: sockets_close_def res_bind_eq_Inr dest!: sys_int_os_step intro: tame_os)

lemma tame_acceptor_put: "tame w (acceptor_put A ac w)"
  by (simp add: tame_def referenced_def acceptor_put_def)

lemma tame_discard:
  assumes run: "Acceptor_discard A ac w = Inr w'"
  shows "tame w w'"
proof -
  have "\<exists>ac' v. os_step w v \<and> w' = acceptor_put A ac' v"
    using run by (auto simp: Acceptor_discard_def open_dev_null_def res_bind_eq_Inr dest!: sys_int_os_step)
      (blast intro: os_step_trans)
  then obtain ac' v where v: "os_step w v" and w': "w' = acceptor_put A ac' v"
    by blast
  show ?thesis
    unfolding w' by (rule tame_trans[OF tame_os[OF v] tame_acceptor_put])
qed

lemma good_accept:
  assumes run: "Acceptor_handleRead run_new me A w = Inr w'"
    and new: "\<And>S fd pa v. run_new S fd pa v = Inr w' \<Longrightarrow> good th v w'"
  shows "good th w w'"
proof -
  obtain ac :: acceptor and p where acc: "Socket_accept (ac_acceptSocket ac) (InetAddress_port zero_address 0 False False) w = Inr p"
    and rest: "(if 0 \<le> fst p
       then (case ac_newConnectionCallback ac of
               Some S \<Rightarrow> run_new S (fst p) (fst (snd (snd p))) (snd (snd (snd p)))
             | None \<Rightarrow> sockets_close (fst p) (snd (snd (snd p))))
       else if fst (snd p) = EMFILE then Acceptor_discard A ac (snd (snd (snd p)))
       else Inr (snd (snd (snd p)))) = Inr w'"
    using run unfolding Acceptor_handleRead_def case_prod_beta by (elim res_bindE) (rule that, assumption+)
  let ?v = "snd (snd (snd p))"
  have "tame w ?v"
    using acc by (intro tame_os)
      (auto simp: Socket_accept_def sockets_accept_def res_bind_eq_Inr split: if_splits dest!: sys_int_os_step)
  moreover have "good th ?v w'"
    using rest new
    by (auto intro: tame_good tame_close tame_discard split: if_splits option.splits)
  ultimately show ?thesis
    using tame_good good_trans by blast
qed


section \<open>Connectors and clients\<close>

lemma tame_connector_mod:
  "connector_mod K f w = Inr w' \<Longrightarrow> (\<And>co. co_channel (f co) = co_channel co) \<Longrightarrow> tame w w'"
  by (auto intro: tame_connector_put)

lemma tame_co_setState: "Connector_setState s K w = Inr w' \<Longrightarrow> tame w w'"
  unfolding Connector_setState_def by (erule tame_connector_mod) simp

lemma tame_retry:
  assumes run: "Connector_retry me tm fd K w = Inr w'"
  shows "tame w w'"
proof -
  obtain w1 w2 and co :: connector where close: "sockets_close fd w = Inr w1"
    and state: "Connector_setState ckDisconnected K w1 = Inr w2"
    and rest: "(if co_connect co
       then res_bind (EventLoop_runAfter me (co_loop co) tm (co_retryDelayMs co * 1000000)
                       (Some (TmConnectorStart K)) w2) (\<lambda>p.
            connector_mod K (\<lambda>co. co\<lparr>co_timer := Some (fst p),
              co_retryDelayMs := min (co_retryDelayMs co * 2) kMaxRetryDelayMs\<rparr>) (snd p))
       else Inr w2) = Inr w'"
    using run unfolding Connector_retry_def case_prod_beta by (elim res_bindE) (rule that, assumption+)
  have "tame w2 w'"
    using rest by (auto elim!: res_bindE split: if_splits simp del: connector_mod_Inr
        intro: tame_trans[OF tame_runAfter tame_connector_mod])
  then show ?thesis
    using tame_trans[OF tame_close[OF close] tame_co_setState[OF state]] tame_trans by blast
qed

lemma good_connecting:
  assumes run: "Connector_connecting me ch fd K w = Inr w'" and fresh: "fresh_at w ch"
  shows "good th w w'"
proof -
  define chan where "chan co = Channel_setErrorCallback (CbConnectorError K)
      (Channel_setWriteCallback (CbConnectorWrite K) (Channel_new (co_loop co) fd))" for co :: connector
  obtain co where co: "connectors w K = Some co" "co_channel co = None"
    and int: "Channel_interest me EnableWriting ch
      (connector_put K (co\<lparr>co_state := ckConnecting, co_channel := Some ch\<rparr>)
        (chan_put ch (chan (co\<lparr>co_state := ckConnecting\<rparr>)) (connector_put K (co\<lparr>co_state := ckConnecting\<rparr>) w))) = Inr w'"
    using run by (auto simp: Connector_connecting_def Connector_setState_def res_bind_eq_Inr Let_def chan_def)
  define c where "c = chan (co\<lparr>co_state := ckConnecting\<rparr>)"
  note int = int[folded c_def]
  have c: "ch_writeCallback c = Some (CbConnectorWrite K)" and mute: "\<not> speaks_for c D" for D
    by (simp_all add: c_def chan_def Channel_setErrorCallback_def Channel_setWriteCallback_def Channel_new_def
        speaks_for_def conn_cbs_def)
  let ?v = "connector_put K (co\<lparr>co_state := ckConnecting, co_channel := Some ch\<rparr>)
        (chan_put ch c (connector_put K (co\<lparr>co_state := ckConnecting\<rparr>) w))"
  have free: "chans w ch = None" "ch < brk w"
    using fresh by (simp_all add: fresh_at_def unused_def)
  have same: "conns ?v = conns w" "servers ?v = servers w" "clients ?v = clients w" "loops ?v = loops w" "brk ?v = brk w"
      "chans ?v = (chans w)(ch := Some c)"
    by (simp_all add: connector_put_def chan_put_def)
  have "heap_typed ?v" if ok: "heap_typed w"
  proof -
    have "\<exists>d. chans ?v (tc_channel td) = Some d \<and> wired D td d" if "conns ?v D = Some td" for D td
      using that free same heap_typed_conn[OF ok, of D td] by auto
    moreover have "\<exists>td. conns ?v D = Some td \<and> tc_channel td = q" if "chans ?v q = Some d" "speaks_for d D" for q d D
      using that same mute heap_typed_speaks[OF ok, of q d D] by (auto split: if_splits)
    moreover have "\<exists>d. chans ?v q = Some d \<and> ch_writeCallback d = Some (CbConnectorWrite J)"
      if "connectors ?v J = Some co'" "co_channel co' = Some q" for J co' q
    proof (cases "J = K")
      case False
      then have "connectors w J = Some co'"
        using that(1) by (simp add: connector_put_def chan_put_def)
      then show ?thesis
        using that(2) free same heap_typed_connector[OF ok] by fastforce
    qed (use that same c in auto)
    moreover have "referenced ?v = referenced w"
      by (simp add: fun_eq_iff referenced_def same)
    moreover have "unused ?v p \<and> servers ?v p = None \<and> clients ?v p = None \<and> loops ?v p = None" if "brk w \<le> p" for p
      using that free same heap_typed_fresh[OF ok that] by (auto simp: unused_def)
    ultimately show ?thesis
      using heap_typed_referenced[OF ok] by (intro heap_typedI) (simp_all add: same)
  qed
  then have "good th w ?v"
    by (intro goodI) (auto simp: same)
  then show ?thesis
    using tame_good[OF tame_interest[OF int]] good_trans by blast
qed

lemma good_connect:
  assumes run: "Connector_connect me ch tm K w = Inr w'" and fresh: "fresh_at w ch"
  shows "good th w w'"
proof -
  obtain co :: connector and p q where create: "sockets_createNonblockingOrDie (InetAddress_family (co_serverAddr co)) w = Inr p"
    and conn: "sockets_connect (fst p) (co_serverAddr co) (snd p) = Inr q"
    and rest: "(let savedErrno = if fst q = 0 then 0 else fst (snd q) in
     if savedErrno \<in> {0, EINPROGRESS, EINTR, EISCONN} then Connector_connecting me ch (fst p) K (snd (snd q))
     else if savedErrno \<in> {EAGAIN, EADDRINUSE, EADDRNOTAVAIL, ECONNREFUSED, ENETUNREACH}
     then Connector_retry me tm (fst p) K (snd (snd q))
     else sockets_close (fst p) (snd (snd q))) = Inr w'"
    using run unfolding Connector_connect_def case_prod_beta by (elim res_bindE) (rule that, assumption+)
  let ?v = "snd (snd q)"
  have "os_step w (snd p)"
    using create by (cases p) (auto simp: sockets_createNonblockingOrDie_def res_bind_eq_Inr
        split: if_splits dest!: sys_int_os_step)
  moreover have "os_step (snd p) ?v"
    using conn by (cases q) (auto simp: sockets_connect_def dest!: sys_int_os_step)
  ultimately have step: "os_step w ?v"
    by (rule os_step_trans)
  have "fresh_at ?v ch"
    using fresh by (simp add: tame_fresh[OF tame_os[OF step]])
  then have "good th ?v w'"
    using rest by (auto simp: Let_def split: if_splits intro: good_connecting tame_good tame_retry tame_close)
  then show ?thesis
    using tame_good[OF tame_os[OF step]] good_trans by blast
qed

lemma good_startInLoop:
  "Connector_startInLoop me ch tm K w = Inr w' \<Longrightarrow> fresh_at w ch \<Longrightarrow> good th w w'"
  by (auto simp: Connector_startInLoop_def res_bind_eq_Inr split: if_splits intro: good_connect)

lemma good_restart:
  assumes run: "Connector_restart me ch tm K w = Inr w'" and fresh: "fresh_at w ch"
  shows "good th w w'"
proof -
  obtain co where co: "connectors w K = Some co" and start: "Connector_startInLoop me ch tm K
      (connector_put K (co\<lparr>co_state := ckDisconnected, co_retryDelayMs := kInitRetryDelayMs, co_connect := True\<rparr>) w) = Inr w'"
    using run by (auto simp: Connector_restart_def res_bind_eq_Inr)
  have put: "tame w (connector_put K (co\<lparr>co_state := ckDisconnected, co_retryDelayMs := kInitRetryDelayMs,
      co_connect := True\<rparr>) w)"
    using co by (rule tame_connector_put) simp
  show ?thesis
    using fresh by (intro good_trans[OF tame_good[OF put] good_startInLoop[OF start]]) (simp add: tame_fresh[OF put])
qed

lemma tame_removeAndReset:
  assumes run: "Connector_removeAndResetChannel me K w = Inr (fd, w')"
  shows "tame w w'"
proof -
  obtain ch L w1 w2 where w1: "Channel_interest me DisableAll ch w = Inr w1" and w2: "EventLoop_removeChannel me L ch w1 = Inr w2"
    and w': "EventLoop_queueInLoop me L (FConnectorReset K) w2 = Inr w'"
    using run by (auto simp: Connector_removeAndResetChannel_def res_bind_eq_Inr split: option.splits)
  show ?thesis
    by (rule tame_trans[OF tame_interest[OF w1] tame_trans[OF tame_removeChannel[OF w2] tame_queue[OF w']]]) simp_all
qed


lemma good_resetChannel:
  assumes run: "Connector_resetChannel K w = Inr w'"
  shows "good th w w'"
proof -
  obtain co where co: "connectors w K = Some co"
    using run by (auto simp: Connector_resetChannel_def res_bind_eq_Inr)
  show ?thesis
  proof (cases "co_channel co")
    case (Some ch)
    let ?v = "connector_put K (co\<lparr>co_channel := None\<rparr>) (w\<lparr>chans := (chans w)(ch := None)\<rparr>)"
    have w': "w' = ?v"
      using run co Some by (auto simp: Connector_resetChannel_def chan_delete_def res_bind_eq_Inr)
    have same: "conns ?v = conns w" "servers ?v = servers w" "clients ?v = clients w" "loops ?v = loops w" "brk ?v = brk w"
      "chans ?v = (chans w)(ch := None)"
      by (simp_all add: connector_put_def)
    have "heap_typed ?v" if ok: "heap_typed w"
    proof -
      obtain c where c: "chans w ch = Some c" "ch_writeCallback c = Some (CbConnectorWrite K)"
        using heap_typed_connector[OF ok co Some] by blast
      have "\<exists>d. chans ?v (tc_channel td) = Some d \<and> wired D td d" if "conns ?v D = Some td" for D td
        using that c same heap_typed_conn[OF ok, of D td] by (auto simp: wired_def chan_kind_def)
      moreover have "\<exists>td. conns ?v D = Some td \<and> tc_channel td = q" if "chans ?v q = Some d" "speaks_for d D" for q d D
        using that same heap_typed_speaks[OF ok, of q d D] by (auto split: if_splits)
      moreover have "\<exists>d. chans ?v q = Some d \<and> ch_writeCallback d = Some (CbConnectorWrite J)"
        if "connectors ?v J = Some co'" "co_channel co' = Some q" for J co' q
        using that c same heap_typed_connector[OF ok, of J co' q] by (auto simp: connector_put_def split: if_splits)
      moreover have "referenced ?v = referenced w"
        by (simp add: fun_eq_iff referenced_def same)
      moreover have "unused ?v p \<and> servers ?v p = None \<and> clients ?v p = None \<and> loops ?v p = None" if "brk w \<le> p" for p
        using that same heap_typed_fresh[OF ok that] by (auto simp: unused_def)
      ultimately show ?thesis
        using heap_typed_referenced[OF ok] by (intro heap_typedI) (simp_all add: same)
    qed
    then show ?thesis
      unfolding w' by (intro goodI) (auto simp: same)
  qed (use run co in \<open>simp add: Connector_resetChannel_def connector_get_def\<close>)
qed

lemma good_connectorWrite:
  assumes run: "Connector_handleWrite run_new me tm K w = Inr w'"
    and new: "\<And>T fd v. run_new T fd v = Inr w' \<Longrightarrow> good th v w'"
  shows "good th w w'"
proof (cases "\<exists>co. connectors w K = Some co \<and> co_state co = ckConnecting")
  case True
  then obtain fd v1 err v2 where remove: "Connector_removeAndResetChannel me K w = Inr (fd, v1)"
    and err: "sockets_getSocketError fd v1 = Inr (err, v2)"
    and rest: "(if err \<noteq> 0 then Connector_retry me tm fd K v2
          else if sockets_isSelfConnect_fd fd v2 then Connector_retry me tm fd K v2
          else res_bind (Connector_setState ckConnected K v2) (\<lambda>w3.
               res_bind (connector_get K w3) (\<lambda>co3.
               if co_connect co3
               then (case co_newConnectionCallback co3 of
                       None \<Rightarrow> Inl BadFunctionCall
                     | Some client \<Rightarrow> run_new client fd w3)
               else sockets_close fd w3))) = Inr w'"
    using run by (auto simp: Connector_handleWrite_def elim!: res_bindE)
  have "tame w v1"
    using remove by (rule tame_removeAndReset)
  moreover have "tame v1 v2"
    using err by (intro tame_os Socket_calls_os_step(3))
  moreover have "good th v2 w'"
  proof (cases "err \<noteq> 0 \<or> sockets_isSelfConnect_fd fd v2")
    case False
    then obtain w3 co3 where w3: "Connector_setState ckConnected K v2 = Inr w3"
      and "(if co_connect (co3 :: connector)
         then (case co_newConnectionCallback co3 of
                 None \<Rightarrow> Inl BadFunctionCall
               | Some client \<Rightarrow> run_new client fd w3)
         else sockets_close fd w3) = Inr w'"
      using rest by (auto elim!: res_bindE simp del: connector_get_Inr)
    then have "sockets_close fd w3 = Inr w' \<or> (\<exists>T. run_new T fd w3 = Inr w')"
      by (auto split: if_splits option.splits)
    then have "good th w3 w'"
      using new tame_good[OF tame_close] by blast
    then show ?thesis
      using tame_good[OF tame_co_setState[OF w3]] good_trans by blast
  qed (use rest in \<open>auto intro: tame_good tame_retry split: if_splits\<close>)
  ultimately show ?thesis
    using tame_trans tame_good good_trans by blast
next
  case False
  then have "w' = w"
    using run by (auto simp: Connector_handleWrite_def res_bind_eq_Inr)
  then show ?thesis
    by simp
qed

lemma tame_connectorError:
  assumes run: "Connector_handleError me tm K w = Inr w'"
  shows "tame w w'"
proof -
  obtain p q where "Connector_removeAndResetChannel me K w = Inr p" "sockets_getSocketError (fst p) (snd p) = Inr q"
      "Connector_retry me tm (fst p) K (snd q) = Inr w'"
    using run unfolding Connector_handleError_def case_prod_beta by (elim res_bindE) (rule that, assumption+)
  then show ?thesis
    by (cases p; cases q)
      (auto intro: tame_trans[OF tame_removeAndReset] tame_trans[OF tame_os tame_retry] Socket_calls_os_step(3))
qed

lemma tame_client_mod:
  assumes "client_mod T f w = Inr w'"
    and "\<And>cl C. cl_connection (f cl) = Some C \<Longrightarrow> cl_connection cl = Some C \<or> conns w C \<noteq> None"
  shows "tame w w'"
  using assms(1) by (auto simp: client_mod_def res_bind_eq_Inr dest: assms(2) intro!: tame_client_put)

lemma good_client_new:
  assumes run: "TcpClient_newConnection lib run_ev me C ch T fd w = Inr w'" and ev: "keeps_types th run_ev"
    and fresh: "fresh_at w C" "fresh_at w ch"
  shows "good th w w'"
proof -
  obtain cl :: tcp_client and name pa n w1 w2 w3 where cl: "client_get T w = Inr cl"
    and new: "TcpConnection_new C ch (cl_loop cl) name fd (sockets_getLocalAddr fd w) pa
      (client_put T (cl\<lparr>cl_nextConnId := n\<rparr>) w) = Inr w1"
    and set: "conn_mod C (\<lambda>tc.
         TcpConnection_setCloseCallback (Some (CloseClient T))
           (TcpConnection_setWriteCompleteCallback (cl_writeCompleteCallback cl)
             (TcpConnection_setMessageCallback (cl_messageCallback cl)
               (TcpConnection_setConnectionCallback (cl_connectionCallback cl) tc)))) w1 = Inr w2"
    and keep: "client_mod T (\<lambda>cl. cl\<lparr>cl_connection := Some C\<rparr>) w2 = Inr w3"
    and est: "TcpConnection_connectEstablished run_ev me C w3 = Inr w'"
    using run unfolding TcpClient_newConnection_def Let_def by (elim res_bindE) (rule that, assumption+)
  let ?v = "client_put T (cl\<lparr>cl_nextConnId := n\<rparr>) w"
  have v: "tame w ?v"
    using cl by (intro tame_client_put) auto
  note w1 = good_conn_new[OF new fresh[folded tame_fresh[OF v]]]
  have w2: "tame w1 w2"
    using set by (rule tame_conn_mod) (simp add: conn_kind_def conn_setter_defs)
  have w3: "tame w2 w3"
    using keep by (rule tame_client_mod) (use w1(2) tame_live[OF w2, of C] in auto)
  show ?thesis
    by (rule good_trans[OF tame_good[OF v] good_trans[OF w1(1)
          good_trans[OF tame_good[OF tame_trans[OF w2 w3]] good_established[OF est ev]]]])
qed

lemma good_client_remove:
  assumes run: "TcpClient_removeConnection me ch tm T C w = Inr w'" and fresh: "fresh_at w ch"
  shows "good th w w'"
proof -
  obtain cl :: tcp_client and tc w1 where cl: "clients w T = Some cl" and tc: "conns w C = Some tc"
    and queue: "EventLoop_queueInLoop me (cl_loop cl) (FConnDestroyed C) (client_put T (cl\<lparr>cl_connection := None\<rparr>) w) = Inr w1"
    and rest: "w' = w1 \<or> Connector_restart me ch tm (cl_connector cl) w1 = Inr w'"
    using run by (auto simp: TcpClient_removeConnection_def res_bind_eq_Inr split: if_splits)
  have "tame w (client_put T (cl\<lparr>cl_connection := None\<rparr>) w)"
    using cl by (rule tame_client_put) simp
  then have w1: "tame w w1"
    by (rule tame_trans) (rule tame_queue[OF queue], use tc in simp_all)
  have "good th w1 w'"
    using rest fresh tame_fresh[OF w1] good_restart by auto
  then show ?thesis
    using tame_good[OF w1] good_trans by blast
qed

end
