(* ===== verification/Echo_Threads.thy ===== *)
theory Echo_Threads
  imports Echo
begin

text \<open>
  The echo server with one I/O thread: the life of a connection that is accepted in one loop, served in
  another and taken out of the server in the first again. The two threads take turns; each turn is one
  iteration of a thread's loop.
\<close>

definition net_turns :: "inet_lib \<Rightarrow> app \<Rightarrow> (nat \<times> ptr) list \<Rightarrow> net_world \<Rightarrow> net_world res" where
  "net_turns lib a turns w = run_all (\<lambda>(me, L). net_iterate lib a me L) turns w"

text \<open>\<^verbatim>\<open>main\<close> of the example with 1 for the number of threads. Thread 10 has the loop at the sixth new address.\<close>

definition threads_main :: "inet_lib \<Rightarrow> (nat \<times> ptr) list \<Rightarrow> net_world \<Rightarrow> net_world res" where
  "threads_main lib turns w =
     (let L = brk w; S = brk w + 3 in
      res_bind (EventLoop_new 9 EPOLL LT L (brk w + 1) (brk w + 2) (w\<lparr>brk := brk w + 9\<rparr>)) (\<lambda>w1.
      let listenAddr = InetAddress_port zero_address 12345 False False in
      res_bind (EchoServer_new lib S (brk w + 4) (brk w + 5) L listenAddr ''EchoServer'' 1 w1) (\<lambda>w2.
      res_bind (EchoServer_start (\<lambda>_. (10, brk w + 6, brk w + 7, brk w + 8)) 9 S w2) (\<lambda>w3.
        net_turns lib echo_app turns w3))))"

text \<open>
  The turns of a session: the base loop accepts; the I/O loop registers the connection, answers a
  message, sees the end of the stream; the base loop takes the connection out of the map; the I/O loop
  destroys it.
\<close>

definition session_turns :: "(nat \<times> ptr) list" where
  "session_turns = [(9, 100), (10, 106), (10, 106), (10, 106), (9, 100), (10, 106)]"

definition threads_answers :: "char list \<Rightarrow> sys_ret list" where
  "threads_answers d =
     [SysNum 3, SysNum 4, SysNum 0, SysNum 5, SysNum 0, SysNum 6, SysNum 7, SysNum 0, SysNum 0, SysNum 0,
      SysNum 8, SysNum 9, SysNum 0, SysNum 10, SysNum 0, SysNum 0, SysNum 0,
      SysReady [(105, EPOLLIN)], SysNum 1, SysNum 11, SysNum 0, SysNum 8,
      SysReady [(108, EPOLLIN)], SysNum 2, SysNum 8, SysNum 0,
      SysReady [(110, EPOLLIN)], SysNum 3, SysData d, SysNum (int (length d)),
      SysReady [(110, EPOLLIN)], SysNum 4, SysData [], SysNum 0, SysNum 8,
      SysReady [(102, EPOLLIN)], SysNum 5, SysNum 8, SysNum 8,
      SysReady [(108, EPOLLIN)], SysNum 6, SysNum 8, SysNum 0]"

lemmas echo_thread_defs =
  threads_main_def session_turns_def net_turns_def net_iterate_def threads_answers_def
  EventLoopThread_startLoop_def EventLoopThread_threadFunc_def EventLoopThread_new_def
  EventLoop_wakeup_def EventLoop_handleRead_def sockets_read_def one_bytes_def

text \<open>
  C3. A session of the echo server with one I/O thread, from the start of the program, for every message of
  up to 1024 bytes: each thread makes exactly its own system calls, on its own epoll instance. The base
  loop accepts and wakes the I/O loop, which registers the connection, answers with the same bytes,
  reads the end of the stream, unregisters the connection and wakes the base loop; that loop takes the
  connection out of the server's map and wakes the I/O loop again, which destroys the connection: the
  references handed from loop to loop keep it alive until then and not longer.
\<close>

theorem echo_two_loops:
  assumes "d \<noteq> []" and "length d \<le> kInitialSize"
  shows "case threads_main lib session_turns (echo_start (threads_answers d)) of
      Inl e \<Rightarrow> False
    | Inr w \<Rightarrow>
        tape w = [] \<and>
        trace w =
          [CallEpollCreate, CallTimerfdCreate, CallEpollCtl 3 EPOLL_CTL_ADD 4 3 101, CallEventfd,
           CallEpollCtl 3 EPOLL_CTL_ADD 5 3 102,
           CallSocket (InetAddress_family (InetAddress_port zero_address 12345 False False)), CallOpenDevNull,
           CallSetSockOpt 6 ''SO_REUSEADDR'' True, CallSetSockOpt 6 ''SO_REUSEPORT'' False,
           CallBind 6 (InetAddress_port zero_address 12345 False False),
           CallEpollCreate, CallTimerfdCreate, CallEpollCtl 8 EPOLL_CTL_ADD 9 3 107, CallEventfd,
           CallEpollCtl 8 EPOLL_CTL_ADD 10 3 108, CallListen 6, CallEpollCtl 3 EPOLL_CTL_ADD 6 3 105,
           CallEpollWait 3 16 10000, CallNow, CallAccept 6, CallSetSockOpt 11 ''SO_KEEPALIVE'' True,
           CallWrite 10 one_bytes,
           CallEpollWait 8 16 10000, CallNow, CallRead 10 8, CallEpollCtl 8 EPOLL_CTL_ADD 11 3 110,
           CallEpollWait 8 16 10000, CallNow, CallReadv 11, CallWrite 11 d,
           CallEpollWait 8 16 10000, CallNow, CallReadv 11, CallEpollCtl 8 EPOLL_CTL_DEL 11 0 110,
           CallWrite 5 one_bytes,
           CallEpollWait 3 16 10000, CallNow, CallRead 5 8, CallWrite 10 one_bytes,
           CallEpollWait 8 16 10000, CallNow, CallRead 10 8, CallClose 11] \<and>
        map_option sv_connections (servers w 103) = Some [] \<and> conns w 109 = None \<and> chans w 110 = None"
proof -
  obtain B b1 b2 b3 where B: "Buffer_new kInitialSize = Inr B" "Buffer_readableBytes B = 0"
      "Buffer_readFd (SysData d) B 0 = Inr (int (length d), 0, b1)"
      "Buffer_retrieveAllAsString b1 = Inr (d, b2)" "Buffer_readFd (SysData []) b2 0 = Inr (0, 0, b3)"
    using session_buffer[OF assms(2)] by metis
  then show ?thesis
    using assms(1)
    by (simp add: echo_start_def echo_setup_defs echo_loop_defs echo_conn_defs echo_thread_defs
        echo_drop_defs numeral_3_eq_3) force
qed

theorem echo_two_loops_witness:
  "case threads_main \<lparr>ntop4 = (\<lambda>_. []), ntop6 = (\<lambda>_. []), pton4 = (\<lambda>_. None), pton6 = (\<lambda>_. None)\<rparr> session_turns
     (echo_start (threads_answers ''hello'')) of
     Inl e \<Rightarrow> False
   | Inr w \<Rightarrow> CallWrite 11 ''hello'' \<in> set (trace w) \<and> conns w 109 = None"
proof -
  have "length ''hello'' \<le> kInitialSize"
    by (simp add: kInitialSize_def)
  from echo_two_loops[OF _ this, where
      lib = "\<lparr>ntop4 = (\<lambda>_. []), ntop6 = (\<lambda>_. []), pton4 = (\<lambda>_. None), pton6 = (\<lambda>_. None)\<rparr>"]
  show ?thesis
    by (auto split: sum.splits)
qed

end
