(* ===== verification/Type_Safety.thy ===== *)
theory Type_Safety
  imports Heap_Types Echo_Threads
begin

text \<open>
  The loop keeps the heap typed (\<open>Heap_Types\<close>): the poller, the callables of channels, timers and functors, the
  functors' destruction, and from there every iteration of every loop; and the echo server from its start.
\<close>


section \<open>The poller\<close>

text \<open>Polling sets received events in channels and nothing else.\<close>

definition kinds_kept :: "'z hworld_scheme \<Rightarrow> 'z hworld_scheme \<Rightarrow> bool" where
  "kinds_kept w w' \<longleftrightarrow> hworld.more w' = hworld.more w \<and>
     (\<forall>p. map_option chan_kind (chans w' p) = map_option chan_kind (chans w p))"

lemma kinds_kept_refl [simp]: "kinds_kept w w"
  by (simp add: kinds_kept_def)

lemma kinds_kept_trans: "kinds_kept w w1 \<Longrightarrow> kinds_kept w1 w2 \<Longrightarrow> kinds_kept w w2"
  by (simp add: kinds_kept_def)

lemma kinds_kept_os: "os_step w w' \<Longrightarrow> kinds_kept w w'"
  by (auto simp: kinds_kept_def elim!: os_stepE)

lemma kinds_kept_revents: "chans w p = Some c \<Longrightarrow> kinds_kept w (chan_put p (Channel_set_revents ev c) w)"
  by (simp add: kinds_kept_def chan_put_def Channel_set_revents_def chan_kind_def)

lemma EpollPoller_fill_kinds:
  "EpollPoller_fillActiveChannels evs active w = Inr (active', w') \<Longrightarrow> kinds_kept w w'"
  by (induction evs active w rule: EpollPoller_fillActiveChannels.induct)
    (auto simp: res_bind_eq_Inr intro: kinds_kept_trans[OF kinds_kept_revents])

lemma PollPoller_fill_kinds:
  "PollPoller_fillActiveChannels fds n pp active w = Inr (active', w') \<Longrightarrow> kinds_kept w w'"
  by (induction fds n pp active w rule: PollPoller_fillActiveChannels.induct)
    (auto simp: res_bind_eq_Inr Let_def split: if_splits intro: kinds_kept_trans[OF kinds_kept_revents])

lemma EpollPoller_poll_kinds:
  assumes run: "EpollPoller_poll inl t (ep, w) = Inr (now, active, ep', w')"
  shows "kinds_kept w w'"
proof -
  obtain r w1 n w2 where w1: "sys (CallEpollWait (ep_epollfd ep) (ep_events_size ep) t) w = Inr (r, w1)"
    and w2: "clock_now w1 = Inr (n, w2)"
    using run by (auto simp: EpollPoller_poll_def elim!: res_bindE)
  have "kinds_kept w2 w'"
  proof (cases r)
    case (SysReady evs)
    then show ?thesis
      using run w1 w2 by (auto simp: EpollPoller_poll_def res_bind_eq_Inr split: if_splits
          intro: EpollPoller_fill_kinds)
  qed (use run w1 w2 in \<open>auto simp: EpollPoller_poll_def res_bind_eq_Inr\<close>)
  then show ?thesis
    using kinds_kept_os[OF sys_os_step[OF w1]] kinds_kept_os[OF clock_now_os_step[OF w2]] kinds_kept_trans by blast
qed

lemma PollPoller_poll_kinds:
  assumes run: "PollPoller_poll t (pp, w) = Inr (now, active, pp', w')"
  shows "kinds_kept w w'"
proof -
  obtain r w1 n w2 where w1: "sys (CallPoll (map (\<lambda>f. (pf_fd f, pf_events f)) (pp_pollfds pp)) t) w = Inr (r, w1)"
    and w2: "clock_now w1 = Inr (n, w2)"
    using run by (auto simp: PollPoller_poll_def Let_def elim!: res_bindE)
  have "kinds_kept w2 w'"
  proof (cases r)
    case (SysRevents k rs)
    then show ?thesis
      using run w1 w2 by (auto simp: PollPoller_poll_def res_bind_eq_Inr Let_def split: if_splits
          intro: PollPoller_fill_kinds)
  qed (use run w1 w2 in \<open>auto simp: PollPoller_poll_def res_bind_eq_Inr Let_def\<close>)
  then show ?thesis
    using kinds_kept_os[OF sys_os_step[OF w1]] kinds_kept_os[OF clock_now_os_step[OF w2]] kinds_kept_trans by blast
qed

lemma Poller_poll_kinds: "Poller_poll inl t (po, w) = Inr (now, active, po', w') \<Longrightarrow> kinds_kept w w'"
  by (cases po) (auto simp: res_bind_eq_Inr intro: EpollPoller_poll_kinds PollPoller_poll_kinds)


section \<open>The application and the callables\<close>

text \<open>What is asked of an application: its functions keep the types, when they are called on live connections.\<close>

definition app_typed :: "nat option \<Rightarrow> app \<Rightarrow> bool" where
  "app_typed th a \<longleftrightarrow> (\<forall>me. may_run th me \<longrightarrow>
     (\<forall>f C w w'. ap_connection a me f C w = Inr w' \<longrightarrow> conns w C \<noteq> None \<longrightarrow> good th w w') \<and>
     (\<forall>f t C w w'. ap_message a me f t C w = Inr w' \<longrightarrow> conns w C \<noteq> None \<longrightarrow> good th w w') \<and>
     (\<forall>f C w w'. ap_writeComplete a me f C w = Inr w' \<longrightarrow> conns w C \<noteq> None \<longrightarrow> good th w w') \<and>
     (\<forall>f C n w w'. ap_highWaterMark a me f C n w = Inr w' \<longrightarrow> conns w C \<noteq> None \<longrightarrow> good th w w') \<and>
     (\<forall>n w w'. ap_timer a me n w = Inr w' \<longrightarrow> good th w w') \<and>
     (\<forall>n w w'. ap_functor a me n w = Inr w' \<longrightarrow> good th w w'))"

lemma app_typedD:
  assumes "app_typed th a" and "may_run th me"
  shows "ap_connection a me f C w = Inr w' \<Longrightarrow> conns w C \<noteq> None \<Longrightarrow> good th w w'"
    "ap_message a me f t C w = Inr w' \<Longrightarrow> conns w C \<noteq> None \<Longrightarrow> good th w w'"
    "ap_writeComplete a me f C w = Inr w' \<Longrightarrow> conns w C \<noteq> None \<Longrightarrow> good th w w'"
    "ap_highWaterMark a me f C n w = Inr w' \<Longrightarrow> conns w C \<noteq> None \<Longrightarrow> good th w w'"
    "ap_timer a me n w = Inr w' \<Longrightarrow> good th w w'" "ap_functor a me n w = Inr w' \<Longrightarrow> good th w w'"
  using assms unfolding app_typed_def by metis+

text \<open>The library under such an application: what it runs for channels, timers and functors.\<close>

locale typed_app =
  fixes th :: "nat option" and a :: app
  assumes typed: "app_typed th a"
begin

lemmas app_keeps = app_typedD[OF typed]

lemma keeps_types_net:
  assumes "may_run th me"
  shows "keeps_types th (net_ev a me)"
  unfolding keeps_types_def
proof (intro allI impI)
  fix ev C v v'
  assume run: "net_ev a me ev C v = Inr v'" and live: "conns v C \<noteq> None"
  show "good th v v'"
  proof (cases ev)
    case (EvConnection f)
    then show ?thesis
      using run live
      by (auto simp: defaultConnectionCallback_def res_bind_eq_Inr intro: app_keeps[OF assms] split: if_splits)
  next
    case (EvMessage f t)
    have "tame v v'" if "defaultMessageCallback C v = Inr v'"
      using that unfolding defaultMessageCallback_def by (rule tame_conn_mod) (simp add: conn_kind_def)
    then show ?thesis
      using run live EvMessage by (auto intro: app_keeps[OF assms] tame_good split: if_splits)
  next
    case (EvClose cb)
    then show ?thesis
    proof (cases cb)
      case (CloseServer S)
      then show ?thesis
        using run live EvClose by (auto intro: tame_good tame_serverRemove)
    next
      case (CloseClient T)
      then show ?thesis
        using run EvClose by (auto elim!: good_with_new intro: good_client_remove)
    next
      case (CloseDetached L)
      then show ?thesis
        using run live EvClose by (auto simp: client_removeConnection_def intro!: tame_good elim!: tame_queue)
    qed
  qed
qed

lemma good_net_timer: "net_timer a me cb w = Inr w' \<Longrightarrow> may_run th me \<Longrightarrow> good th w w'"
  by (cases cb) (auto elim!: good_with_new intro: app_keeps good_startInLoop)

lemma good_net_functor:
  assumes run: "net_functor a me f w = Inr w'"
    and live: "\<And>C. functor_conn f = Some C \<Longrightarrow> conns w C \<noteq> None" and me: "may_run th me"
  shows "good th w w'"
  using run live keeps_types_net[OF me]
  by (cases f)
    (auto elim!: good_with_new
      intro: tame_good tame_addInLoop tame_cancelInLoop tame_shutdownInLoop tame_startRead tame_stopRead tame_sendInLoop
        tame_detach tame_serverRemoveInLoop good_forceClose good_established good_destroyed good_startInLoop
        good_resetChannel app_keeps[OF me])

lemma good_net_channel:
  assumes run: "net_channel lib a me cb t w = Inr w'" and me: "may_run th me"
  shows "good th w w'"
proof (cases cb)
  case (CbWakeupRead L)
  then show ?thesis
    using run by (auto simp: EventLoop_handleRead_def res_bind_eq_Inr dest!: sockets_read_os_step intro: tame_good tame_os)
next
  case (CbAcceptorRead A)
  then show ?thesis
    using run good_server_new[OF _ keeps_types_net[OF me]]
    by (auto elim!: good_accept good_with_new)
next
  case (CbConnectorWrite K)
  then show ?thesis
    using run good_client_new[OF _ keeps_types_net[OF me]]
    by (auto elim!: good_with_new good_connectorWrite)
next
  case (CbConnectorError K)
  then show ?thesis
    using run by (auto elim!: good_with_new intro: tame_good tame_connectorError)
qed (use run in \<open>auto intro: good_timers good_net_timer[OF _ me] good_handleRead keeps_types_net[OF me]
      good_handleClose tame_good tame_handleWrite tame_handleError\<close>)

end


section \<open>The loop\<close>

lemma good_callback:
  assumes "Channel_callback run_cb t p test callback w = Inr w'" and "\<And>cb v v'. run_cb cb t v = Inr v' \<Longrightarrow> good th v v'"
  shows "good th w w'"
  using assms by (auto simp: Channel_callback_def res_bind_eq_Inr split: if_splits option.splits)

lemma good_handleEvent:
  assumes run: "Channel_handleEvent run_cb t p w = Inr w'" and cb: "\<And>cb v v'. run_cb cb t v = Inr v' \<Longrightarrow> good th v v'"
  shows "good th w w'"
proof -
  obtain c c4 :: channel and w1 w2 w3 w4 where c: "chan_get p w = Inr c"
    and w1: "Channel_callback run_cb t p revents_close ch_closeCallback (chan_put p (c\<lparr>ch_eventHanding := True\<rparr>) w) = Inr w1"
    and w2: "Channel_callback run_cb t p revents_error ch_errorCallback w1 = Inr w2"
    and w3: "Channel_callback run_cb t p revents_read ch_readCallback w2 = Inr w3"
    and w4: "Channel_callback run_cb t p revents_write ch_writeCallback w3 = Inr w4"
    and c4: "chan_get p w4 = Inr c4" and w': "w' = chan_put p (c4\<lparr>ch_eventHanding := False\<rparr>) w4"
    using run unfolding Channel_handleEvent_def by (elim res_bindE) (rule that, assumption+, simp)
  have "tame w (chan_put p (c\<lparr>ch_eventHanding := True\<rparr>) w)"
    using c by (intro tame_chan_put) (auto simp: chan_kind_def)
  moreover have "tame w4 w'"
    using c4 w' by (auto intro!: tame_chan_put simp: chan_kind_def)
  ultimately show ?thesis
    using good_callback[of run_cb t p, OF w1] good_callback[of run_cb t p, OF w2]
      good_callback[of run_cb t p, OF w3] good_callback[of run_cb t p, OF w4] cb tame_good good_trans by meson
qed

text \<open>The functors of a round: what they hold is live at its start and stays live.\<close>

lemma good_functors:
  assumes step: "\<And>f v v'. f \<in> set fs \<Longrightarrow> run_f f v = Inr v' \<Longrightarrow>
      (\<And>C. functor_conn f = Some C \<Longrightarrow> conns v C \<noteq> None) \<Longrightarrow> good th v v'"
    and run: "run_all run_f fs w = Inr w'"
    and live: "\<And>C. C \<in> set (functor_conns fs) \<Longrightarrow> conns w C \<noteq> None"
  shows "good th w w'"
  using assms
proof (induction fs arbitrary: w)
  case (Cons f fs)
  obtain v where v: "run_f f w = Inr v" and rest: "run_all run_f fs v = Inr w'"
    using Cons.prems(2) by (auto simp: res_bind_eq_Inr)
  show ?case
  proof (cases "sound th w")
    case True
    have "good th w v"
      using Cons.prems(1)[OF _ v] Cons.prems(3) by (auto simp: functor_conns_Cons)
    moreover from this have "good th v w'"
      using Cons.prems(1,3) good_live True
      by (intro Cons.IH[OF _ rest]) (auto simp: functor_conns_Cons split: option.splits)
    ultimately show ?thesis
      by (rule good_trans)
  qed (simp add: good_def)
qed simp

lemma tame_polled:
  assumes poll: "Poller_poll inl t (el_poller el, w) = Inr (now, active, po, w1)" and el: "loops w L = Some el"
  shows "tame w (loop_put L (el\<lparr>el_poller := po, el_pollReturnTime := now, el_activeChannels := active\<rparr>) w1)"
proof (rule tame_world)
  have kept: "kinds_kept w w1"
    using poll by (rule Poller_poll_kinds)
  then have more: "hworld.more w1 = hworld.more w"
    by (simp add: kinds_kept_def)
  let ?w = "loop_put L (el\<lparr>el_poller := po, el_pollReturnTime := now, el_activeChannels := active\<rparr>) w1"
  show "world.more ?w = world.more w"
    using hworld_more_world(4)[OF more] by simp
  show "map_option chan_kind (chans ?w p) = map_option chan_kind (chans w p)" for p
    using kept by (simp add: kinds_kept_def)
  show "rel_option (waiting_ok w) (loops w M) (loops ?w M)" for M
    using el hworld_more_world(1)[OF more] by (simp add: waiting_same)
qed


section \<open>The end of a round\<close>

text \<open>Every reference the library has is among those that keep a connection alive.\<close>

lemma referenced_cases:
  assumes "referenced w C"
  obtains S sv n where "servers w S = Some sv" "(n, C) \<in> set (sv_connections sv)"
  | T cl where "clients w T = Some cl" "cl_connection cl = Some C"
  | L el where "loops w L = Some el" "C \<in> set (functor_conns (el_pendingFunctors el))"
  using assms unfolding referenced_def by force

lemma referencedI:
  "servers w S = Some sv \<Longrightarrow> (n, C) \<in> set (sv_connections sv) \<Longrightarrow> referenced w C"
  "clients w T = Some cl \<Longrightarrow> cl_connection cl = Some C \<Longrightarrow> referenced w C"
  "loops w L = Some el \<Longrightarrow> C \<in> set (functor_conns (el_pendingFunctors el)) \<Longrightarrow> referenced w C"
  unfolding referenced_def by force+

lemma referenced_held:
  assumes ok: "heap_typed w" and ref: "referenced w C"
  shows "C \<in> set (held_conns a w)"
proof -
  have below: "p < brk w" if "servers w p \<noteq> None \<or> clients w p \<noteq> None \<or> loops w p \<noteq> None" for p
    using that heap_typed_fresh[OF ok, of p] by (meson not_le)
  show ?thesis
    using ref
  proof (cases rule: referenced_cases)
    case (1 S sv n)
    then have "C \<in> snd ` set (sv_connections sv)"
      by force
    then show ?thesis
      using 1 below[of S] by (auto simp: held_conns_def intro!: bexI[of _ S])
  next
    case (2 T cl)
    then show ?thesis
      using below[of T] by (auto simp: held_conns_def intro!: bexI[of _ T])
  next
    case (3 L el)
    then show ?thesis
      using below[of L] by (auto simp: held_conns_def intro!: bexI[of _ L])
  qed
qed

lemma sound_dtor:
  assumes sound: "sound th w" and free: "\<not> referenced w C" and run: "TcpConnection_dtor C w = Inr w'"
  shows "sound th w'"
proof -
  have ok: "heap_typed w"
    using sound by (simp add: sound_def)
  obtain tc v where tc: "conns w C = Some tc" and step: "os_step (w\<lparr>chans := (chans w)(tc_channel tc := None)\<rparr>) v"
    and w': "w' = v\<lparr>conns := (conns v)(C := None)\<rparr>"
    using run by (auto simp: TcpConnection_dtor_def chan_delete_def Socket_dtor_def sockets_close_def res_bind_eq_Inr
        dest!: sys_int_os_step)
  have same: "conns w' = (conns w)(C := None)" "servers w' = servers w" "clients w' = clients w" "loops w' = loops w"
      "connectors w' = connectors w" "brk w' = brk w" "chans w' = (chans w)(tc_channel tc := None)"
    using step unfolding w' by (auto elim!: os_stepE)
  obtain c where c: "chans w (tc_channel tc) = Some c" "wired C tc c"
    using heap_typed_conn[OF ok tc] by blast
  have "\<exists>d. chans w' (tc_channel td) = Some d \<and> wired D td d" if "conns w' D = Some td" for D td
    using that same c heap_typed_conn[OF ok, of D td] by (auto simp: wired_def chan_kind_def split: if_splits)
  moreover have "\<exists>td. conns w' D = Some td \<and> tc_channel td = q" if "chans w' q = Some d" "speaks_for d D" for q d D
    using that same tc heap_typed_speaks[OF ok, of q d D] by (auto split: if_splits)
  moreover have "\<exists>d. chans w' q = Some d \<and> ch_writeCallback d = Some (CbConnectorWrite K)"
    if "connectors w' K = Some co" "co_channel co = Some q" for K co q
    using that same c heap_typed_connector[OF ok, of K co q] by (auto simp: wired_def chan_kind_def)
  moreover have "conns w' D \<noteq> None" if "referenced w' D" for D
  proof -
    have "referenced w D"
      using that by (simp add: referenced_def same)
    then show ?thesis
      using free heap_typed_referenced[OF ok, of D] by (auto simp: same)
  qed
  moreover have "unused w' p \<and> servers w' p = None \<and> clients w' p = None \<and> loops w' p = None" if "brk w' \<le> p" for p
    using that heap_typed_fresh[OF ok, of p] by (auto simp: unused_def same)
  ultimately have "heap_typed w'"
    by (rule heap_typedI)
  then show ?thesis
    using sound solo_same[OF same(4)] by (simp add: sound_def)
qed

lemma sound_drop: "net_drop a fs w = Inr w' \<Longrightarrow> sound th w \<Longrightarrow> sound th w'"
proof (induction a fs w rule: net_drop.induct)
  case (2 a f fs w)
  show ?case
  proof (cases "\<exists>C. functor_conn f = Some C \<and> C \<notin> set (functor_conns fs)")
    case True
    then obtain C v where C: "functor_conn f = Some C" "C \<notin> set (functor_conns fs)"
      and rel: "net_release a C w = Inr v" and rest: "net_drop a fs v = Inr w'"
      using 2(4) by (auto simp: res_bind_eq_Inr)
    have typed: "heap_typed w"
      using 2(5) by (simp add: sound_def)
    have "sound th v"
      using rel 2(5) sound_dtor[OF 2(5)] referenced_held[OF typed, of C a] by (auto simp: net_release_def split: if_splits)
    then show ?thesis
      using 2(3)[OF C(1,2) rest] by blast
  next
    case False
    then show ?thesis
      using 2(1,2,4,5) by (auto split: option.splits if_splits)
  qed
qed simp

text \<open>The part of an iteration before the functors: the poller, and the callables of the active channels.\<close>

definition net_events :: "inet_lib \<Rightarrow> app \<Rightarrow> nat \<Rightarrow> ptr \<Rightarrow> net_world \<Rightarrow> net_world res" where
  "net_events lib a me L w =
     res_bind (loop_get L w) (\<lambda>el.
     res_bind (Poller_poll (EventLoop_isInLoopThread me el) kPollTimeMs (el_poller el, w)) (\<lambda>(t, active, po, w1).
       run_all (Channel_handleEvent (net_channel lib a me) t) active
         (loop_put L (el\<lparr>el_poller := po, el_pollReturnTime := t, el_activeChannels := active\<rparr>) w1)))"

lemma net_iterate_events:
  "net_iterate lib a me L w =
     res_bind (net_events lib a me L w) (EventLoop_doPendingFunctors (net_functor a me) (net_drop a) L)"
  by (simp add: net_iterate_def EventLoop_iterate_def net_events_def res_bind_assoc case_prod_unfold Let_def)

context typed_app
begin

lemma sound_round:
  assumes ok: "sound th w" and me: "may_run th me"
    and run: "EventLoop_doPendingFunctors (net_functor a me) (net_drop a) L w = Inr w'"
  shows "sound th w'"
proof -
  obtain el w2 w3 where el: "loops w L = Some el"
    and all: "run_all (net_functor a me) (el_pendingFunctors el)
      (loop_put L (el\<lparr>el_callingPendingFunctors := True, el_pendingFunctors := []\<rparr>) w) = Inr w2"
    and flag: "loop_mod L (\<lambda>el2. el2\<lparr>el_callingPendingFunctors := False\<rparr>) w2 = Inr w3"
    and drop: "net_drop a (el_pendingFunctors el) w3 = Inr w'"
    using run by (auto simp: EventLoop_doPendingFunctors_def pending_swap_def res_bind_eq_Inr)
  let ?v = "loop_put L (el\<lparr>el_callingPendingFunctors := True, el_pendingFunctors := []\<rparr>) w"
  have v: "tame w ?v"
    using el by (intro tame_world) (simp_all add: waiting_ok_def steady_def functor_conns_def)
  have typed: "heap_typed w"
    using ok by (simp add: sound_def)
  have live: "conns ?v C \<noteq> None" if "C \<in> set (functor_conns (el_pendingFunctors el))" for C
    using that heap_typed_referenced[OF typed, of C] el by (auto simp: referenced_def)
  have "good th ?v w2"
  proof (rule good_functors[OF _ all live])
    show "good th v v'" if "net_functor a me f v = Inr v'" "\<And>C. functor_conn f = Some C \<Longrightarrow> conns v C \<noteq> None" for f v v'
      using that me by (rule good_net_functor)
  qed
  moreover have "tame w2 w3"
    using flag by (auto simp: loop_mod_def res_bind_eq_Inr intro!: tame_loop_put)
  ultimately have "good th w w3"
    using tame_good[OF v] tame_good good_trans by blast
  then show ?thesis
    using sound_drop[OF drop] good_sound ok by blast
qed

lemma good_events:
  assumes me: "may_run th me" and run: "net_events lib a me L w = Inr w'"
  shows "good th w w'"
proof -
  obtain el :: evloop and p where el: "loop_get L w = Inr el"
    and poll: "Poller_poll (EventLoop_isInLoopThread me el) kPollTimeMs (el_poller el, w) = Inr p"
    and events: "run_all (Channel_handleEvent (net_channel lib a me) (fst p)) (fst (snd p))
      (loop_put L (el\<lparr>el_poller := fst (snd (snd p)), el_pollReturnTime := fst p, el_activeChannels := fst (snd p)\<rparr>)
        (snd (snd (snd p)))) = Inr w'"
    using run unfolding net_events_def case_prod_beta by (elim res_bindE) (rule that, assumption+)
  obtain t active po w1 where p: "p = (t, active, po, w1)"
    by (cases p)
  let ?v = "loop_put L (el\<lparr>el_poller := po, el_pollReturnTime := t, el_activeChannels := active\<rparr>) w1"
  have "tame w ?v"
    using poll el by (intro tame_polled) (simp_all add: p)
  moreover have "good th ?v w'"
    using events[unfolded p fst_conv snd_conv]
    by (rule good_run_all[rotated]) (erule good_handleEvent, erule good_net_channel[OF _ me])
  ultimately show ?thesis
    using tame_good good_trans by blast
qed

lemma sound_iterate:
  assumes ok: "sound th w" and me: "may_run th me" and run: "net_iterate lib a me L w = Inr w'"
  shows "sound th w'"
proof -
  obtain w3 where w3: "net_events lib a me L w = Inr w3"
    and round: "EventLoop_doPendingFunctors (net_functor a me) (net_drop a) L w3 = Inr w'"
    using run by (auto simp: net_iterate_events res_bind_eq_Inr)
  show ?thesis
    by (rule sound_round[OF good_sound[OF good_events[OF me w3] ok] me round])
qed

lemma sound_turns:
  assumes ok: "sound th w" and me: "\<forall>x \<in> set turns. may_run th (fst x)" and run: "net_turns lib a turns w = Inr w'"
  shows "sound th w'"
  using run ok me unfolding net_turns_def
proof (induction turns arbitrary: w)
  case (Cons x turns)
  then show ?case
    using sound_iterate by (auto simp: res_bind_eq_Inr split: prod.splits)
qed simp

lemma sound_while:
  "EventLoop_while n me (net_channel lib a me) (net_functor a me) (net_drop a) L w = Inr (ended, w') \<Longrightarrow>
    sound th w \<Longrightarrow> may_run th me \<Longrightarrow> sound th w'"
proof (induction n arbitrary: w)
  case (Suc n)
  obtain el where el: "loops w L = Some el"
    using Suc.prems(1) by (auto simp: res_bind_eq_Inr)
  show ?case
  proof (cases "el_quit el")
    case False
    then obtain v where "net_iterate lib a me L w = Inr v"
        "EventLoop_while n me (net_channel lib a me) (net_functor a me) (net_drop a) L v = Inr (ended, w')"
      using Suc.prems(1) el by (auto simp: res_bind_eq_Inr net_iterate_def)
    then show ?thesis
      using Suc.IH sound_iterate[OF Suc.prems(2,3)] Suc.prems(3) by blast
  qed (use Suc.prems el in \<open>auto simp: res_bind_eq_Inr\<close>)
qed simp

lemma sound_loop:
  assumes run: "net_loop n lib a me L w = Inr (ended, w')" and ok: "sound th w" and me: "may_run th me"
  shows "sound th w'"
proof -
  obtain el :: evloop and p where el: "loop_get L w = Inr el"
    and loop: "EventLoop_while n me (net_channel lib a me) (net_functor a me) (net_drop a) L
      (loop_put L (el\<lparr>el_looping := True, el_quit := False\<rparr>) w) = Inr p"
    and rest: "(if fst p then res_bind (loop_mod L (\<lambda>el. el\<lparr>el_looping := False\<rparr>) (snd p)) (\<lambda>w2. Inr (True, w2))
      else Inr (False, snd p)) = Inr (ended, w')"
    using run unfolding net_loop_def EventLoop_loop_def case_prod_beta by (elim res_bindE) (rule that, assumption+)
  have "sound th (loop_put L (el\<lparr>el_looping := True, el_quit := False\<rparr>) w)"
    using el by (intro good_sound[OF tame_good ok] tame_loop_put) simp_all
  then have "sound th (snd p)"
    using loop me by (cases p) (auto intro: sound_while)
  moreover have "tame (snd p) w'"
    using rest by (auto simp: loop_mod_def res_bind_eq_Inr split: if_splits intro!: tame_loop_put)
  ultimately show ?thesis
    using good_sound tame_good by blast
qed

end


section \<open>Setting up\<close>

text \<open>An address below \<open>brk\<close> that is no connection's and no connector's channel.\<close>

definition mute :: "channel \<Rightarrow> bool" where
  "mute c \<longleftrightarrow> ch_writeCallback c = None \<and> (\<forall>C. \<not> speaks_for c C)"

lemma mute_new [simp]: "mute (Channel_new L fd)"
  by (simp add: mute_def Channel_new_def speaks_for_def conn_cbs_def)

lemma mute_read: "mute c \<Longrightarrow> \<forall>C. Some cb \<notin> conn_cbs C \<Longrightarrow> mute (Channel_setReadCallback cb c)"
  by (simp add: mute_def Channel_setReadCallback_def speaks_for_def) (simp add: conn_cbs_def)


definition plain :: "net_world \<Rightarrow> ptr \<Rightarrow> bool" where
  "plain w p \<longleftrightarrow> p < brk w \<and> (\<forall>c. chans w p = Some c \<longrightarrow> mute c)"

definition sets_up :: "nat option \<Rightarrow> net_world \<Rightarrow> net_world \<Rightarrow> bool" where
  "sets_up th w w' \<longleftrightarrow> good th w w' \<and> (\<forall>p. plain w p \<longrightarrow> plain w' p)"

lemma sets_up_refl [simp]: "sets_up th w w"
  by (simp add: sets_up_def)

lemma sets_up_trans: "sets_up th w w1 \<Longrightarrow> sets_up th w1 w2 \<Longrightarrow> sets_up th w w2"
  unfolding sets_up_def using good_trans by blast

lemma sets_up_plain: "sets_up th w w' \<Longrightarrow> plain w p \<Longrightarrow> plain w' p"
  by (simp add: sets_up_def)

lemma tame_mute:
  assumes tame: "tame w w'" and c': "chans w' p = Some c'"
  shows "\<exists>c. chans w p = Some c \<and> mute c' = mute c"
proof -
  have "map_option chan_kind (chans w' p) = map_option chan_kind (chans w p)"
    using tame by (simp add: tame_def)
  then obtain c where c: "chans w p = Some c" "chan_kind c' = chan_kind c"
    using c' by (cases "chans w p") auto
  then show ?thesis
    using speaks_kind[OF c(2)] by (auto simp: mute_def chan_kind_def)
qed

lemma sets_up_tame: "tame w w' \<Longrightarrow> sets_up th w w'"
  unfolding sets_up_def
proof (intro conjI allI impI)
  fix p
  assume tame: "tame w w'" and p: "plain w p"
  have "mute c" if "chans w' p = Some c" for c
    using tame_mute[OF tame that] p by (auto simp: plain_def)
  then show "plain w' p"
    using p tame by (simp add: plain_def tame_def)
qed (rule tame_good)

lemma sets_up_chan:
  assumes p: "plain w p" and c: "mute c"
  shows "sets_up th w (chan_put p c w)"
proof -
  let ?v = "chan_put p c w"
  have same: "conns ?v = conns w" "servers ?v = servers w" "clients ?v = clients w" "loops ?v = loops w"
      "connectors ?v = connectors w" "brk ?v = brk w" "chans ?v = (chans w)(p := Some c)"
    by (simp_all add: chan_put_def)
  have "heap_typed ?v" if ok: "heap_typed w"
  proof -
    have "\<exists>d. chans ?v (tc_channel td) = Some d \<and> wired D td d" if td: "conns ?v D = Some td" for D td
    proof -
      obtain d where d: "chans w (tc_channel td) = Some d" "wired D td d"
        using heap_typed_conn[OF ok] td same(1) by auto
      then have "tc_channel td \<noteq> p"
        using p by (auto simp: plain_def mute_def wired_def chan_kind_def)
      then show ?thesis
        using d same(7) by simp
    qed
    moreover have "\<exists>d. chans ?v q = Some d \<and> ch_writeCallback d = Some (CbConnectorWrite K)"
      if co: "connectors ?v K = Some co" "co_channel co = Some q" for K co q
    proof -
      obtain d where d: "chans w q = Some d" "ch_writeCallback d = Some (CbConnectorWrite K)"
        using heap_typed_connector[OF ok _ co(2)] co(1) same(5) by auto
      then have "q \<noteq> p"
        using p by (auto simp: plain_def mute_def)
      then show ?thesis
        using d same(7) by simp
    qed
    moreover have "\<exists>td. conns ?v D = Some td \<and> tc_channel td = q" if "chans ?v q = Some d" "speaks_for d D" for q d D
      using that c same heap_typed_speaks[OF ok, of q d D] by (auto simp: mute_def split: if_splits)
    moreover have "referenced ?v = referenced w"
      by (simp add: fun_eq_iff referenced_def same)
    moreover have "unused ?v q \<and> servers ?v q = None \<and> clients ?v q = None \<and> loops ?v q = None" if "brk w \<le> q" for q
      using that p heap_typed_fresh[OF ok that] by (auto simp: plain_def unused_def same)
    ultimately show ?thesis
      using heap_typed_referenced[OF ok] by (intro heap_typedI) (simp_all add: same)
  qed
  then have "good th w ?v"
    by (intro goodI) (simp_all add: same)
  then show ?thesis
    using c by (simp add: sets_up_def plain_def same)
qed

lemma heap_typed_owner:
  assumes ok: "heap_typed w" and same: "conns v = conns w" "chans v = chans w" "connectors v = connectors w" "brk v = brk w"
    and ref: "\<And>C. referenced v C \<Longrightarrow> referenced w C"
    and new: "\<And>p. brk w \<le> p \<Longrightarrow> servers v p = servers w p \<and> clients v p = clients w p \<and> loops v p = loops w p"
  shows "heap_typed v"
proof -
  have "\<exists>c. chans v (tc_channel tc) = Some c \<and> wired C tc c" if "conns v C = Some tc" for C tc
    using heap_typed_conn[OF ok] that same(1,2) by simp
  moreover have "\<exists>tc. conns v C = Some tc \<and> tc_channel tc = p" if "chans v p = Some c" "speaks_for c C" for p c C
    using heap_typed_speaks[OF ok _ that(2)] that(1) same(1,2) by simp
  moreover have "\<exists>c. chans v ch = Some c \<and> ch_writeCallback c = Some (CbConnectorWrite K)"
    if "connectors v K = Some co" "co_channel co = Some ch" for K co ch
    using heap_typed_connector[OF ok _ that(2)] that(1) same(2,3) by simp
  moreover have "conns v C \<noteq> None" if "referenced v C" for C
    using heap_typed_referenced[OF ok ref[OF that]] same(1) by simp
  moreover have "unused v p \<and> servers v p = None \<and> clients v p = None \<and> loops v p = None" if "brk v \<le> p" for p
    using heap_typed_fresh[OF ok, of p] new[of p] that same by (simp add: unused_def)
  ultimately show ?thesis
    by (rule heap_typedI)
qed

lemma sets_up_loop:
  assumes "L < brk w" and "el_pendingFunctors el = []" and me: "may_run th (el_threadId el)"
  shows "sets_up th w (loop_put L el w)"
proof -
  have none: "set (functor_conns (el_pendingFunctors el)) = {}"
    using assms(2) by (simp add: functor_conns_def)
  have "referenced w C" if "referenced (loop_put L el w) C" for C
    using that
  proof (cases rule: referenced_cases)
    case (3 M elM)
    then show ?thesis
      using none by (simp add: referencedI split: if_splits)
  qed (simp_all add: loop_put_def referencedI)
  then have "heap_typed (loop_put L el w)" if "heap_typed w"
    by (rule heap_typed_owner[OF that, rotated 4]) (use assms(1) in \<open>simp_all add: loop_put_def\<close>)
  moreover have "solo th (loop_put L el w)" if "solo th w"
    using that me assms(2) by (auto simp: solo_def may_run_def)
  ultimately show ?thesis
    by (simp add: sets_up_def good_def sound_def plain_def loop_put_def)
qed

lemma sets_up_server:
  assumes "S < brk w" and "sv_connections sv = []"
  shows "sets_up th w (server_put S sv w)"
proof -
  have "referenced w C" if "referenced (server_put S sv w) C" for C
    using that
  proof (cases rule: referenced_cases)
    case (1 R svR n)
    then show ?thesis
      using assms(2) by (simp add: referencedI split: if_splits)
  qed (simp_all add: server_put_def referencedI)
  then have "heap_typed (server_put S sv w)" if "heap_typed w"
    by (rule heap_typed_owner[OF that, rotated 4]) (use assms(1) in \<open>simp_all add: server_put_def\<close>)
  then have "good th w (server_put S sv w)"
    by (intro goodI) simp_all
  then show ?thesis
    by (simp add: sets_up_def plain_def server_put_def)
qed

lemma sets_up_os: "os_step w w' \<Longrightarrow> sets_up th w w'"
  by (intro sets_up_tame tame_os)

lemma sets_up_read:
  assumes c: "chans w p = Some c" and p: "plain w p" and cb: "\<forall>C. Some cb \<notin> conn_cbs C"
  shows "sets_up th w (chan_put p (Channel_setReadCallback cb c) w)"
  using p by (rule sets_up_chan) (use assms in \<open>simp add: plain_def mute_read\<close>)

lemma sets_up_TimerQueue:
  assumes run: "TimerQueue_new me L tc w = Inr w'" and tc: "plain w tc"
  shows "sets_up th w w'"
proof -
  obtain p w3 and c :: channel where create: "timerfdCreate w = Inr p"
    and w3: "loop_mod L (\<lambda>el. el\<lparr>el_timerfd := fst p, el_timerChannel := tc, el_timers := []\<rparr>)
      (chan_put tc (Channel_new L (fst p)) (snd p)) = Inr w3"
    and c: "chan_get tc w3 = Inr c"
    and int: "Channel_interest me EnableReading tc (chan_put tc (Channel_setReadCallback (CbTimerQueueRead L) c) w3) = Inr w'"
    using run unfolding TimerQueue_new_def case_prod_beta Let_def by (elim res_bindE) (rule that, assumption+)
  have 1: "sets_up th w (snd p)"
    using create by (cases p) (auto simp: timerfdCreate_def res_bind_eq_Inr split: if_splits
        dest!: sys_int_os_step intro: sets_up_os)
  have 2: "sets_up th (snd p) (chan_put tc (Channel_new L (fst p)) (snd p))"
    by (rule sets_up_chan[OF sets_up_plain[OF 1 tc]]) simp
  have 3: "sets_up th (chan_put tc (Channel_new L (fst p)) (snd p)) w3"
    using w3 by (auto simp: loop_mod_def res_bind_eq_Inr intro!: sets_up_tame tame_loop_put)
  note w3 = sets_up_trans[OF sets_up_trans[OF 1 2] 3]
  show ?thesis
    using c by (intro sets_up_trans[OF w3] sets_up_trans[OF sets_up_read sets_up_tame[OF tame_interest[OF int]]]
        sets_up_plain[OF w3 tc]) (simp_all add: conn_cbs_def)
qed


lemma sets_up_EventLoop:
  assumes run: "EventLoop_new me mode emode L tc wc w = Inr w'" and plain: "plain w tc" "plain w wc" and L: "L < brk w"
    and me: "may_run th me"
  shows "sets_up th w w'"
proof -
  define el where "el p = \<lparr>el_looping = False, el_quit = False, el_callingPendingFunctors = False,
      el_threadId = me, el_pollReturnTime = 0, el_poller = p, el_timerfd = 0,
      el_timerChannel = 0, el_timers = [], el_armedFor = None, el_wakeupFd = 0, el_wakeupChannel = 0,
      el_activeChannels = [], el_pendingFunctors = []\<rparr>" for p
  define mask where "mask v = (if mode = EPOLL then v\<lparr>statics := Channel_initDefaultEvent emode\<rparr> else v)" for v :: net_world
  define mine where "mine v = v\<lparr>t_loopInThisThread := (t_loopInThisThread v)(me := Some L)\<rparr>" for v :: net_world
  obtain p w2 q w5 where poller: "Poller_newDefaultPoller (mode = EPOLL) w = Inr p"
    and queue: "TimerQueue_new me L tc (loop_put L (el (fst p)) (snd p)) = Inr w2"
    and eventfd: "createEventfd w2 = Inr q"
    and w5: "loop_mod L (\<lambda>el. el\<lparr>el_wakeupFd := fst q, el_wakeupChannel := wc\<rparr>)
      (chan_put wc (Channel_new L (fst q)) (snd q)) = Inr w5"
    and rest: "(if t_loopInThisThread (mask w5) me \<noteq> None then Inl (Fatal ''Another EventLoop'')
      else res_bind (chan_get wc (mine (mask w5))) (\<lambda>c.
        Channel_interest me EnableReading wc
          (chan_put wc (Channel_setReadCallback (CbWakeupRead L) c) (mine (mask w5))))) = Inr w'"
    using run unfolding EventLoop_new_def case_prod_beta Let_def el_def[symmetric] mask_def[symmetric] mine_def[symmetric]
    by (elim res_bindE) (rule that, assumption+)
  obtain c :: channel where c: "chans (mine (mask w5)) wc = Some c"
    and int: "Channel_interest me EnableReading wc
      (chan_put wc (Channel_setReadCallback (CbWakeupRead L) c) (mine (mask w5))) = Inr w'"
    using rest by (auto elim!: res_bindE split: if_splits)
  have os: "os_step w (snd p)" "os_step w2 (snd q)"
    using poller eventfd by (cases p; cases q; auto simp: Poller_newDefaultPoller_def EpollPoller_new_def createEventfd_def
        res_bind_eq_Inr split: if_splits dest!: sys_int_os_step)+
  have loop: "sets_up th w (loop_put L (el (fst p)) (snd p))"
    using os(1) L me by (intro sets_up_trans[OF sets_up_os[OF os(1)] sets_up_loop]) (auto simp: el_def elim!: os_stepE)
  have w2: "sets_up th w w2"
    using sets_up_trans[OF loop sets_up_TimerQueue[OF queue sets_up_plain[OF loop plain(1)]]] .
  then have "sets_up th w (chan_put wc (Channel_new L (fst q)) (snd q))"
    using plain(2) os(2)
    by (intro sets_up_trans[OF sets_up_trans[OF w2 sets_up_os[OF os(2)]] sets_up_chan])
      (auto intro: sets_up_plain sets_up_os)
  moreover have "tame (chan_put wc (Channel_new L (fst q)) (snd q)) w5"
    using w5 by (auto simp: loop_mod_def res_bind_eq_Inr intro!: tame_loop_put)
  moreover have "tame w5 (mine (mask w5))"
    by (rule tame_world) (simp_all add: mine_def mask_def)
  ultimately have ready: "sets_up th w (mine (mask w5))"
    using sets_up_tame sets_up_trans by blast
  show ?thesis
    by (rule sets_up_trans[OF ready sets_up_trans[OF sets_up_read[OF c] sets_up_tame[OF tame_interest[OF int]]]])
      (rule sets_up_plain[OF ready plain(2)], simp add: conn_cbs_def)
qed

lemma sets_up_thread:
  assumes run: "EventLoopThread_startLoop run_init fr t w = Inr (L, t', w')"
    and plain: "case fr of (tid, M, tc, wc) \<Rightarrow> may_run th tid \<and> M < brk w \<and> plain w tc \<and> plain w wc"
    and init: "\<And>f M v v'. run_init f M v = Inr v' \<Longrightarrow> sets_up th v v'"
  shows "sets_up th w w'"
proof -
  obtain tid M tc wc where fr: "fr = (tid, M, tc, wc)"
    by (cases fr)
  obtain w1 where w1: "EventLoop_new tid EPOLL LT M tc wc w = Inr w1"
    and rest: "w' = w1 \<or> (\<exists>f. run_init f M w1 = Inr w')"
    using run by (auto simp: EventLoopThread_startLoop_def EventLoopThread_threadFunc_def fr res_bind_eq_Inr
        split: option.splits)
  have "sets_up th w w1"
    using plain by (intro sets_up_EventLoop[OF w1]) (simp_all add: fr)
  moreover have "sets_up th w1 w'"
    using rest init by (elim disjE exE) simp_all
  ultimately show ?thesis
    by (rule sets_up_trans)
qed

lemma sets_up_brk: "sets_up th w w' \<Longrightarrow> plain w p \<Longrightarrow> p < brk w'"
  by (simp add: sets_up_def plain_def)

lemma sets_up_spawn:
  "pool_spawn run_init fr cb i n p w = Inr (p', w') \<Longrightarrow>
    (\<And>j. case fr j of (tid, M, tc, wc) \<Rightarrow> may_run th tid \<and> plain w M \<and> plain w tc \<and> plain w wc) \<Longrightarrow>
    (\<And>f M v v'. run_init f M v = Inr v' \<Longrightarrow> sets_up th v v') \<Longrightarrow> sets_up th w w'"
proof (induction run_init fr cb i n p w rule: pool_spawn.induct)
  case (2 run_init fr cb i n p w)
  obtain L t w1 where start: "EventLoopThread_startLoop run_init (fr i)
        (EventLoopThread_new cb (c_str (lp_name p) @ decimal (int i))) w = Inr (L, t, w1)"
    and rest: "pool_spawn run_init fr cb (Suc i) n
         (p\<lparr>lp_threads := lp_threads p @ [t], lp_loops := lp_loops p @ [L]\<rparr>) w1 = Inr (p', w')"
    using "2.prems"(1) by (auto simp: res_bind_eq_Inr)
  have w1: "sets_up th w w1"
    using "2.prems"(2)[of i] by (intro sets_up_thread[OF start _ "2.prems"(3)]) (auto simp: plain_def)
  have "case fr j of (tid, M, tc, wc) \<Rightarrow> may_run th tid \<and> plain w1 M \<and> plain w1 tc \<and> plain w1 wc" for j
    using "2.prems"(2)[of j] sets_up_plain[OF w1] by (auto split: prod.splits)
  then have "sets_up th w1 w'"
    using "2.IH"[OF rest] "2.prems"(3) by blast
  then show ?case
    by (rule sets_up_trans[OF w1])
qed simp


text \<open>The server: its acceptor, its pool, and the wiring of its callbacks.\<close>

lemma sets_up_acceptor_put: "sets_up th w (acceptor_put A ac w)"
  by (intro sets_up_tame tame_acceptor_put)

lemma sets_up_setsockopt:
  "Socket_setReuseAddr on fd w = Inr w' \<Longrightarrow> sets_up th w w'" "Socket_setReusePort on fd w = Inr w' \<Longrightarrow> sets_up th w w'"
  "Socket_bindAddress fd la w = Inr w' \<Longrightarrow> sets_up th w w'" "Socket_listen fd w = Inr w' \<Longrightarrow> sets_up th w w'"
  by (auto simp: Socket_setReuseAddr_def Socket_setReusePort_def Socket_setsockopt_def Socket_bindAddress_def
      sockets_bindOrDie_def Socket_listen_def sockets_listenOrDie_def res_bind_eq_Inr split: if_splits
      dest!: sys_int_os_step intro: sets_up_os)

lemma sets_up_Acceptor:
  assumes run: "Acceptor_new A ch L la reuse w = Inr w'" and plain: "plain w ch"
  shows "sets_up th w w'"
proof -
  obtain p q w4 w5 w6 and c :: channel where sock: "sockets_createNonblockingOrDie (InetAddress_family la) w = Inr p"
    and idle: "open_dev_null (chan_put ch (Channel_new L (fst p)) (snd p)) = Inr q"
    and opts: "Socket_setReuseAddr True (fst p) (snd q) = Inr w4" "Socket_setReusePort reuse (fst p) w4 = Inr w5"
      "Socket_bindAddress (fst p) la w5 = Inr w6"
    and c: "chan_get ch w6 = Inr c"
    and w': "w' = acceptor_put A \<lparr>ac_loop = L, ac_acceptSocket = fst p, ac_acceptChannel = ch,
          ac_newConnectionCallback = None, ac_listenning = False, ac_idleFd = fst q\<rparr>
         (chan_put ch (Channel_setReadCallback (CbAcceptorRead A) c) w6)"
    using run unfolding Acceptor_new_def case_prod_beta Let_def by (elim res_bindE) (rule that, assumption+, simp)
  have "os_step w (snd p)"
    using sock by (cases p) (auto simp: sockets_createNonblockingOrDie_def res_bind_eq_Inr
        split: if_splits dest!: sys_int_os_step)
  then have 1: "sets_up th w (snd p)"
    by (rule sets_up_os)
  have 2: "sets_up th (snd p) (chan_put ch (Channel_new L (fst p)) (snd p))"
    by (rule sets_up_chan[OF sets_up_plain[OF 1 plain]]) simp
  have "os_step (chan_put ch (Channel_new L (fst p)) (snd p)) (snd q)"
    using idle by (cases q) (auto simp: open_dev_null_def res_bind_eq_Inr dest!: sys_int_os_step)
  then have "sets_up th w (snd q)"
    using 1 2 sets_up_os sets_up_trans by blast
  then have w6: "sets_up th w w6"
    by (rule sets_up_trans[OF sets_up_trans[OF sets_up_trans[OF _ sets_up_setsockopt(1)[OF opts(1)]]
        sets_up_setsockopt(2)[OF opts(2)]] sets_up_setsockopt(3)[OF opts(3)]])
  show ?thesis
    unfolding w' using c
    by (intro sets_up_trans[OF w6] sets_up_trans[OF sets_up_read sets_up_acceptor_put] sets_up_plain[OF w6 plain]) (simp_all add: conn_cbs_def)
qed

lemma sets_up_server_mod:
  "server_mod S f w = Inr w' \<Longrightarrow> (\<And>sv. sv_connections (f sv) = sv_connections sv) \<Longrightarrow> sets_up th w w'"
  by (rule sets_up_tame, erule tame_server_mod) simp

lemma sets_up_TcpServer:
  assumes run: "TcpServer_new lib S A ch L la name reuse w = Inr w'" and plain: "plain w ch" "plain w S"
  shows "sets_up th w w'"
proof -
  obtain w1 w2 where w1: "Acceptor_new A ch L la reuse w = Inr w1" and w2: "Acceptor_setNewConnectionCallback S A w1 = Inr w2"
    and w': "w' = server_put S
         \<lparr>sv_loop = L, sv_ipPort = [], sv_name = InetAddress_toIpPort lib la, sv_acceptor = A,
          sv_threadPool = EventLoopThreadPool_new L name, sv_connectionCallback = None,
          sv_messageCallback = None, sv_writeCompleteCallback = None, sv_threadInitCallback = None,
          sv_started = False, sv_nextConnId = 1, sv_connections = []\<rparr> w2"
    using run unfolding TcpServer_new_def by (elim res_bindE) (rule that, assumption+, simp)
  have up1: "sets_up th w w1"
    using w1 plain(1) by (rule sets_up_Acceptor)
  have "sets_up th w1 w2"
    using w2 by (auto simp: Acceptor_setNewConnectionCallback_def res_bind_eq_Inr intro: sets_up_acceptor_put)
  then have up2: "sets_up th w w2"
    by (rule sets_up_trans[OF up1])
  then show ?thesis
    unfolding w' by (rule sets_up_trans) (rule sets_up_server[OF sets_up_brk[OF up2 plain(2)]], simp)
qed

lemma sets_up_EchoServer:
  assumes run: "EchoServer_new lib S A ch L la name n w = Inr w'" and plain: "plain w ch" "plain w S"
  shows "sets_up th w w'"
proof -
  obtain w1 w2 w3 where w1: "TcpServer_new lib S A ch L la name False w = Inr w1"
    and w2: "server_mod S (TcpServer_setConnectionCallback (Some echo_connection_cb)) w1 = Inr w2"
    and w3: "server_mod S (TcpServer_setMessageCallback (Some echo_message_cb)) w2 = Inr w3"
    and w4: "TcpServer_setThreadNum n S w3 = Inr w'"
    using run unfolding EchoServer_new_def by (elim res_bindE) (rule that, assumption+)
  have "sets_up th w2 w3" "sets_up th w1 w2"
    using w2 w3 by (auto intro!: sets_up_server_mod simp: TcpServer_setConnectionCallback_def TcpServer_setMessageCallback_def)
  moreover have "sets_up th w3 w'"
    using w4 by (auto simp: TcpServer_setThreadNum_def res_bind_eq_Inr elim!: sets_up_server_mod)
  ultimately show ?thesis
    using sets_up_TcpServer[OF w1 plain] sets_up_trans by blast
qed

lemma sets_up_listen: "Acceptor_listen me A w = Inr w' \<Longrightarrow> sets_up th w w'"
  by (auto simp: Acceptor_listen_def res_bind_eq_Inr Let_def
      intro: sets_up_trans[OF sets_up_acceptor_put sets_up_trans[OF sets_up_setsockopt(4) sets_up_tame[OF tame_interest]]])

lemma sets_up_start:
  assumes run: "TcpServer_start run_init fr me S w = Inr w'"
    and plain: "\<And>j. case fr j of (tid, M, tc, wc) \<Rightarrow> may_run th tid \<and> plain w M \<and> plain w tc \<and> plain w wc"
    and init: "\<And>f M v v'. run_init f M v = Inr v' \<Longrightarrow> sets_up th v v'"
  shows "sets_up th w w'"
proof -
  obtain sv :: tcp_server where sv: "servers w S = Some sv"
    using run by (auto simp: TcpServer_start_def res_bind_eq_Inr)
  show ?thesis
  proof (cases "sv_started sv")
    case False
    let ?v = "server_put S (sv\<lparr>sv_started := True\<rparr>) w"
    obtain p w1 w2 where pool: "EventLoopThreadPool_start run_init fr me (sv_threadInitCallback sv) (sv_threadPool sv) ?v = Inr (p, w1)"
      and w2: "server_mod S (\<lambda>sv. sv\<lparr>sv_threadPool := p\<rparr>) w1 = Inr w2" and listen: "Acceptor_listen me (sv_acceptor sv) w2 = Inr w'"
      using run sv False by (auto simp: TcpServer_start_def elim!: res_bindE)
    have v: "sets_up th w ?v"
      using sv by (intro sets_up_tame tame_server_put) auto
    obtain q where spawn: "pool_spawn run_init fr (sv_threadInitCallback sv) 0 (nat (lp_numThreads (sv_threadPool sv)))
        ((sv_threadPool sv)\<lparr>lp_started := True\<rparr>) ?v = Inr q"
      and rest: "(case sv_threadInitCallback sv of
          None \<Rightarrow> Inr (fst q, snd q)
        | Some f \<Rightarrow> if lp_numThreads (sv_threadPool sv) = 0
            then res_bind (run_init f (lp_baseLoop (sv_threadPool sv)) (snd q)) (\<lambda>w2. Inr (fst q, w2))
            else Inr (fst q, snd q)) = Inr (p, w1)"
      using pool unfolding EventLoopThreadPool_start_def case_prod_beta by (elim res_bindE) (rule that, assumption+)
    have "case fr j of (tid, M, tc, wc) \<Rightarrow> may_run th tid \<and> plain ?v M \<and> plain ?v tc \<and> plain ?v wc" for j
      using plain[of j] sets_up_plain[OF v] by (auto split: prod.splits)
    then have "sets_up th ?v (snd q)"
      using spawn init by (intro sets_up_spawn[of run_init fr _ 0 _ _ ?v "fst q" "snd q"]) simp_all
    moreover have "w1 = snd q \<or> (\<exists>f M. run_init f M (snd q) = Inr w1)"
      using rest by (auto simp: res_bind_eq_Inr split: option.splits if_splits)
    then have "sets_up th (snd q) w1"
      using init by (elim disjE exE) simp_all
    moreover have "sets_up th w1 w2"
      using w2 by (rule sets_up_server_mod) simp
    ultimately show ?thesis
      using v sets_up_listen[OF listen] sets_up_trans by blast
  qed (use run sv in \<open>simp add: TcpServer_start_def server_get_def\<close>)
qed


section \<open>Properties\<close>

text \<open>What typed heaps give: no two connections share a channel.\<close>

lemma heap_typed_owned: "heap_typed w \<Longrightarrow> channels_owned w"
  unfolding channels_owned_def
proof (intro allI impI, elim conjE)
  fix C D tc td
  assume ok: "heap_typed w" and C: "conns w C = Some tc" and D: "conns w D = Some td" and same: "tc_channel tc = tc_channel td"
  show "C = D"
    using heap_typed_conn[OF ok C] heap_typed_conn[OF ok D] same by (auto simp: wired_def)
qed

lemma echo_app_typed: "app_typed th echo_app"
proof -
  have "good th w w'" if run: "EchoServer_onMessage me C w = Inr w'" and me: "may_run th me" for me C w w'
  proof -
    obtain tc :: tcp_connection and p where tc: "conn_get C w = Inr tc"
      and send: "TcpConnection_send me C (fst p) (conn_put C (tc\<lparr>tc_inputBuffer := snd p\<rparr>) w) = Inr w'"
      using run unfolding EchoServer_onMessage_def case_prod_beta
      by (elim res_bindE) (rule that, assumption+)
    show ?thesis
      using tc by (intro good_trans[OF tame_good[OF tame_conn_put] good_send[OF send me]]) (simp_all add: conn_kind_def)
  qed
  then show ?thesis
    by (auto simp: app_typed_def echo_app_def EchoServer_onConnection_def res_bind_eq_Inr split: if_splits)
qed


interpretation echo_types: typed_app th echo_app for th
  by unfold_locales (rule echo_app_typed)

interpretation idle_types: typed_app th idle_app for th
  by unfold_locales (simp add: app_typed_def idle_app_def)

text \<open>A program starts with no objects.\<close>

definition heap_empty :: "net_world \<Rightarrow> bool" where
  "heap_empty w \<longleftrightarrow>
     (\<forall>p. chans w p = None \<and> conns w p = None \<and> connectors w p = None \<and> servers w p = None \<and>
        clients w p = None \<and> loops w p = None)"

lemma heap_empty_typed:
  assumes "heap_empty w"
  shows "sound th (w\<lparr>brk := b\<rparr>)" and "p < b \<Longrightarrow> plain (w\<lparr>brk := b\<rparr>) p"
  using assms by (simp_all add: heap_empty_def sound_def solo_def heap_typed_def referenced_def unused_def plain_def)

lemma sound_setup:
  assumes empty: "heap_empty w"
    and w1: "EventLoop_new me EPOLL LT L tc wc (w\<lparr>brk := b\<rparr>) = Inr w1"
    and w2: "EchoServer_new lib S A ch L la name n w1 = Inr w2" and w3: "EchoServer_start fr me S w2 = Inr w3"
    and below: "L < b" "tc < b" "wc < b" "S < b" "ch < b"
      "\<And>j. case fr j of (tid, M, tc, wc) \<Rightarrow> may_run th tid \<and> M < b \<and> tc < b \<and> wc < b" and me: "may_run th me"
  shows "sound th w3"
proof -
  let ?w = "w\<lparr>brk := b\<rparr>"
  note plain = heap_empty_typed(2)[OF empty, of _ b]
  have 1: "sets_up th ?w w1"
    by (rule sets_up_EventLoop[OF w1 plain[OF below(2)] plain[OF below(3)]]) (simp_all add: below(1) me)
  have 2: "sets_up th w1 w2"
    by (rule sets_up_EchoServer[OF w2 sets_up_plain[OF 1 plain[OF below(5)]] sets_up_plain[OF 1 plain[OF below(4)]]])
  note 12 = sets_up_trans[OF 1 2]
  have "case fr j of (tid, M, tc, wc) \<Rightarrow> may_run th tid \<and> plain w2 M \<and> plain w2 tc \<and> plain w2 wc" for j
    using below(6)[of j] plain sets_up_plain[OF 12] by (cases "fr j") simp
  then have "sets_up th w2 w3"
    by (rule sets_up_start[OF w3[unfolded EchoServer_start_def]]) (auto dest: sum.inject(2)[THEN iffD1])
  then have "good th ?w w3"
    using sets_up_trans[OF 12] unfolding sets_up_def by blast
  then show ?thesis
    using heap_empty_typed(1)[OF empty] by (rule good_sound)
qed

lemma sound_echo:
  assumes run: "echo_main n lib me w = Inr (ended, w')" and empty: "heap_empty w"
  shows "sound (Some me) w'"
proof -
  obtain w1 w2 w3 where w1: "EventLoop_new me EPOLL LT (brk w) (brk w + 1) (brk w + 2) (w\<lparr>brk := brk w + 6\<rparr>) = Inr w1"
    and w2: "EchoServer_new lib (brk w + 3) (brk w + 4) (brk w + 5) (brk w)
      (InetAddress_port zero_address 12345 False False) ''EchoServer'' 0 w1 = Inr w2"
    and w3: "EchoServer_start (\<lambda>_. (me, 0, 0, 0)) me (brk w + 3) w2 = Inr w3"
    and loop: "net_loop n lib echo_app me (brk w) w3 = Inr (ended, w')"
    using run unfolding echo_main_def Let_def by (elim res_bindE) (rule that, assumption+)
  have "sound (Some me) w3"
    by (rule sound_setup[OF empty w1 w2 w3]) (simp_all add: may_run_def)
  then show ?thesis
    by (rule echo_types.sound_loop[OF loop]) (simp add: may_run_def)
qed

lemma sound_threads:
  assumes run: "threads_main lib turns w = Inr w'" and empty: "heap_empty w"
  shows "sound None w'"
proof -
  obtain w1 w2 w3 where w1: "EventLoop_new 9 EPOLL LT (brk w) (brk w + 1) (brk w + 2) (w\<lparr>brk := brk w + 9\<rparr>) = Inr w1"
    and w2: "EchoServer_new lib (brk w + 3) (brk w + 4) (brk w + 5) (brk w)
      (InetAddress_port zero_address 12345 False False) ''EchoServer'' 1 w1 = Inr w2"
    and w3: "EchoServer_start (\<lambda>_. (10, brk w + 6, brk w + 7, brk w + 8)) 9 (brk w + 3) w2 = Inr w3"
    and loop: "net_turns lib echo_app turns w3 = Inr w'"
    using run unfolding threads_main_def Let_def by (elim res_bindE) (rule that, assumption+)
  have "sound None w3"
    by (rule sound_setup[OF empty w1 w2 w3]) (simp_all add: may_run_def)
  then show ?thesis
    by (rule echo_types.sound_turns[OF _ _ loop]) (simp_all add: may_run_def)
qed

text \<open>
  C8. The library keeps its heap typed, whatever the kernel answers, whatever the order in which the loops take
  their turns, and for every application whose functions keep the types when they are called on live
  connections (they are called on no others). In every state that is reached every connection owns a live channel, of its own loop and
  descriptor, with all four callbacks bound to that connection, and no other channel calls it; a
  connector's channel calls that connector; whatever a server's map, a client or a waiting functor refers to is alive, so nothing
  dangles; and new objects get unused addresses. In particular no two connections share a channel.
\<close>

theorem heap_types_kept:
  assumes "app_typed None a" and "heap_typed w" and "net_turns lib a turns w = Inr w'"
  shows "heap_typed w' \<and> channels_owned w'"
  using typed_app.sound_turns[OF typed_app.intro[OF assms(1)] _ _ assms(3)] assms(2) heap_typed_owned
  by (auto simp: sound_def may_run_def)

lemma echo_served:
  "\<exists>w w'. echo_main 0 lib 9 (echo_start (session_answers 0 0 0 ''hey'')) = Inr (False, w) \<and>
     net_turns lib echo_app [(9, 100), (9, 100)] w = Inr w' \<and> conns w' 106 \<noteq> None"
proof -
  have "length ''hey'' \<le> kInitialSize"
    by (simp add: kInitialSize_def)
  then obtain B b1 b2 where B: "Buffer_new kInitialSize = Inr B" "Buffer_readableBytes B = 0"
      "Buffer_readFd (SysData ''hey'') B 0 = Inr (int (length ''hey''), 0, b1)"
      "Buffer_retrieveAllAsString b1 = Inr (''hey'', b2)"
    using session_buffer by metis
  then show ?thesis
    by (simp add: echo_start_def session_answers_def echo_setup_defs echo_loop_defs echo_conn_defs
        echo_drop_defs net_turns_def net_iterate_def)
qed

theorem heap_types_kept_witness:
  "\<forall>lib. \<exists>w w'. net_turns lib echo_app [(9, 100), (9, 100)] w = Inr w' \<and> conns w' 106 \<noteq> None \<and>
     heap_typed w' \<and> channels_owned w'"
proof
  fix lib
  obtain w w' where start: "echo_main 0 lib 9 (echo_start (session_answers 0 0 0 ''hey'')) = Inr (False, w)"
    and run: "net_turns lib echo_app [(9, 100), (9, 100)] w = Inr w'" "conns w' 106 \<noteq> None"
    using echo_served[of lib] by blast
  have "sound (Some 9) w"
    using start by (rule sound_echo) (simp add: heap_empty_def echo_start_def)
  then have "heap_typed w"
    by (simp add: sound_def)
  then show "\<exists>w w'. net_turns lib echo_app [(9, 100), (9, 100)] w = Inr w' \<and> conns w' 106 \<noteq> None \<and>
      heap_typed w' \<and> channels_owned w'"
    using heap_types_kept[OF echo_app_typed _ run(1)] run by blast
qed

end
