(* ===== verification/Live_Conns.thy ===== *)
theory Live_Conns
  imports Type_Safety
begin

text \<open>
  No destroyed connection is used. In a typed heap (\<open>Heap_Types\<close>) every operation of the library, run on a live
  connection, ends without a use of a destroyed one, and the loop runs its callables on live connections
  only; the one way left is a functor bound to \<^verbatim>\<open>this\<close>, which only another thread queues.
\<close>

definition clean :: "'a res \<Rightarrow> bool" where
  "clean m \<longleftrightarrow> m \<noteq> Inl (Undefined ''use of a destroyed TcpConnection'')"

lemma clean_simps [simp]:
  "clean (Inr x)" "clean (Inl e) \<longleftrightarrow> e \<noteq> Undefined ''use of a destroyed TcpConnection''"
  "clean (cassert b s)" "clean (res_bind m f) \<longleftrightarrow> clean m \<and> (\<forall>x. m = Inr x \<longrightarrow> clean (f x))"
  by (auto simp: clean_def cassert_def res_bind_eq_Inl)

lemma clean_bindI: "clean m \<Longrightarrow> (\<And>x. m = Inr x \<Longrightarrow> clean (f x)) \<Longrightarrow> clean (res_bind m f)"
  by simp


section \<open>Below the connections\<close>

text \<open>The system calls, the buffers, the pollers and the loops know nothing of connections.\<close>

lemma clean_sys [simp]:
  "clean (sys c w)" "clean (sys_int c w)" "clean (clock_now w)" "clean (timerfdCreate w)"
  by (auto simp: sys_def sys_int_def clock_now_def timerfdCreate_def split: list.splits sys_ret.splits)

lemma clean_sockets [simp]:
  "clean (sockets_write fd d w)" "clean (sockets_read fd k w)" "clean (sockets_close fd w)"
  "clean (Socket_shutdownWrite fd w)" "clean (sockets_getSocketError fd w)" "clean (sockets_createNonblockingOrDie fam w)"
  "clean (sockets_connect fd la w)" "clean (Socket_accept fd la w)" "clean (Socket_dtor fd w)" "clean (open_dev_null w)"
  "clean (Socket_setsockopt opt on fd w)" "clean (Socket_bindAddress fd la w)" "clean (Socket_listen fd w)"
  by (simp_all add: sockets_write_def sockets_read_def sockets_close_def Socket_shutdownWrite_def
      sockets_shutdownWrite_def sockets_getSocketError_def sockets_createNonblockingOrDie_def sockets_connect_def
      Socket_accept_def sockets_accept_def Socket_dtor_def open_dev_null_def Socket_setsockopt_def
      Socket_bindAddress_def sockets_bindOrDie_def Socket_listen_def sockets_listenOrDie_def)

lemma clean_options [simp]:
  "clean (Socket_setKeepAlive on fd w)" "clean (Socket_setReuseAddr on fd w)" "clean (Socket_setReusePort on fd w)"
  by (simp_all add: Socket_setKeepAlive_def Socket_setReuseAddr_def Socket_setReusePort_def)

lemma clean_Buffer [simp]:
  "clean (Buffer_new n)" "clean (Buffer_append d b)" "clean (Buffer_retrieveAllAsString b)"
  by (simp_all add: Buffer_new_def vector_new_def Buffer_append_def Buffer_ensureWriteBytes_def Buffer_makeSpace_def
      vector_resize_def Buffer_hasWritten_def Buffer_retrieveAllAsString_def Buffer_retrieveAsString_def
      Buffer_retrieve_def Let_def)

lemma clean_Buffer_fd [simp]: "clean (Buffer_readFd r b e)" "clean (Buffer_writeFd r b e)"
  by (simp_all add: Buffer_readFd_def Buffer_writeFd_def Let_def split: sys_ret.splits)

lemma clean_Buffer_ET [simp]: "clean (Buffer_readFdET n b e rs)" "clean (Buffer_writeFdET n b e rs)"
  by (induction n b e rs rule: Buffer_readFdET.induct) simp_all

lemma clean_conn_io [simp]: "clean (conn_readFd et fd b w)" "clean (conn_writeFd et fd b w)"
  by (simp_all add: conn_readFd_def conn_writeFd_def)

lemma clean_heap [simp]:
  "clean (chan_get p w)" "clean (chan_delete p w)" "clean (loop_get L w1)" "clean (loop_mod L f w1)"
  "clean (timer_get p w1)" "clean (acceptor_get A w2)" "clean (connector_get K w3)" "clean (connector_mod K g w3)"
  "clean (server_get S w4)" "clean (server_mod S h w4)" "clean (client_get T w5)" "clean (client_mod T i w5)"
  by (auto simp: chan_get_def chan_delete_def Channel_dtor_def loop_get_def loop_mod_def timer_get_def acceptor_get_def
      connector_get_def connector_mod_def server_get_def server_mod_def client_get_def client_mod_def split: option.splits)

lemma clean_int_inc [simp]: "clean (int_inc n)"
  by (simp add: int_inc_def)

lemma clean_updateChannel [simp]: "clean (Poller_updateChannel inl p (po, w))"
  by (cases po) (simp_all add: EpollPoller_updateChannel_def PollPoller_updateChannel_def EpollPoller_update_def
      assertInLoopThread_def Let_def case_prod_beta split: option.splits)

lemma clean_removeChannel [simp]: "clean (Poller_removeChannel inl p (po, w))"
  by (cases po) (simp_all add: EpollPoller_removeChannel_def PollPoller_removeChannel_def EpollPoller_update_def
      PollPoller_setIndexAt_def assertInLoopThread_def Let_def case_prod_beta split: option.splits)

lemma clean_EpollPoller_fill [simp]: "clean (EpollPoller_fillActiveChannels evs active w)"
  by (induction evs active w rule: EpollPoller_fillActiveChannels.induct) simp_all

lemma clean_PollPoller_fill [simp]: "clean (PollPoller_fillActiveChannels fds n pp active w)"
  by (induction fds n pp active w rule: PollPoller_fillActiveChannels.induct) (simp_all add: Let_def)

lemma clean_poll [simp]: "clean (Poller_poll inl t (po, w))"
  by (cases po) (simp_all add: EpollPoller_poll_def PollPoller_poll_def assertInLoopThread_def Let_def case_prod_beta
      split: sys_ret.splits)

section \<open>Loops, timers and connectors\<close>

lemma clean_loop [simp]:
  "clean (EventLoop_assertInLoopThread me L w)" "clean (EventLoop_updateChannel me L p w)"
  "clean (EventLoop_removeChannel me L p w)" "clean (EventLoop_queueInLoop me L f w)" "clean (EventLoop_handleRead L w)"
  by (simp_all add: EventLoop_assertInLoopThread_def assertInLoopThread_def EventLoop_updateChannel_def EventLoop_removeChannel_def
      EventLoop_queueInLoop_def EventLoop_wakeup_def EventLoop_handleRead_def)

lemma clean_channel [simp]: "clean (Channel_interest me i p w)" "clean (Channel_remove me p w)"
  by (simp_all add: Channel_interest_def Channel_update_def Channel_remove_def)

lemma clean_runInLoop: "clean (body w) \<Longrightarrow> clean (EventLoop_runInLoop me L f body w)"
  by (simp add: EventLoop_runInLoop_def)

lemma clean_timers [simp]:
  "clean (TimerQueue_arm L wh w)" "clean (TimerQueue_addInLoop L wh t w)" "clean (TimerQueue_cancelInLoop L t w)"
  by (simp_all add: TimerQueue_arm_def timerfdSet_def durationFromNow_def TimerQueue_addInLoop_def
      TimerQueue_cancelInLoop_def Timer_cancel_def case_prod_beta Let_def)

lemma clean_runAfter [simp]: "clean (EventLoop_runAfter me L t iv cb w)"
  by (simp add: EventLoop_runAfter_def EventLoop_runAt_def TimerQueue_addTimer_def clean_runInLoop)

lemma clean_connector [simp]:
  "clean (Connector_setState s K w)" "clean (Connector_retry me tm fd K w)" "clean (Connector_connecting me ch fd K w)"
  by (simp_all add: Connector_setState_def Connector_retry_def Connector_connecting_def Let_def)

lemma clean_connector_start [simp]:
  "clean (Connector_connect me ch tm K w)" "clean (Connector_startInLoop me ch tm K w)" "clean (Connector_restart me ch tm K w)"
  by (simp_all add: Connector_connect_def Connector_startInLoop_def Connector_restart_def Let_def)

lemma clean_connector_channel [simp]:
  "clean (Connector_removeAndResetChannel me K w)" "clean (Connector_resetChannel K w)" "clean (Connector_handleError me tm K w)"
  by (simp_all add: Connector_removeAndResetChannel_def Connector_resetChannel_def Connector_handleError_def split: option.splits)

text \<open>A list of steps, each of which is clean on a sound heap and keeps it sound.\<close>

lemma clean_run_all:
  assumes "\<And>x v. x \<in> set xs \<Longrightarrow> sound th v \<Longrightarrow> clean (f x v)" and "\<And>x v v'. f x v = Inr v' \<Longrightarrow> good th v v'"
    and "sound th w"
  shows "clean (run_all f xs w)"
  using assms(1,3)
proof (induction xs arbitrary: w)
  case (Cons x xs)
  have "clean (run_all f xs v)" if "f x w = Inr v" for v
    using Cons good_sound[OF assms(2)[OF that]] by simp
  then show ?case
    using Cons.prems by simp
qed simp

lemma clean_fire:
  assumes "\<And>cb v. sound th v \<Longrightarrow> clean (run_t cb v)" and "sound th w"
  shows "clean (TimerQueue_fire run_t now L e w)"
  using assms by (simp add: TimerQueue_fire_def Timer_run_def Timer_restart_def Let_def split: option.splits)

lemma clean_timer_queue:
  assumes cb: "\<And>cb v. sound th v \<Longrightarrow> clean (run_t cb v)" and keeps: "\<And>cb v v'. run_t cb v = Inr v' \<Longrightarrow> good th v v'"
    and ok: "sound th w"
  shows "clean (TimerQueue_handleRead run_t me L w)"
proof -
  have "clean (run_all (TimerQueue_fire run_t now L) entries (loop_put L (el\<lparr>el_timers := rest\<rparr>) w2))"
    if read: "timerfdRead fd w = Inr w1" and now: "clock_now w1 = Inr (now, w2)" and el: "loops w2 L = Some el"
    for now entries el rest fd w1 w2
  proof (rule clean_run_all[where th = th])
    have "tame w w2"
      using read now by (blast intro: tame_trans tame_os timerfdRead_os_step clock_now_os_step)
    then show "sound th (loop_put L (el\<lparr>el_timers := rest\<rparr>) w2)"
      using el by (intro good_sound[OF tame_good ok] tame_trans[OF _ tame_loop_put]) simp_all
  qed (use cb in \<open>blast intro: clean_fire good_fire keeps\<close>)+
  moreover have "clean (timerfdRead fd w)" for fd
    by (simp add: timerfdRead_def)
  ultimately show ?thesis
    unfolding TimerQueue_handleRead_def case_prod_beta Let_def by (simp add: case_prod_beta)
qed

section \<open>Connections\<close>

lemma clean_conn_get [simp]: "clean (conn_get C w) \<longleftrightarrow> conns w C \<noteq> None"
  by (simp add: conn_get_def split: option.splits)

lemma clean_conn_mod [simp]: "clean (conn_mod C f w) \<longleftrightarrow> conns w C \<noteq> None"
  by (simp add: conn_mod_def)

lemma clean_setState [simp]: "clean (TcpConnection_setState s C w) \<longleftrightarrow> conns w C \<noteq> None"
  by (simp add: TcpConnection_setState_def)

lemma live_interest: "Channel_interest me i p w = Inr w' \<Longrightarrow> conns w' C = None \<longleftrightarrow> conns (w :: net_world) C = None"
  by (rule tame_live[OF tame_interest])

lemma live_setState: "TcpConnection_setState s D w = Inr w' \<Longrightarrow> conns w' C = None \<longleftrightarrow> conns (w :: net_world) C = None"
  by (rule tame_live[OF tame_setState])

lemma clean_tame_ops:
  fixes w :: net_world
  assumes "conns w C \<noteq> None"
  shows "clean (TcpConnection_shutdownInLoop me C w)" "clean (TcpConnection_handleError C w)"
    "clean (TcpConnection_startReadInLoop me C w)" "clean (TcpConnection_stopReadInLoop me C w)"
    "clean (defaultConnectionCallback C w)" "clean (defaultMessageCallback C w)" "clean (client_detach C L w)"
  using assms
  by (auto simp: TcpConnection_shutdownInLoop_def TcpConnection_handleError_def TcpConnection_startReadInLoop_def
      TcpConnection_stopReadInLoop_def defaultConnectionCallback_def defaultMessageCallback_def client_detach_def
      live_interest simp del: not_None_eq)

lemma clean_write_complete [simp]: "clean (queue_write_complete me tc C w)"
  by (simp add: queue_write_complete_def split: option.splits)

lemma clean_handleWrite:
  fixes w :: net_world
  assumes live: "conns w C \<noteq> None"
  shows "clean (TcpConnection_handleWrite me C w)"
proof -
  have "clean (TcpConnection_shutdownInLoop me C w4)"
    if tc: "conns w C = Some tc" and io: "conn_writeFd et fd b w = Inr (n, b', w1)"
      and off: "Channel_interest me DisableWriting p (conn_put C (tc\<lparr>tc_outputBuffer := b'\<rparr>) w1) = Inr w3"
      and queue: "queue_write_complete me tc C w3 = Inr w4" for tc et fd b n b' w1 p w3 w4
  proof -
    have "conns w3 C \<noteq> None"
      by (simp add: live_interest[OF off] del: not_None_eq)
    then have "conns w4 C \<noteq> None"
      using tame_live[OF tame_write_complete[OF queue]] by metis
    then show ?thesis
      by (rule clean_tame_ops)
  qed
  then show ?thesis
    using live by (simp add: TcpConnection_handleWrite_def Let_def)
qed

lemma clean_send_rest:
  "conns w C \<noteq> None \<Longrightarrow> clean (send_rest me C d w)"
  by (simp add: send_rest_def Let_def split: option.splits)

lemma clean_send:
  fixes w :: net_world
  assumes "conns w C \<noteq> None"
  shows "clean (TcpConnection_sendInLoop me C d w)" "clean (TcpConnection_send me C d w)"
proof -
  have "clean (send_rest me C d' w2)"
    if wr: "sockets_write fd d w = Inr (n, e, w1)" and wc: "w2 = w1 \<or> queue_write_complete me tc C w1 = Inr w2"
    for fd n e w1 w2 tc d'
  proof -
    have "conns w1 C \<noteq> None"
      using assms os_step_conn[OF sockets_write_os_step[OF wr]] by metis
    then have "conns w2 C \<noteq> None"
      using wc tame_live[OF tame_write_complete] by metis
    then show ?thesis
      by (rule clean_send_rest)
  qed
  then show 1: "clean (TcpConnection_sendInLoop me C d w)"
    using assms by (simp add: TcpConnection_sendInLoop_def Let_def)
  then show "clean (TcpConnection_send me C d w)"
    using assms by (simp add: TcpConnection_send_def clean_runInLoop)
qed

text \<open>The callbacks of a connection: clean when they are called on a live one.\<close>

definition calls_clean :: "nat option \<Rightarrow> (conn_event \<Rightarrow> ptr \<Rightarrow> net_world \<Rightarrow> net_world res) \<Rightarrow> bool" where
  "calls_clean th run_ev \<longleftrightarrow> (\<forall>ev C v. sound th v \<longrightarrow> conns v C \<noteq> None \<longrightarrow> clean (run_ev ev C v))"

lemma clean_calls:
  assumes "calls_clean th run_ev" and "sound th w" and "conns w C \<noteq> None"
  shows "clean (call_connection run_ev C w)" "clean (call_message run_ev t C w)" "clean (call_close run_ev C w)"
  using assms
  by (auto simp: calls_clean_def call_connection_def call_message_def call_close_def split: option.splits)

lemma live_calls:
  assumes "keeps_types th run_ev" and "sound th w" and "conns w C \<noteq> None"
    and "call_connection run_ev C w = Inr w' \<or> call_close run_ev C w = Inr w'"
  shows "conns w' C \<noteq> None"
  using assms(4) good_live[OF good_calls(1)[OF assms(1)] assms(2,3)] good_live[OF good_calls(3)[OF assms(1)] assms(2,3)]
  by blast

lemma state_then_interest:
  fixes w :: net_world
  assumes "sound th w" and "conns w C \<noteq> None"
    and "TcpConnection_setState s C w = Inr w1" and "Channel_interest me i p w1 = Inr w2"
  shows "sound th w2" "conns w2 C \<noteq> None" "conns w1 C \<noteq> None"
  using good_sound[OF tame_good[OF tame_trans[OF tame_setState[OF assms(3)] tame_interest[OF assms(4)]]] assms(1)]
    live_setState[OF assms(3)] live_interest[OF assms(4)] assms(2) by simp_all

text \<open>An operation on a live connection of a sound heap, with callbacks of that kind.\<close>

lemma clean_handleClose:
  assumes ev: "calls_clean th run_ev" "keeps_types th run_ev" and ok: "sound th w" and live: "conns w C \<noteq> None"
  shows "clean (TcpConnection_handleClose run_ev me C w)"
proof -
  have "clean (call_connection run_ev C w2)" "call_connection run_ev C w2 = Inr w3 \<Longrightarrow> clean (call_close run_ev C w3)"
    if "TcpConnection_setState kDisconnected C w = Inr w1" "Channel_interest me DisableAll p w1 = Inr w2" for p w1 w2 w3
  proof -
    note w2 = state_then_interest[OF ok live that]
    show "clean (call_connection run_ev C w2)"
      by (rule clean_calls(1)[OF ev(1) w2(1,2)])
    show "clean (call_close run_ev C w3)" if run: "call_connection run_ev C w2 = Inr w3"
      using good_sound[OF good_calls(1)[OF ev(2) run] w2(1)] live_calls[OF ev(2) w2(1,2)] run
      by (intro clean_calls(3)[OF ev(1)]) blast+
  qed
  then show ?thesis
    using live by (simp add: TcpConnection_handleClose_def)
qed

lemma clean_forceClose:
  "calls_clean th run_ev \<Longrightarrow> keeps_types th run_ev \<Longrightarrow> sound th w \<Longrightarrow> conns w C \<noteq> None \<Longrightarrow>
   clean (TcpConnection_forceCloseInLoop run_ev me C w)"
  by (simp add: TcpConnection_forceCloseInLoop_def clean_handleClose del: not_None_eq)

lemma clean_established:
  assumes ev: "calls_clean th run_ev" and ok: "sound th w" and live: "conns w C \<noteq> None"
  shows "clean (TcpConnection_connectEstablished run_ev me C w)"
proof -
  have "clean (call_connection run_ev C w2)"
    if "TcpConnection_setState kConnected C w = Inr w1" "Channel_interest me EnableReading p w1 = Inr w2" for p w1 w2
    by (rule clean_calls(1)[OF ev state_then_interest(1,2)[OF ok live that]])
  then show ?thesis
    using live by (simp add: TcpConnection_connectEstablished_def)
qed

lemma clean_destroyed:
  assumes ev: "calls_clean th run_ev" and ok: "sound th w" and live: "conns w C \<noteq> None"
  shows "clean (TcpConnection_connectDestroyed run_ev me C w)"
proof -
  have "clean (call_connection run_ev C w2)"
    if "TcpConnection_setState kDisconnected C w = Inr w1" "Channel_interest me DisableAll p w1 = Inr w2" for p w1 w2
    by (rule clean_calls(1)[OF ev state_then_interest(1,2)[OF ok live that]])
  then show ?thesis
    using live by (simp add: TcpConnection_connectDestroyed_def)
qed

lemma clean_handleRead:
  assumes ev: "calls_clean th run_ev" "keeps_types th run_ev" and ok: "sound th w" and live: "conns w C \<noteq> None"
  shows "clean (TcpConnection_handleRead run_ev me t C w)"
proof -
  have "clean (call_message run_ev t C v)" "clean (TcpConnection_handleClose run_ev me C v)" "clean (TcpConnection_handleError C v)"
    if tc: "conns w C = Some tc" and io: "conn_readFd et fd b w = Inr (n, b', w1)"
      and v: "v = conn_put C (tc\<lparr>tc_inputBuffer := b'\<rparr>) w1" for tc et fd b n b' w1 v
  proof -
    have "tame w v"
      unfolding v using conn_readFd_os_step[OF io] tc by (rule tame_put_conn) (simp add: conn_kind_def)
    then have "sound th v" "conns v C \<noteq> None"
      using good_sound[OF tame_good ok] tame_live[of w v C] live by simp_all
    then show "clean (call_message run_ev t C v)" "clean (TcpConnection_handleClose run_ev me C v)"
      "clean (TcpConnection_handleError C v)"
      by (blast intro: clean_calls ev clean_handleClose clean_tame_ops)+
  qed
  then show ?thesis
    using live by (simp add: TcpConnection_handleRead_def Let_def)
qed


section \<open>Servers and clients\<close>

lemma clean_conn_new [simp]: "clean (TcpConnection_new C ch L name fd la pa w)"
  by (simp add: TcpConnection_new_def Let_def)

lemma clean_nextLoop [simp]: "clean (EventLoopThreadPool_getNextLoop me p w)"
  by (simp add: EventLoopThreadPool_getNextLoop_def Let_def)

lemma clean_server_remove:
  fixes w :: net_world
  assumes "conns w C \<noteq> None"
  shows "clean (TcpServer_removeConnectionInLoop me S C w)" "clean (TcpServer_removeConnection me S C w)"
  using assms by (simp_all add: TcpServer_removeConnectionInLoop_def TcpServer_removeConnection_def clean_runInLoop)

lemma clean_client_remove:
  fixes w :: net_world
  assumes "conns w C \<noteq> None"
  shows "clean (TcpClient_removeConnection me ch tm T C w)"
  using assms by (simp add: TcpClient_removeConnection_def client_put_def)

lemma clean_server_new:
  assumes ev: "calls_clean th run_ev" and ok: "sound th w" and fresh: "fresh_at w C" "fresh_at w ch"
  shows "clean (TcpServer_newConnection run_ev me C ch S fd pa w)"
proof -
  have live: "conns w2 C \<noteq> None" and est: "\<lbrakk>conn_mod C f w2 = Inr w3; \<And>tc. conn_kind (f tc) = conn_kind tc\<rbrakk> \<Longrightarrow>
      clean (TcpConnection_connectEstablished run_ev me C w3)"
    if sv: "server_get S w = Inr sv"
      and new: "TcpConnection_new C ch L name fd la pa (server_put S (sv\<lparr>sv_threadPool := p, sv_nextConnId := n\<rparr>) w) = Inr w1"
      and add: "server_mod S (\<lambda>sv. sv\<lparr>sv_connections := map_put name C (sv_connections sv)\<rparr>) w1 = Inr w2"
    for sv p n L name la w1 w2 f w3
  proof -
    let ?v = "server_put S (sv\<lparr>sv_threadPool := p, sv_nextConnId := n\<rparr>) w"
    have v: "tame w ?v"
      using sv by (intro tame_server_put) auto
    note w1 = good_conn_new[OF new fresh[folded tame_fresh[OF v]]]
    have w2: "tame w1 w2"
      using add by (rule tame_server_mod) (use w1(2) in \<open>auto dest!: subsetD[OF map_put_sub]\<close>)
    show live: "conns w2 C \<noteq> None"
      using w1(2) tame_live[OF w2] by metis
    assume set: "conn_mod C f w2 = Inr w3" and f: "\<And>tc. conn_kind (f tc) = conn_kind tc"
    have w3: "tame w2 w3"
      using set f by (rule tame_conn_mod)
    have "good th w w3"
      by (rule good_trans[OF tame_good[OF v] good_trans[OF w1(1) tame_good[OF tame_trans[OF w2 w3]]]])
    then show "clean (TcpConnection_connectEstablished run_ev me C w3)"
      using live tame_live[OF w3] by (intro clean_established[OF ev good_sound[OF _ ok]]) metis+
  qed
  show ?thesis
    unfolding TcpServer_newConnection_def Let_def case_prod_beta
    by (intro clean_bindI clean_runInLoop; (rule est, assumption+)?)
      (simp_all add: live conn_kind_def conn_setter_defs del: server_get_Inr not_None_eq)
qed

lemma clean_client_new:
  assumes ev: "calls_clean th run_ev" and ok: "sound th w" and fresh: "fresh_at w C" "fresh_at w ch"
  shows "clean (TcpClient_newConnection lib run_ev me C ch T fd w)"
proof -
  have live: "conns w1 C \<noteq> None" and est: "\<lbrakk>conn_mod C f w1 = Inr w2; client_mod T (\<lambda>cl. cl\<lparr>cl_connection := Some C\<rparr>) w2 = Inr w3;
      \<And>tc. conn_kind (f tc) = conn_kind tc\<rbrakk> \<Longrightarrow> clean (TcpConnection_connectEstablished run_ev me C w3)"
    if cl: "client_get T w = Inr cl"
      and new: "TcpConnection_new C ch L name fd la pa (client_put T (cl\<lparr>cl_nextConnId := n\<rparr>) w) = Inr w1"
    for cl n L name la pa w1 w2 f w3
  proof -
    let ?v = "client_put T (cl\<lparr>cl_nextConnId := n\<rparr>) w"
    have v: "tame w ?v"
      using cl by (intro tame_client_put) auto
    note w1 = good_conn_new[OF new fresh[folded tame_fresh[OF v]]]
    show live: "conns w1 C \<noteq> None"
      by (rule w1(2))
    assume set: "conn_mod C f w1 = Inr w2" and keep: "client_mod T (\<lambda>cl. cl\<lparr>cl_connection := Some C\<rparr>) w2 = Inr w3"
      and f: "\<And>tc. conn_kind (f tc) = conn_kind tc"
    have w2: "tame w1 w2"
      using set f by (rule tame_conn_mod)
    have w3: "tame w2 w3"
      using keep by (rule tame_client_mod) (use w1(2) tame_live[OF w2, of C] in auto)
    have "good th w w3"
      by (rule good_trans[OF tame_good[OF v] good_trans[OF w1(1) tame_good[OF tame_trans[OF w2 w3]]]])
    then show "clean (TcpConnection_connectEstablished run_ev me C w3)"
      using live tame_live[OF w2] tame_live[OF w3] by (intro clean_established[OF ev good_sound[OF _ ok]]) metis+
  qed
  show ?thesis
    unfolding TcpClient_newConnection_def Let_def
    by (intro clean_bindI; (rule est, assumption+)?)
      (simp_all add: live conn_kind_def conn_setter_defs del: client_get_Inr client_mod_Inr not_None_eq)
qed

text \<open>The two handlers that make connections.\<close>

lemma clean_with_new:
  assumes "sound th w" and "\<And>p q v. sound th v \<Longrightarrow> fresh_at v p \<Longrightarrow> fresh_at v q \<Longrightarrow> clean (f p q v)"
  shows "clean (with_new f w)"
  unfolding with_new_def by (rule assms(2)[OF sound_with_new[OF assms(1)]])

lemma clean_accept:
  assumes ok: "sound th w" and new: "\<And>S fd pa v. sound th v \<Longrightarrow> clean (run_new S fd pa v)"
  shows "clean (Acceptor_handleRead run_new me A w)"
proof -
  have "clean (run_new S fd pa v)" if acc: "Socket_accept fd' la w = Inr (fd'', e, pa', v)" for S fd pa v fd' la fd'' e pa'
  proof -
    have "os_step w v"
      using acc by (auto simp: Socket_accept_def sockets_accept_def res_bind_eq_Inr split: if_splits dest!: sys_int_os_step)
    then show ?thesis
      by (rule new[OF good_sound[OF tame_good[OF tame_os] ok]])
  qed
  then show ?thesis
    by (simp add: Acceptor_handleRead_def Acceptor_discard_def case_prod_beta Let_def split: option.splits)
qed

lemma clean_connectorWrite:
  assumes ok: "sound th w" and new: "\<And>T fd v. sound th v \<Longrightarrow> clean (run_new T fd v)"
  shows "clean (Connector_handleWrite run_new me tm K w)"
proof -
  have "clean (run_new T fd w3)"
    if "Connector_removeAndResetChannel me K w = Inr (fd', w1)" "sockets_getSocketError fd' w1 = Inr (err, w2)"
      "Connector_setState ckConnected K w2 = Inr w3" for T fd fd' w1 err w2 w3
    by (rule new[OF good_sound[OF tame_good[OF tame_trans[OF tame_removeAndReset[OF that(1)]
            tame_trans[OF tame_os[OF Socket_calls_os_step(3)[OF that(2)]] tame_co_setState[OF that(3)]]]] ok]])
  then show ?thesis
    by (simp add: Connector_handleWrite_def split: option.splits)
qed


section \<open>The application and the callables\<close>

text \<open>What is asked of an application, beside the types: on a live connection its functions use no destroyed one.\<close>

definition app_clean :: "nat option \<Rightarrow> app \<Rightarrow> bool" where
  "app_clean th a \<longleftrightarrow> (\<forall>me. may_run th me \<longrightarrow>
     (\<forall>f C w. sound th w \<longrightarrow> conns w C \<noteq> None \<longrightarrow> clean (ap_connection a me f C w)) \<and>
     (\<forall>f t C w. sound th w \<longrightarrow> conns w C \<noteq> None \<longrightarrow> clean (ap_message a me f t C w)) \<and>
     (\<forall>f C w. sound th w \<longrightarrow> conns w C \<noteq> None \<longrightarrow> clean (ap_writeComplete a me f C w)) \<and>
     (\<forall>f C n w. sound th w \<longrightarrow> conns w C \<noteq> None \<longrightarrow> clean (ap_highWaterMark a me f C n w)) \<and>
     (\<forall>n w. sound th w \<longrightarrow> clean (ap_timer a me n w)) \<and> (\<forall>n w. sound th w \<longrightarrow> clean (ap_functor a me n w)))"

lemma app_cleanD:
  assumes "app_clean th a" and "may_run th me" and "sound th w"
  shows "conns w C \<noteq> None \<Longrightarrow> clean (ap_connection a me f C w)"
    "conns w C \<noteq> None \<Longrightarrow> clean (ap_message a me f t C w)"
    "conns w C \<noteq> None \<Longrightarrow> clean (ap_writeComplete a me f C w)"
    "conns w C \<noteq> None \<Longrightarrow> clean (ap_highWaterMark a me f C n w)"
    "clean (ap_timer a me n w)" "clean (ap_functor a me n w)"
  using assms unfolding app_clean_def by metis+

locale clean_app = typed_app +
  assumes app_is_clean: "app_clean th a"
begin

lemma calls_clean_net:
  assumes me: "may_run th me"
  shows "calls_clean th (net_ev a me)"
  unfolding calls_clean_def
proof (intro allI impI)
  fix ev C v
  assume ok: "sound th v" and live: "conns v C \<noteq> None"
  note app = app_cleanD[OF app_is_clean me ok]
  show "clean (net_ev a me ev C v)"
  proof (cases ev)
    case (EvClose cb)
    then show ?thesis
      using live by (cases cb) (simp_all add: clean_server_remove with_new_def clean_client_remove client_removeConnection_def
          del: not_None_eq)
  qed (use live app in \<open>simp_all add: clean_tame_ops del: not_None_eq\<close>)
qed

lemma clean_net_timer: "may_run th me \<Longrightarrow> sound th w \<Longrightarrow> clean (net_timer a me cb w)"
  by (cases cb) (simp_all add: app_cleanD[OF app_is_clean] with_new_def)

lemma clean_net_functor:
  assumes me: "may_run th me" and ok: "sound th w"
    and live: "\<And>C. functor_conn f = Some C \<or> raw_functor f = Some C \<Longrightarrow> conns w C \<noteq> None"
  shows "clean (net_functor a me f w)"
  using live app_cleanD[OF app_is_clean me ok] calls_clean_net[OF me] keeps_types_net[OF me] ok
  by (cases f) (simp_all add: with_new_def clean_tame_ops clean_send clean_server_remove clean_forceClose clean_established
      clean_destroyed del: not_None_eq)

lemma clean_net_channel:
  assumes me: "may_run th me" and ok: "sound th w" and live: "\<And>C. Some cb \<in> conn_cbs C \<Longrightarrow> conns w C \<noteq> None"
  shows "clean (net_channel lib a me cb t w)"
proof (cases cb)
  case (CbTimerQueueRead L)
  then show ?thesis
    using clean_timer_queue[OF clean_net_timer[OF me] good_net_timer[OF _ me] ok] by simp
next
  case (CbAcceptorRead A)
  have "clean (with_new (\<lambda>C ch. TcpServer_newConnection (net_ev a me) me C ch S fd pa) v)" if "sound th v" for S fd pa v
    using that by (rule clean_with_new) (rule clean_server_new[OF calls_clean_net[OF me]])
  then show ?thesis
    using CbAcceptorRead clean_accept[OF ok] by simp
next
  case (CbConnectorWrite K)
  have "clean (with_new (\<lambda>C ch. TcpClient_newConnection lib (net_ev a me) me C ch T fd) v)" if "sound th v" for T fd v
    using that by (rule clean_with_new) (rule clean_client_new[OF calls_clean_net[OF me]])
  then show ?thesis
    using CbConnectorWrite clean_connectorWrite[OF sound_with_new(1)[OF ok]] by (simp add: with_new_def)
next
  case (CbConnectorError K)
  then show ?thesis
    by (simp add: with_new_def)
qed (use live clean_handleRead[OF calls_clean_net[OF me] keeps_types_net[OF me] ok]
    clean_handleClose[OF calls_clean_net[OF me] keeps_types_net[OF me] ok]
    in \<open>simp_all add: conn_cbs_def clean_handleWrite clean_tame_ops del: not_None_eq\<close>)

end


section \<open>The loop\<close>

lemma clean_callback:
  assumes ok: "sound th w" and callback: "callback \<in> {ch_readCallback, ch_writeCallback, ch_errorCallback, ch_closeCallback}"
    and cb: "\<And>cb. (\<And>C. Some cb \<in> conn_cbs C \<Longrightarrow> conns w C \<noteq> None) \<Longrightarrow> clean (run_cb cb t w)"
  shows "clean (Channel_callback run_cb t p test callback w)"
proof -
  have "clean (run_cb cb t w)" if c: "chans w p = Some c" "callback c = Some cb" for c cb
  proof (rule cb)
    fix C
    assume "Some cb \<in> conn_cbs C"
    then have "speaks_for c C"
      using c(2) callback by (auto simp: speaks_for_def)
    then show "conns w C \<noteq> None"
      using heap_typed_speaks[OF _ c(1)] ok by (auto simp: sound_def)
  qed
  then show ?thesis
    by (simp add: Channel_callback_def split: option.splits)
qed

lemma clean_handleEvent:
  assumes ok: "sound th w"
    and cb: "\<And>cb v. sound th v \<Longrightarrow> (\<And>C. Some cb \<in> conn_cbs C \<Longrightarrow> conns v C \<noteq> None) \<Longrightarrow> clean (run_cb cb t v)"
    and keeps: "\<And>cb v v'. run_cb cb t v = Inr v' \<Longrightarrow> good th v v'"
  shows "clean (Channel_handleEvent run_cb t p w)"
proof -
  have kept: "sound th v'" if "Channel_callback run_cb t p test callback v = Inr v'" "sound th v" for test callback v v'
    using good_sound[OF good_callback[OF that(1) keeps] that(2)] .
  have start: "sound th (chan_put p (c\<lparr>ch_eventHanding := True\<rparr>) w)" if "chan_get p w = Inr c" for c
    using that by (intro good_sound[OF tame_good[OF tame_chan_put] ok]) (simp_all add: chan_kind_def)
  have calls: "clean (Channel_callback run_cb t p revents_close ch_closeCallback v)"
    "clean (Channel_callback run_cb t p revents_error ch_errorCallback v)"
    "clean (Channel_callback run_cb t p revents_read ch_readCallback v)"
    "clean (Channel_callback run_cb t p revents_write ch_writeCallback v)" if "sound th v" for v
    by (rule clean_callback[OF that], simp, rule cb[OF that], blast)+
  show ?thesis
    unfolding Channel_handleEvent_def
    by (intro clean_bindI clean_heap clean_simps(1); (blast intro: calls kept start)?)
qed

text \<open>A list of steps that fails does so in one of them.\<close>

lemma run_all_Inl:
  "run_all f xs w = Inl e \<Longrightarrow> \<exists>ys x zs u. xs = ys @ x # zs \<and> run_all f ys w = Inr u \<and> f x u = Inl e"
proof (induction xs arbitrary: w)
  case (Cons x xs)
  show ?case
  proof (cases "f x w")
    case (Inl d)
    then show ?thesis
      using Cons.prems by (intro exI[of _ "[]"]) simp
  next
    case (Inr v)
    then have "run_all f xs v = Inl e"
      using Cons.prems by simp
    then obtain ys y zs u where "xs = ys @ y # zs" "run_all f ys v = Inr u" "f y u = Inl e"
      using Cons.IH by blast
    then show ?thesis
      using Inr by (intro exI[of _ "x # ys"]) simp
  qed
qed simp

text \<open>The end of the references that the functors of a round hold.\<close>

lemma dtor_others: "TcpConnection_dtor C w = Inr w' \<Longrightarrow> D \<noteq> C \<Longrightarrow> conns (w :: net_world) D \<noteq> None \<Longrightarrow> conns w' D \<noteq> None"
  by (auto simp: TcpConnection_dtor_def chan_delete_def Socket_dtor_def sockets_close_def res_bind_eq_Inr
      dest!: sys_int_os_step elim!: os_stepE)

lemma clean_drop:
  assumes "sound th w" and "\<And>C. C \<in> set (functor_conns fs) \<Longrightarrow> conns w C \<noteq> None"
  shows "clean (net_drop a fs w)"
  using assms
proof (induction fs arbitrary: w)
  case (Cons f fs)
  show ?case
  proof (cases "\<exists>C. functor_conn f = Some C \<and> C \<notin> set (functor_conns fs)")
    case True
    then obtain C where C: "functor_conn f = Some C" "C \<notin> set (functor_conns fs)"
      by blast
    have "clean (net_drop a fs v)" if rel: "net_release a C w = Inr v" for v
    proof (rule Cons.IH)
      show "sound th v"
        using rel Cons.prems(1) sound_dtor[OF Cons.prems(1)] referenced_held[of w C a]
        by (auto simp: net_release_def sound_def split: if_splits)
      show "conns v D \<noteq> None" if "D \<in> set (functor_conns fs)" for D
        using rel that C Cons.prems(2)[of D] dtor_others[of C w v D]
        by (auto simp: net_release_def functor_conns_Cons split: if_splits)
    qed
    moreover have "clean (net_release a C w)"
      using Cons.prems(2)[of C] C by (simp add: net_release_def TcpConnection_dtor_def functor_conns_Cons)
    ultimately show ?thesis
      using C by simp
  next
    case False
    then have "net_drop a (f # fs) w = net_drop a fs w"
      by (auto split: option.splits)
    moreover have "clean (net_drop a fs w)"
      using Cons.prems(2) by (intro Cons.IH[OF Cons.prems(1)]) (simp add: functor_conns_Cons split: option.splits)
    ultimately show ?thesis
      by simp
  qed
qed simp

context clean_app
begin

text \<open>The one way to use a destroyed connection: a functor bound to \<^verbatim>\<open>this\<close> that runs after the end of its connection.\<close>

lemma destroyed_functor:
  assumes me: "may_run th me" and ok: "sound th w" and live: "\<And>C. C \<in> set (functor_conns fs) \<Longrightarrow> conns w C \<noteq> None"
    and bad: "\<not> clean (run_all (net_functor a me) fs w)"
  shows "\<exists>ys f zs u C. fs = ys @ f # zs \<and> run_all (net_functor a me) ys w = Inr u \<and> raw_functor f = Some C \<and> conns u C = None"
proof -
  obtain ys f zs u where fs: "fs = ys @ f # zs" and run: "run_all (net_functor a me) ys w = Inr u"
    and f: "\<not> clean (net_functor a me f u)"
    using bad run_all_Inl[of "net_functor a me" fs w] by (auto simp: clean_def)
  have both: "functor_conns (ys @ f # zs) = functor_conns ys @ functor_conns (f # zs)"
    by (simp add: functor_conns_def List.map_filter_def)
  have good: "good th w u"
  proof (rule good_functors[OF _ run])
    show "good th v v'" if "net_functor a me g v = Inr v'" "\<And>C. functor_conn g = Some C \<Longrightarrow> conns v C \<noteq> None" for g v v'
      using that me by (rule good_net_functor)
  qed (use live both fs in simp)
  have "conns u C \<noteq> None" if "functor_conn f = Some C" for C
    using that live[of C] both fs by (intro good_live[OF good ok]) (simp add: functor_conns_Cons)
  then obtain C where "raw_functor f = Some C" "conns u C = None"
    using f clean_net_functor[OF me good_sound[OF good ok], of f] by blast
  then show ?thesis
    using fs run by blast
qed

lemma destroyed_round:
  assumes ok: "sound th w" and me: "may_run th me"
    and bad: "\<not> clean (EventLoop_doPendingFunctors (net_functor a me) (net_drop a) L w)"
  shows "\<exists>el ys f zs u C. loops w L = Some el \<and> el_pendingFunctors el = ys @ f # zs \<and>
     run_all (net_functor a me) ys (loop_put L (snd (pending_swap el)) w) = Inr u \<and> raw_functor f = Some C \<and> conns u C = None"
proof -
  obtain el where el: "loops w L = Some el"
    using bad by (cases "loops w L") (simp_all add: EventLoop_doPendingFunctors_def loop_get_def)
  let ?fs = "el_pendingFunctors el" and ?v = "loop_put L (snd (pending_swap el)) w"
  have tame: "tame w ?v"
    using el by (intro tame_world) (simp_all add: pending_swap_def waiting_ok_def steady_def functor_conns_def)
  note sound = good_sound[OF tame_good[OF tame] ok]
  have live: "conns ?v C \<noteq> None" if "C \<in> set (functor_conns ?fs)" for C
    using that heap_typed_referenced[of w C] el ok tame_live[OF tame, of C] by (auto simp: referenced_def sound_def)
  have "clean (net_drop a ?fs w3)"
    if run: "run_all (net_functor a me) ?fs ?v = Inr w2" and flag: "loop_mod L (\<lambda>el2. el2\<lparr>el_callingPendingFunctors := False\<rparr>) w2 = Inr w3"
    for w2 w3
  proof -
    have "tame w2 w3"
      using flag by (auto simp: loop_mod_def res_bind_eq_Inr intro!: tame_loop_put)
    moreover have "good th ?v w2"
    proof (rule good_functors[OF _ run live])
      show "good th u u'" if "net_functor a me f u = Inr u'" "\<And>C. functor_conn f = Some C \<Longrightarrow> conns u C \<noteq> None" for f u u'
        using that me by (rule good_net_functor)
    qed
    ultimately have "good th ?v w3"
      using good_trans tame_good by blast
    then show ?thesis
      using good_live[OF _ sound live] good_sound[OF _ sound] by (intro clean_drop) blast+
  qed
  then have "\<not> clean (run_all (net_functor a me) ?fs ?v)"
    using bad el by (auto simp: EventLoop_doPendingFunctors_def pending_swap_def Let_def)
  then show ?thesis
    using destroyed_functor[OF me sound live] el by blast
qed

lemma clean_events:
  assumes ok: "sound th w" and me: "may_run th me"
  shows "clean (net_events lib a me L w)"
proof -
  have "clean (run_all (Channel_handleEvent (net_channel lib a me) t) active
      (loop_put L (el\<lparr>el_poller := po, el_pollReturnTime := t, el_activeChannels := active\<rparr>) w1))"
    if el: "loops w L = Some el" and poll: "Poller_poll inl tm (el_poller el, w) = Inr (t, active, po, w1)"
    for el inl tm t active po w1
  proof (rule clean_run_all)
    show "sound th (loop_put L (el\<lparr>el_poller := po, el_pollReturnTime := t, el_activeChannels := active\<rparr>) w1)"
      by (rule good_sound[OF tame_good[OF tame_polled[OF poll el]] ok])
  next
    show "clean (Channel_handleEvent (net_channel lib a me) t p v)" if "sound th v" for p v
    proof (rule clean_handleEvent[OF that])
      show "clean (net_channel lib a me cb t u)" if "sound th u" "\<And>C. Some cb \<in> conn_cbs C \<Longrightarrow> conns u C \<noteq> None" for cb u
        using me that by (rule clean_net_channel)
      show "good th u u'" if "net_channel lib a me cb t u = Inr u'" for cb u u'
        using that me by (rule good_net_channel)
    qed
  next
    show "good th v v'" if "Channel_handleEvent (net_channel lib a me) t p v = Inr v'" for p v v'
      using that by (rule good_handleEvent) (rule good_net_channel[OF _ me])
  qed
  then show ?thesis
    by (simp add: net_events_def)
qed

lemma destroyed_iterate:
  assumes ok: "sound th w" and me: "may_run th me" and bad: "\<not> clean (net_iterate lib a me L w)"
  shows "\<exists>v el ys f zs u C. net_events lib a me L w = Inr v \<and> loops v L = Some el \<and> el_pendingFunctors el = ys @ f # zs \<and>
     run_all (net_functor a me) ys (loop_put L (snd (pending_swap el)) v) = Inr u \<and> raw_functor f = Some C \<and> conns u C = None"
proof -
  obtain v where v: "net_events lib a me L w = Inr v"
    and round: "\<not> clean (EventLoop_doPendingFunctors (net_functor a me) (net_drop a) L v)"
    using bad clean_events[OF ok me, of lib L] by (auto simp: net_iterate_events)
  show ?thesis
    using destroyed_round[OF good_sound[OF good_events[OF me v] ok] me round] v by blast
qed

end

text \<open>With one thread no functor bound to \<^verbatim>\<open>this\<close> ever waits.\<close>

locale clean_single = clean_app "Some me" a for me a
begin

lemma clean_single_iterate:
  assumes ok: "sound (Some me) w"
  shows "clean (net_iterate lib a me L w)"
proof (rule ccontr)
  assume bad: "\<not> clean (net_iterate lib a me L w)"
  have me: "may_run (Some me) me"
    by (simp add: may_run_def)
  obtain v el ys f zs C where v: "net_events lib a me L w = Inr v" and el: "loops v L = Some el"
    and f: "el_pendingFunctors el = ys @ f # zs" "raw_functor f = Some C"
    using destroyed_iterate[OF ok me bad] by blast
  have "sound (Some me) v"
    using good_sound[OF good_events[OF me v] ok] .
  then show False
    using el f by (auto simp: sound_def solo_def)
qed

lemma clean_while:
  "sound (Some me) w \<Longrightarrow> clean (EventLoop_while n me (net_channel lib a me) (net_functor a me) (net_drop a) L w)"
proof (induction n arbitrary: w)
  case (Suc n)
  have "clean (EventLoop_while n me (net_channel lib a me) (net_functor a me) (net_drop a) L v)"
    if "net_iterate lib a me L w = Inr v" for v
    using that sound_iterate[OF Suc.prems] by (intro Suc.IH) (simp add: may_run_def)
  then show ?case
    using clean_single_iterate[OF Suc.prems, of lib L] by (simp add: net_iterate_def)
qed simp

lemma clean_net_loop:
  assumes ok: "sound (Some me) w"
  shows "clean (net_loop n lib a me L w)"
proof -
  have "clean (EventLoop_while n me (net_channel lib a me) (net_functor a me) (net_drop a) L
      (loop_put L (el\<lparr>el_looping := True, el_quit := False\<rparr>) w))" if "loops w L = Some el" for el
    using that by (intro clean_while good_sound[OF tame_good ok] tame_loop_put) simp_all
  then show ?thesis
    by (simp add: net_loop_def EventLoop_loop_def)
qed

end


section \<open>The echo program\<close>

lemma echo_app_clean: "app_clean th echo_app"
proof -
  have "clean (EchoServer_onMessage me C w)" if "conns w C \<noteq> None" for me C w
    using that by (auto simp: EchoServer_onMessage_def intro: clean_send(2))
  then show ?thesis
    by (simp add: app_clean_def echo_app_def EchoServer_onConnection_def)
qed

interpretation echo_any: clean_app th echo_app for th
  by unfold_locales (rule echo_app_clean)

interpretation echo_clean: clean_single me echo_app for me
  by unfold_locales

lemma clean_EventLoop_new [simp]: "clean (EventLoop_new me mode emode L tc wc w)"
  by (simp add: EventLoop_new_def Poller_newDefaultPoller_def EpollPoller_new_def TimerQueue_new_def createEventfd_def
      Let_def case_prod_unfold)

lemma clean_Acceptor_new [simp]: "clean (Acceptor_new A ch L la reuse w)"
  by (simp add: Acceptor_new_def Let_def case_prod_unfold)

lemma clean_EchoServer_new [simp]: "clean (EchoServer_new lib S A ch L la name n w)"
  by (simp add: EchoServer_new_def TcpServer_new_def Acceptor_setNewConnectionCallback_def TcpServer_setThreadNum_def)

lemma clean_spawn: "(\<And>f M v. clean (run_init f M v)) \<Longrightarrow> clean (pool_spawn run_init fr cb i n p w)"
  by (induction run_init fr cb i n p w rule: pool_spawn.induct)
    (simp_all add: EventLoopThread_startLoop_def EventLoopThread_threadFunc_def Let_def case_prod_unfold split: option.splits)

lemma clean_EchoServer_start [simp]: "clean (EchoServer_start fr me S w)"
  by (simp add: EchoServer_start_def TcpServer_start_def EventLoopThreadPool_start_def clean_spawn Acceptor_listen_def
      Let_def case_prod_unfold split: option.splits)


section \<open>Properties\<close>


text \<open>A loop whose only functor is a \<^verbatim>\<open>stopRead\<close> of a connection that is gone; the poll is interrupted.\<close>

definition late_demo :: net_world where
  "late_demo = (echo_start [SysErr EINTR, SysNum 0])
     \<lparr>loops := [7 \<mapsto> conn_demo_loop\<lparr>el_pendingFunctors := [FConnStopRead 2]\<rparr>]\<rparr>"

lemma late_demo_typed: "heap_typed late_demo"
  by (simp add: late_demo_def echo_start_def heap_typed_def referenced_def unused_def functor_conns_def List.map_filter_def)

lemma late_demo_runs:
  "net_iterate lib idle_app 9 7 late_demo = Inl (Undefined ''use of a destroyed TcpConnection'')"
  by (simp add: late_demo_def echo_start_def net_iterate_def EventLoop_iterate_def conn_demo_loop_def PollPoller_poll_def
      sys_def clock_now_def EventLoop_doPendingFunctors_def pending_swap_def loop_get_def loop_put_def
      TcpConnection_stopReadInLoop_def conn_get_def Let_def)


text \<open>
  C2. The echo program, which has one thread, never uses a destroyed connection, for every number of iterations and
  whatever the kernel answers: clients may connect, send, half-close, reset and disappear in any
  order, and every system call may fail. And as long as it runs its heap stays typed.
\<close>

theorem echo_never_uses_destroyed:
  assumes "heap_empty w"
  shows "echo_main n lib me w \<noteq> Inl (Undefined ''use of a destroyed TcpConnection'') \<and>
    (echo_main n lib me w = Inr (ended, w') \<longrightarrow> heap_typed w' \<and> channels_owned w')"
proof -
  let ?L = "brk w"
  have "clean (net_loop n lib echo_app me ?L w3)"
    if w1: "EventLoop_new me EPOLL LT ?L (brk w + 1) (brk w + 2) (w\<lparr>brk := brk w + 6\<rparr>) = Inr w1"
      and w2: "EchoServer_new lib (brk w + 3) (brk w + 4) (brk w + 5) ?L
        (InetAddress_port zero_address 12345 False False) ''EchoServer'' 0 w1 = Inr w2"
      and w3: "EchoServer_start (\<lambda>_. (me, 0, 0, 0)) me (brk w + 3) w2 = Inr w3" for w1 w2 w3
    by (rule echo_clean.clean_net_loop, rule sound_setup[OF assms w1 w2 w3]) (simp_all add: may_run_def)
  then have "clean (echo_main n lib me w)"
    unfolding echo_main_def Let_def by simp
  moreover have "heap_typed w' \<and> channels_owned w'" if "echo_main n lib me w = Inr (ended, w')"
    using sound_echo[OF that assms] heap_typed_owned by (auto simp: sound_def)
  ultimately show ?thesis
    by (simp add: clean_def)
qed

theorem echo_never_uses_destroyed_witness:
  "\<forall>lib n. echo_main n lib 9 (echo_start (session_answers 0 0 0 ''hey'')) \<noteq>
       Inl (Undefined ''use of a destroyed TcpConnection'') \<and>
     (\<exists>w'. echo_main 0 lib 9 (echo_start (session_answers 0 0 0 ''hey'')) = Inr (False, w') \<and> heap_typed w' \<and> channels_owned w')"
proof (intro allI)
  fix lib n
  let ?w = "echo_start (session_answers 0 0 0 ''hey'')"
  have empty: "heap_empty ?w"
    by (simp add: heap_empty_def echo_start_def)
  obtain w' where "echo_main 0 lib 9 ?w = Inr (False, w')"
    using echo_served[of lib] by blast
  then show "echo_main n lib 9 ?w \<noteq> Inl (Undefined ''use of a destroyed TcpConnection'') \<and>
      (\<exists>w'. echo_main 0 lib 9 ?w = Inr (False, w') \<and> heap_typed w' \<and> channels_owned w')"
    using echo_never_uses_destroyed[OF empty, of n lib 9] echo_never_uses_destroyed[OF empty, of 0 lib 9 False w'] by blast
qed

end
