(* ===== verification/Spec2Isabelle.thy ===== *)
theory Spec2Isabelle
  imports Byte_Buffer Logging Poller_Equiv Acceptor_Laws Client_Session Live_Conns
begin

text \<open>
  Verification of twnl, a reactor-style network library for TCP in C++ (\<^verbatim>\<open>src/twnl\<close>), and of its example, the
  echo server (\<^verbatim>\<open>src/example/echo.cc\<close>).

  \<^bold>\<open>The program.\<close> An \<^verbatim>\<open>EventLoop\<close> runs in one thread. It asks a \<^verbatim>\<open>Poller\<close> (epoll or poll) which descriptors are
  ready, lets the \<^verbatim>\<open>Channel\<close> of each ready descriptor run its callbacks, and then runs the functors that
  other code queued; an event descriptor wakes it for functors of other threads, a timer descriptor
  and the \<^verbatim>\<open>TimerQueue\<close> give it timers. A \<^verbatim>\<open>TcpConnection\<close> has a channel and two \<^verbatim>\<open>Buffer\<close>s. A \<^verbatim>\<open>TcpServer\<close> gets connections
  from an \<^verbatim>\<open>Acceptor\<close> and spreads them over the loops of an \<^verbatim>\<open>EventLoopThreadPool\<close>; a \<^verbatim>\<open>TcpClient\<close> gets its connection
  from a \<^verbatim>\<open>Connector\<close>, which tries again with a growing delay. \<^verbatim>\<open>LogStream\<close> and \<^verbatim>\<open>Logger\<close> write the log.

  \<^bold>\<open>The model.\<close> Each operation of the code is a function of the same name (\<open>Buffer_append\<close> is \<^verbatim>\<open>Buffer::append\<close>)
  from the state to \<open>'a res\<close>: a result, or an \<open>error\<close> (a failed assertion, undefined behaviour, a fatal log
  statement, a C++ exception, a kernel that breaks its contract, a call that blocks). Objects are
  records; those that are shared live in a heap, a map from addresses, and using a destroyed one is
  \<open>Undefined\<close>. The operating system is a tape of answers, one per system call, and a trace of the
  calls made (theory \<open>Os\<close>): a theorem for every tape is a theorem for every behaviour of the kernel.
  The state grows by record extension from theory to theory:
  \<open>os\<close>, \<open>hworld\<close> (channels), \<open>world\<close> (loops, timers), \<open>conn_world\<close>, \<open>acc_world\<close>, \<open>con_world\<close>, \<open>srv_world\<close>, \<open>cli_world\<close>,
  \<open>net_world\<close>, so a component's lemmas hold in every later state. Stored callables are names (theory
  \<open>Callbacks\<close>); what they do is an argument of the component that stores them and is supplied in
  theory \<open>Net\<close>. Machine integers are words where their width matters; where code relies on a signed
  number not overflowing, the overflow is an error.

  \<^bold>\<open>Theories and sources.\<close>
  \<^item> \<open>Prelude\<close>: results and errors, system call answers, \<^verbatim>\<open>size_t\<close> arithmetic, list segments.
  \<^item> \<open>Byte_Buffer\<close>: \<^verbatim>\<open>Buffer.h\<close>, \<^verbatim>\<open>Buffer.cc\<close>. The locale \<open>byte_queue\<close> is the contract of a first-in first-out
    queue of bytes; it is interpreted for the application's, the receiving and the sending side.
    Shown: exact outcomes of \<^verbatim>\<open>append\<close>, of the edge-triggered loops, order of bytes, index bounds.
  \<^item> \<open>Log_Stream\<close>, \<open>Timestamp\<close>, \<open>Logging\<close>: \<^verbatim>\<open>Log/\<close> and the text of a time in \<^verbatim>\<open>Timestamp.h\<close>. Shown: digit loops print
    decimal, chains of insertions stay inside the buffer and are exact, the text of a time gives the time
    back, the line a statement writes, which level lets what through.
  \<^item> \<open>Inet_Address\<close>: \<^verbatim>\<open>InetAddress\<close> and the byte order and text functions of \<^verbatim>\<open>SocketsOps\<close>. \<^verbatim>\<open>inet_ntop\<close> and \<^verbatim>\<open>inet_pton\<close>
    are the parameter \<open>inet_lib\<close>. Shown: round trips.
  \<^item> \<open>Os\<close>: the rest of \<^verbatim>\<open>SocketsOps\<close>, \<^verbatim>\<open>Socket\<close>, the clock of \<^verbatim>\<open>Timestamp.h\<close>.
  \<^item> \<open>Callbacks\<close>, \<open>Channel\<close>, \<open>Pollers\<close>, \<open>Poller_Laws\<close>: \<^verbatim>\<open>Channel\<close>, \<^verbatim>\<open>Poller\<close>, \<^verbatim>\<open>EpollPoller\<close>, \<^verbatim>\<open>PollPoller\<close>. The locale
    \<open>poller_contract\<close> is what the event loop relies on; it is interpreted for both pollers and for
    the choice between them. Shown: the kernel watches exactly what the channels want, a poll reports
    exactly the ready channels.
  \<^item> \<open>Poller_Equiv\<close>: a registry without the bookkeeping of either poller, and the locale \<open>poller_indexed\<close>, which
    extends the contract. Shown: both pollers refine the registry, so they agree.
  \<^item> \<open>Timer\<close>, \<open>Timer_Queue\<close>: \<^verbatim>\<open>Timer.h\<close>, \<^verbatim>\<open>TimerQueue\<close>. Shown: the set of timers, what an expiry runs and in
    which order, the time the descriptor is armed for.
  \<^item> \<open>Event_Loop\<close>, \<open>Loop_Laws\<close>, \<open>Loop_Concurrency\<close>: \<^verbatim>\<open>EventLoop\<close>. \<open>sched_step\<close> interleaves the loop's thread with
    any number of others at the granularity of the critical sections. Shown: functors run in
    order and exactly once, no wakeup is lost, a round runs everything queued, dispatch of events.
  \<^item> \<open>Loop_Pool\<close>: \<^verbatim>\<open>EventLoopThread\<close>, \<^verbatim>\<open>EventLoopThreadPool\<close>. \<open>elt_step\<close> is the protocol between owner and thread.
    Shown: round robin, start, termination of the join, and the deadlock when \<^verbatim>\<open>quit\<close> comes too early.
  \<^item> \<open>Tcp_Connection\<close>, \<open>Conn_Laws\<close>, \<open>Conn_Output\<close>: \<^verbatim>\<open>TcpConnection\<close>. Shown: the life of a connection as its callbacks
    see it, and the fate of every byte given to \<^verbatim>\<open>send\<close>.
  \<^item> \<open>Acceptor\<close>, \<open>Connector\<close>, \<open>Connector_Laws\<close>: the classes of these names. The locales \<open>world_view\<close> and
    \<open>connector_view\<close> state which part of the state the loop, and the connector, leave to their
    clients; they are interpreted for connectors, clients and connections. Shown: the invariant of the
    connector under every order of its handlers, and its retries. \<open>Acceptor_Laws\<close> shows what an acceptor does
    with each answer of \<^verbatim>\<open>accept\<close>, that it keeps its descriptors in balance when there are none left, and what
    its destructor leaves behind.
  \<^item> \<open>Tcp_Server\<close>, \<open>Server_Laws\<close>, \<open>Client_Laws\<close>: \<^verbatim>\<open>TcpServer\<close>, \<^verbatim>\<open>TcpClient\<close>. Shown: which connections a server holds;
    how a client reacts to the loss of its connection; undefined behaviour of its stop.
  \<^item> \<open>Net\<close>, \<open>Lifetimes\<close>: all components together, with the references that keep a connection alive. Shown:
    which connections die with the functors of a round, and which functors keep theirs.
  \<^item> \<open>Heap_Types\<close>, \<open>Type_Safety\<close>: the types of the heap (\<open>heap_typed\<close>). Shown: every operation of the library keeps
    them, and so does every loop, whatever the kernel answers, for every application (locale \<open>typed_app\<close>)
    whose functions do; the echo programs start with them and never lose them.
  \<^item> \<open>Live_Conns\<close>: no use of a destroyed connection (\<open>clean\<close>; locales \<open>clean_app\<close>, and \<open>clean_single\<close> for programs with one
    thread). Shown: only functors bound to \<^verbatim>\<open>this\<close> by another thread can use one; the echo program never does.
  \<^item> \<open>Echo\<close>, \<open>Echo_Threads\<close>, \<open>Client_Session\<close>: whole programs, \<^verbatim>\<open>example/echo.cc\<close> as it is and with one I/O thread, and
    a client. Shown: what the server answers, and the system calls of each program over a session, up to the
    destruction of the connection.

  \<^bold>\<open>Bounds.\<close> \<^verbatim>\<open>while (!quit_)\<close> is bounded by the number of iterations (\<open>EventLoop_while\<close>); its result says whether
  the loop ended, and theorems on iterations hold for each one. The loops of \<^verbatim>\<open>readFdET\<close> and \<^verbatim>\<open>writeFdET\<close> recurse
  on the tape of answers. All other loops are over lists. \<^verbatim>\<open>vector::max_size\<close> is \<open>max_size\<close>; longer requests
  are \<open>LengthError\<close>.

  \<^bold>\<open>Conventions.\<close> \<^verbatim>\<open>assert\<close> is on: a build with \<^verbatim>\<open>NDEBUG\<close> goes on where the model reports \<open>AssertFail\<close>. \<^verbatim>\<open>LOG_FATAL\<close>
  ends the program, as it does with every threshold up to \<^verbatim>\<open>WARN\<close>; other log statements in the network code have
  no effect on its state and are left out, and \<^verbatim>\<open>errno\<close> is read right after the call that sets it. A
  functor of \<^verbatim>\<open>send\<close> carries the bytes, where the code carries a pointer to them.

  \<^bold>\<open>Lifetimes.\<close> \<^verbatim>\<open>TcpConnectionPtr\<close> is an address; \<open>held_conns\<close> lists the references in maps, clients, waiting functors
  and the application, and a connection is destroyed where the code lets go of one and none is left: at the end
  of \<^verbatim>\<open>doPendingFunctors\<close> and in the destructors of \<^verbatim>\<open>TcpServer\<close> and \<^verbatim>\<open>TcpClient\<close>. The references that a call holds while
  it runs are not listed, so these destructors are to be run outside callbacks; functors that still wait
  in a loop that is destroyed go without a step. Other objects have one owner and are destroyed by it.

  \<^bold>\<open>Not modelled.\<close> The mutex
  of \<^verbatim>\<open>TcpClient\<close>, which guards single accesses. \<^verbatim>\<open>localtime\<close> and the text of floating point numbers and of
  \<^verbatim>\<open>strerror\<close>, which come from the C library. \<^verbatim>\<open>SIGPIPE\<close> handling at program start. \<^verbatim>\<open>forceCloseWithDelay\<close> and
  \<^verbatim>\<open>TcpClient::retry\<close>, which are declared and not defined. \<^verbatim>\<open>noncopyable\<close>, which acts at compile time.
\<close>

end
